(* ===== verification/Prelude.thy ===== *)
theory Prelude
  imports Main "HOL-Library.Word"
begin

text \<open>
  Shared vocabulary of the development: the machine integers of the 32-bit target, the
  error numbers of \<^verbatim>\<open>src/src/include/errno.h\<close>, the ways a kernel routine can end, array
  update, and the generic lemmas on words and lists that the component theories use.
\<close>

unbundle bit_operations_syntax

section \<open>Machine integers\<close>

type_synonym u8 = "8 word"
type_synonym u16 = "16 word"
type_synonym u32 = "32 word"

section \<open>Error numbers\<close>

text \<open>
  The kernel returns a negated error number. They are plain integers here, as in C.
\<close>

abbreviation (input) EPERM :: int where "EPERM \<equiv> 1"
abbreviation (input) ENOENT :: int where "ENOENT \<equiv> 2"
abbreviation (input) EINTR :: int where "EINTR \<equiv> 4"
abbreviation (input) EBADF :: int where "EBADF \<equiv> 9"
abbreviation (input) EAGAIN :: int where "EAGAIN \<equiv> 11"
abbreviation (input) ENOMEM :: int where "ENOMEM \<equiv> 12"
abbreviation (input) EACCES :: int where "EACCES \<equiv> 13"
abbreviation (input) EFAULT :: int where "EFAULT \<equiv> 14"
abbreviation (input) EBUSY :: int where "EBUSY \<equiv> 16"
abbreviation (input) EINVAL :: int where "EINVAL \<equiv> 22"
abbreviation (input) ENFILE :: int where "ENFILE \<equiv> 23"
abbreviation (input) ENOSYS :: int where "ENOSYS \<equiv> 40"
abbreviation (input) ETIMEOUT :: int where "ETIMEOUT \<equiv> 70"

section \<open>How a kernel routine ends\<close>

text \<open>
  A routine returns a value, stops the machine with \<^verbatim>\<open>panic\<close>, loops forever, or touches
  memory it must not: an array element out of bounds, or a page that is not mapped.
\<close>

datatype 'a outcome =
    Returns 'a
  | Panics string
  | Diverges
  | Faults

fun bind_outcome :: "'a outcome \<Rightarrow> ('a \<Rightarrow> 'b outcome) \<Rightarrow> 'b outcome" where
  "bind_outcome (Returns x) f = f x"
| "bind_outcome (Panics m) f = Panics m"
| "bind_outcome Diverges f = Diverges"
| "bind_outcome Faults f = Faults"

lemma bind_outcome_Returns_iff:
  "bind_outcome m f = Returns y \<longleftrightarrow> (\<exists>x. m = Returns x \<and> f x = Returns y)"
  by (cases m) auto

lemma bind_outcome_cong [fundef_cong]:
  "m = m' \<Longrightarrow> (\<And>x. m' = Returns x \<Longrightarrow> f x = f' x) \<Longrightarrow> bind_outcome m f = bind_outcome m' f'"
  by (cases m') auto

text \<open>
  A loop that may run forever is a partial function whose value is \<open>None\<close> then. A round of it goes
  on only when its body returns.
\<close>

definition then_loop :: "'a outcome \<Rightarrow> ('a \<Rightarrow> 'b outcome option) \<Rightarrow> 'b outcome option" where
  "then_loop m f =
     (case m of Returns x \<Rightarrow> f x | Panics msg \<Rightarrow> Some (Panics msg) | Diverges \<Rightarrow> Some Diverges | Faults \<Rightarrow> Some Faults)"

definition run_loop :: "'a outcome option \<Rightarrow> 'a outcome" where
  "run_loop r = (case r of None \<Rightarrow> Diverges | Some m \<Rightarrow> m)"

lemma then_loop_simps [simp]:
  "then_loop (Returns x) f = f x" "then_loop (Panics msg) f = Some (Panics msg)"
  "then_loop Diverges f = Some Diverges" "then_loop Faults f = Some Faults"
  by (simp_all add: then_loop_def)

lemma run_loop_simps [simp]: "run_loop None = Diverges" "run_loop (Some m) = m"
  by (simp_all add: run_loop_def)

lemma then_loop_mono [partial_function_mono]:
  assumes "\<And>x. mono_option (\<lambda>f. g x f)"
  shows "mono_option (\<lambda>f. then_loop m (\<lambda>x. g x f))"
  using assms by (cases m) (simp_all add: monotone_def flat_ord_def)

text \<open>A counting loop whose body changes the state \<open>s\<close> for each index in turn.\<close>

primrec for_each :: "'i list \<Rightarrow> ('i \<Rightarrow> 's \<Rightarrow> 's outcome) \<Rightarrow> 's \<Rightarrow> 's outcome" where
  "for_each [] f s = Returns s"
| "for_each (i # is) f s = bind_outcome (f i s) (for_each is f)"

lemma for_each_frame:
  assumes "\<And>x s s'. f x s = Returns s' \<Longrightarrow> g s' = g s" "for_each xs f s = Returns s'"
  shows "g s' = g s"
  using assms(2)
proof (induction xs arbitrary: s)
  case (Cons x xs)
  then obtain s1 where "f x s = Returns s1" "for_each xs f s1 = Returns s'" by (auto simp: bind_outcome_Returns_iff)
  then show ?case using Cons.IH assms(1) by fastforce
qed simp

lemma for_each_append:
  "for_each (is @ js) f s = bind_outcome (for_each is f s) (for_each js f)"
proof (induction "is" arbitrary: s)
  case (Cons i "is")
  then show ?case by (cases "f i s") auto
qed simp

text \<open>The loop rule: an invariant indexed by the number of finished rounds.\<close>

lemma for_each_upt:
  assumes "P 0 s"
    and "\<And>k s. k < n \<Longrightarrow> P k s \<Longrightarrow> \<exists>s'. f k s = Returns s' \<and> P (Suc k) s'"
  shows "\<exists>s'. for_each [0..<n] f s = Returns s' \<and> P n s'"
  using assms(2)
proof (induction n)
  case 0
  show ?case using assms(1) by simp
next
  case (Suc n)
  then obtain s1 where "for_each [0..<n] f s = Returns s1" "P n s1" by (meson less_SucI)
  moreover then obtain s2 where "f n s1 = Returns s2" "P (Suc n) s2" using Suc.prems by blast
  ultimately show ?case by (simp add: for_each_append)
qed

section \<open>Arrays\<close>

text \<open>\<open>upd_at i f xs\<close> is the in-place update of one array element by \<open>f\<close>.\<close>

definition upd_at :: "nat \<Rightarrow> ('a \<Rightarrow> 'a) \<Rightarrow> 'a list \<Rightarrow> 'a list" where
  "upd_at i f xs = xs[i := f (xs ! i)]"

lemma length_upd_at [simp]: "length (upd_at i f xs) = length xs"
  by (simp add: upd_at_def)

lemma nth_upd_at: "j < length xs \<Longrightarrow> upd_at i f xs ! j = (if j = i then f (xs ! i) else xs ! j)"
  by (simp add: upd_at_def nth_list_update)

lemma nth_upd_at_eq [simp]: "i < length xs \<Longrightarrow> upd_at i f xs ! i = f (xs ! i)"
  by (simp add: upd_at_def)

lemma nth_upd_at_neq [simp]: "j \<noteq> i \<Longrightarrow> upd_at i f xs ! j = xs ! j"
  by (simp add: upd_at_def)

section \<open>Words\<close>

lemma unat_plus_bounded:
  fixes a b :: u32
  assumes "unat a + unat b < 2 ^ 32"
  shows "unat (a + b) = unat a + unat b"
  using assms by (simp add: unat_word_ariths)

lemma unat_minus_le:
  fixes a b :: u32
  assumes "unat b \<le> unat a"
  shows "unat (a - b) = unat a - unat b"
  using assms by (simp add: unat_sub word_le_nat_alt)

lemma unat_u32_bound: "unat (a :: u32) < 2 ^ 32"
  using unsigned_less [of a] by simp

lemma unat_of_nat_u16: "n < 2 ^ 16 \<Longrightarrow> unat (of_nat n :: u16) = n"
  by (simp add: unat_of_nat)

lemma unat_of_nat_u32: "n < 2 ^ 32 \<Longrightarrow> unat (of_nat n :: u32) = n"
  by (simp add: unat_of_nat)

lemma unat_ucast_u16: "unat (ucast (w :: u32) :: u16) = unat w mod 2 ^ 16"
  by (simp add: unsigned_ucast_eq unsigned_take_bit_eq take_bit_eq_mod)

text \<open>The two bytes of a 16-bit word.\<close>

definition low_byte :: "u16 \<Rightarrow> u8" where
  "low_byte w = ucast (w AND 0x00FF)"

definition high_byte :: "u16 \<Rightarrow> u8" where
  "high_byte w = ucast (drop_bit 8 (w AND 0xFF00))"

definition with_low_byte :: "u16 \<Rightarrow> u8 \<Rightarrow> u16" where
  "with_low_byte w v = (w AND 0xFF00) OR ucast v"

definition with_high_byte :: "u16 \<Rightarrow> u8 \<Rightarrow> u16" where
  "with_high_byte w v = (w AND 0x00FF) OR push_bit 8 (ucast v)"

lemma bit_low_byte: "bit (0x00FF :: int) n \<longleftrightarrow> n < 8"
proof -
  have "(0x00FF :: int) = mask 8" by (simp add: mask_eq_exp_minus_1)
  then show ?thesis by (simp only: bit_mask_iff) simp
qed

lemma bit_high_byte: "bit (0xFF00 :: int) n \<longleftrightarrow> 8 \<le> n \<and> n < 16"
proof -
  have "(0xFF00 :: int) = push_bit 8 (mask 8)" by (simp add: mask_eq_exp_minus_1 push_bit_eq_mult)
  then show ?thesis by (simp only: bit_push_bit_iff bit_mask_iff) auto
qed

lemma bit_u8_high: "8 \<le> n \<Longrightarrow> \<not> bit (v :: u8) n"
  using bit_imp_le_length [of v n] by auto

lemma bytes_of_updates [simp]:
  "low_byte (with_low_byte w v) = v" "high_byte (with_low_byte w v) = high_byte w"
  "low_byte (with_high_byte w v) = low_byte w" "high_byte (with_high_byte w v) = v"
  unfolding low_byte_def high_byte_def with_low_byte_def with_high_byte_def
  by (rule bit_word_eqI; auto simp: bit_simps bit_low_byte bit_high_byte bit_u8_high)+

end
