(* ===== verification/Page_Ranges.thy ===== *)
theory Page_Ranges
  imports Prelude
begin

text \<open>
  The contract of a page range allocator, as the kernel memory managers (\<^verbatim>\<open>kmem.c\<close>,
  \<^verbatim>\<open>vmm.c\<close>) rely on it. A map gives each page of the 32-bit address space a status (used or
  free); allocating a range makes it used, releasing it makes it free, and no other page
  changes. \<^verbatim>\<open>rmap.c\<close> provides it.
\<close>

section \<open>Ranges of pages\<close>

definition range_is :: "(nat \<Rightarrow> bool option) \<Rightarrow> nat \<Rightarrow> nat \<Rightarrow> bool \<Rightarrow> bool" where
  "range_is st off n u \<longleftrightarrow> (\<forall>p\<in>{off..<off + n}. st p = Some u)"

definition range_set :: "(nat \<Rightarrow> bool option) \<Rightarrow> nat \<Rightarrow> nat \<Rightarrow> bool \<Rightarrow> nat \<Rightarrow> bool option" where
  "range_set st off n u = (\<lambda>p. if off \<le> p \<and> p < off + n then Some u else st p)"

lemma range_set_set [simp]:
  "range_set (range_set st off n u) off n v = range_set st off n v"
  by (auto simp: range_set_def)

lemma range_set_same: "range_is st off n u \<Longrightarrow> range_set st off n u = st"
  by (auto simp: range_set_def range_is_def)

lemma range_is_set [simp]: "range_is (range_set st off n u) off n u"
  by (simp add: range_is_def range_set_def)

section \<open>The interface\<close>

locale page_ranges =
  fixes inv :: "'m \<Rightarrow> bool"
    and status :: "'m \<Rightarrow> nat \<Rightarrow> bool option"
    and spare :: "'m \<Rightarrow> nat"
    and alloc :: "'m \<Rightarrow> u32 \<Rightarrow> (u32 \<times> 'm) outcome"
    and release :: "'m \<Rightarrow> u32 \<Rightarrow> u32 \<Rightarrow> (int option \<times> 'm) outcome"
  assumes status_dom: "inv m \<Longrightarrow> (status m p \<noteq> None) = (p < 1048576)"
    and alloc_law: "inv m \<Longrightarrow> sz \<noteq> 0 \<Longrightarrow> 1 \<le> spare m \<Longrightarrow>
      (case alloc m sz of
         Returns (off, m') \<Rightarrow> inv m' \<and> range_is (status m) (unat off) (unat sz) False
                               \<and> status m' = range_set (status m) (unat off) (unat sz) True
       | Panics s \<Rightarrow> \<not> (\<exists>q. range_is (status m) q (unat sz) False)
       | _ \<Rightarrow> False)"
    and release_law: "inv m \<Longrightarrow> sz \<noteq> 0 \<Longrightarrow> 2 \<le> spare m \<Longrightarrow> unat off + unat sz \<le> 1048576 \<Longrightarrow>
      (if range_is (status m) (unat off) (unat sz) True
       then \<exists>m'. release m off sz = Returns (None, m') \<and> inv m'
                  \<and> status m' = range_set (status m) (unat off) (unat sz) False
       else release m off sz = Returns (Some (- ENOMEM), m))"
begin

lemma allocD:
  assumes "inv m" "sz \<noteq> 0" "1 \<le> spare m" "alloc m sz = Returns (off, m')"
  shows "inv m'" "range_is (status m) (unat off) (unat sz) False"
    "status m' = range_set (status m) (unat off) (unat sz) True"
  using alloc_law [OF assms(1-3)] assms(4) by simp_all

lemma alloc_total:
  assumes "inv m" "sz \<noteq> 0" "1 \<le> spare m" "range_is (status m) q (unat sz) False"
  shows "\<exists>off m'. alloc m sz = Returns (off, m')"
  using alloc_law [OF assms(1-3)] assms(4) by (cases "alloc m sz") auto

lemma alloc_bound:
  assumes "inv m" "sz \<noteq> 0" "1 \<le> spare m" "alloc m sz = Returns (off, m')"
  shows "unat off + unat sz \<le> 1048576"
proof -
  have pos: "0 < unat sz" using assms(2) by (simp add: unat_gt_0)
  then have "unat off + unat sz - 1 \<in> {unat off..<unat off + unat sz}" by auto
  then have "status m (unat off + unat sz - 1) = Some False"
    using allocD(2) [OF assms] unfolding range_is_def by blast
  then have "unat off + unat sz - 1 < 1048576" using status_dom [OF assms(1)] by force
  then show ?thesis using pos by linarith
qed

text \<open>Two successive allocations never share a page.\<close>

lemma alloc_disjoint:
  assumes one: "inv m" "sz \<noteq> 0" "1 \<le> spare m" "alloc m sz = Returns (off, m1)"
    and two: "sz' \<noteq> 0" "1 \<le> spare m1" "alloc m1 sz' = Returns (off', m2)"
  shows "{unat off..<unat off + unat sz} \<inter> {unat off'..<unat off' + unat sz'} = {}"
proof -
  note A = allocD [OF one]
  have "status m1 p = Some False" if "p \<in> {unat off'..<unat off' + unat sz'}" for p
    using allocD(2) [OF A(1) two] that by (simp add: range_is_def)
  moreover have "status m1 p = Some True" if "p \<in> {unat off..<unat off + unat sz}" for p
    using that A(3) by (simp add: range_set_def)
  ultimately show ?thesis by fastforce
qed

text \<open>Releasing what was allocated succeeds and brings back every page status.\<close>

lemma alloc_release:
  assumes al: "inv m" "sz \<noteq> 0" "1 \<le> spare m" "alloc m sz = Returns (off, m1)"
    and spare: "2 \<le> spare m1"
  shows "\<exists>m2. release m1 off sz = Returns (None, m2) \<and> inv m2 \<and> status m2 = status m"
proof -
  note A = allocD [OF al]
  obtain m2 where "release m1 off sz = Returns (None, m2)" "inv m2"
    "status m2 = range_set (status m1) (unat off) (unat sz) False"
    using release_law [OF A(1) al(2) spare alloc_bound [OF al]] A(3) by auto
  then show ?thesis using A(2,3) by (simp add: range_set_same)
qed

end

end
