(* ===== verification/Rmap.thy ===== *)
theory Rmap
  imports Prelude Page_Ranges
begin

text \<open>
  The resource map of \<^verbatim>\<open>src/src/sys/kernel/rmap.c\<close>: a first-fit allocator of page ranges.
  The map is an array of entries; entry 0 is a header (its \<^verbatim>\<open>size\<close> is the number of used
  pages, its \<^verbatim>\<open>next\<close> the index of the last entry), and entry 1 starts a singly linked list of
  chunks that together cover the whole 32-bit page space.
\<close>

section \<open>Data\<close>

record rmap_t =
  rm_size :: u32
  rm_next :: u16
  rm_used :: u16

type_synonym rmap = "rmap_t list"

definition RMAP_MAX_PAGES :: u32 where
  "RMAP_MAX_PAGES = 1048576"

definition RMAP_MAX_ALIGN :: u32 where
  "RMAP_MAX_ALIGN = 256"

definition RMAP_MAX_ENTRIES :: u32 where
  "RMAP_MAX_ENTRIES = 0xFFFF"

definition RMAP_TOTAL :: "rmap \<Rightarrow> u32" where
  "RMAP_TOTAL r = rm_size (r ! 0)"

definition rmap_zero :: rmap_t where
  "rmap_zero = \<lparr>rm_size = 0, rm_next = 0, rm_used = 0\<rparr>"

section \<open>Operations\<close>

text \<open>The map pointer may be NULL, here \<open>None\<close>; otherwise it is the array it points to.\<close>

definition krmap_initialize :: "rmap option \<Rightarrow> u32 \<Rightarrow> int \<times> rmap option" where
  "krmap_initialize rmap sz =
     (case rmap of
        None \<Rightarrow> (- EINVAL, None)
      | Some r \<Rightarrow>
          if sz < 16 then (- EINVAL, Some r)
          else
            let sz = (if sz > RMAP_MAX_ENTRIES then RMAP_MAX_ENTRIES else sz);
                r = replicate (unat sz) rmap_zero @ drop (unat sz) r;
                r = upd_at 0 (\<lambda>e. e\<lparr>rm_next := ucast (sz - 1)\<rparr>) r;
                r = upd_at 0 (\<lambda>e. e\<lparr>rm_size := RMAP_MAX_PAGES\<rparr>) r;
                r = upd_at 1 (\<lambda>e. e\<lparr>rm_size := RMAP_MAX_PAGES\<rparr>) r;
                r = upd_at 1 (\<lambda>e. e\<lparr>rm_used := 1\<rparr>) r;
                r = upd_at 1 (\<lambda>e. e\<lparr>rm_next := 0\<rparr>) r
            in (0, Some r))"

text \<open>The scan of \<^verbatim>\<open>krmap_new\<close> for an entry of size 0; pointers into the array are indices.\<close>

function krmap_new_scan :: "rmap \<Rightarrow> nat \<Rightarrow> nat \<Rightarrow> nat" where
  "krmap_new_scan r current limit =
     (if current < limit then
        if rm_size (r ! current) = 0 then current
        else krmap_new_scan r (Suc current) limit
      else current)"
  by pat_completeness auto
termination
  by (relation "measure (\<lambda>(r, current, limit). limit - current)") auto

declare krmap_new_scan.simps [simp del]

definition krmap_new :: "rmap \<Rightarrow> nat option" where
  "krmap_new r =
     (let limit = unat (rm_next (r ! 0));
          current = krmap_new_scan r 1 limit
      in if current \<ge> limit then None else Some current)"

text \<open>
  \<^verbatim>\<open>krmap_split\<close> in its four stages: cut off the pages before the range, cut off the pages
  after it, then flip the range and join it with equal neighbours.
\<close>

definition krmap_split_before :: "rmap \<Rightarrow> nat \<Rightarrow> u32 \<Rightarrow> (nat option \<times> nat \<times> rmap) option" where
  "krmap_split_before r current offset =
     (if offset > 0 then
        let prev = current in
        case krmap_new r of
          None \<Rightarrow> None
        | Some current \<Rightarrow>
            let r = upd_at current (\<lambda>e. e\<lparr>rm_next := rm_next (r ! prev)\<rparr>) r;
                r = upd_at prev (\<lambda>e. e\<lparr>rm_next := of_nat current\<rparr>) r;
                r = upd_at current (\<lambda>e. e\<lparr>rm_size := rm_size (r ! prev) - offset\<rparr>) r;
                r = upd_at current (\<lambda>e. e\<lparr>rm_used := rm_used (r ! prev)\<rparr>) r;
                r = upd_at prev (\<lambda>e. e\<lparr>rm_size := offset\<rparr>) r
            in Some (Some prev, current, r)
      else Some (None, current, r))"

definition krmap_split_after :: "rmap \<Rightarrow> nat \<Rightarrow> u32 \<Rightarrow> (nat option \<times> rmap) option" where
  "krmap_split_after r current after =
     (if after > 0 then
        case krmap_new r of
          None \<Rightarrow> None
        | Some nxt \<Rightarrow>
            let r = upd_at nxt (\<lambda>e. e\<lparr>rm_next := rm_next (r ! current)\<rparr>) r;
                r = upd_at current (\<lambda>e. e\<lparr>rm_next := of_nat nxt\<rparr>) r;
                r = upd_at nxt (\<lambda>e. e\<lparr>rm_size := after\<rparr>) r;
                r = upd_at nxt (\<lambda>e. e\<lparr>rm_used := rm_used (r ! current)\<rparr>) r;
                r = upd_at current (\<lambda>e. e\<lparr>rm_size := rm_size (r ! current) - after\<rparr>) r
            in Some (Some nxt, r)
      else Some (None, r))"

definition krmap_join_prev :: "rmap \<Rightarrow> nat option \<Rightarrow> nat \<Rightarrow> nat \<times> rmap" where
  "krmap_join_prev r prev current =
     (case prev of
        None \<Rightarrow> (current, r)
      | Some pv \<Rightarrow>
          if rm_used (r ! pv) = rm_used (r ! current) then
            let r = upd_at pv (\<lambda>e. e\<lparr>rm_size := rm_size (r ! pv) + rm_size (r ! current)\<rparr>) r;
                r = upd_at pv (\<lambda>e. e\<lparr>rm_next := rm_next (r ! current)\<rparr>) r;
                r = upd_at current (\<lambda>e. e\<lparr>rm_size := 0\<rparr>) r
            in (pv, r)
          else (current, r))"

definition krmap_join_next :: "rmap \<Rightarrow> nat option \<Rightarrow> nat \<Rightarrow> rmap" where
  "krmap_join_next r nxt current =
     (case nxt of
        None \<Rightarrow> r
      | Some nx \<Rightarrow>
          if rm_used (r ! nx) = rm_used (r ! current) then
            let r = upd_at current (\<lambda>e. e\<lparr>rm_size := rm_size (r ! current) + rm_size (r ! nx)\<rparr>) r;
                r = upd_at current (\<lambda>e. e\<lparr>rm_next := rm_next (r ! nx)\<rparr>) r;
                r = upd_at nx (\<lambda>e. e\<lparr>rm_size := 0\<rparr>) r
            in r
          else r)"

definition krmap_flip_join ::
  "rmap \<Rightarrow> nat option \<Rightarrow> nat option \<Rightarrow> nat \<Rightarrow> nat option \<Rightarrow> nat \<times> rmap" where
  "krmap_flip_join r p prev current nxt =
     (let r = upd_at current (\<lambda>e. e\<lparr>rm_used := (if rm_used e = 0 then 1 else 0)\<rparr>) r;
          prev = (if prev = None then p else prev);
          nxt = (if nxt = None \<and> rm_next (r ! current) \<noteq> 0
                 then Some (unat (rm_next (r ! current))) else nxt);
          (current, r) = krmap_join_prev r prev current;
          r = krmap_join_next r nxt current
      in (current, r))"

text \<open>The result is \<open>None\<close> for a NULL return; the array is what the call leaves behind.\<close>

definition krmap_split :: "rmap \<Rightarrow> nat option \<Rightarrow> nat \<Rightarrow> u32 \<Rightarrow> u32 \<Rightarrow> nat option \<times> rmap" where
  "krmap_split r p current offset sz =
     (if rm_size (r ! current) < offset + sz then (None, r)
      else
        let after = rm_size (r ! current) - offset - sz in
        case krmap_split_before r current offset of
          None \<Rightarrow> (None, r)
        | Some (prev, current, r) \<Rightarrow>
            (case krmap_split_after r current after of
               None \<Rightarrow> (None, r)
             | Some (nxt, r) \<Rightarrow>
                 let (current, r) = krmap_flip_join r p prev current nxt in (Some current, r)))"

text \<open>
  The three searches walk the list until it comes back to the header; on a list that never
  does, they do not return (\<open>None\<close>). \<open>Some None\<close> is "no chunk fits".
\<close>

partial_function (option) krmap_find_free ::
  "rmap \<Rightarrow> u32 \<Rightarrow> u32 \<Rightarrow> nat \<Rightarrow> u32 \<Rightarrow> nat option \<Rightarrow> (nat \<times> u32 \<times> nat option) option option" where
  "krmap_find_free r sz align current offset prev =
     (if current = 0 then Some None
      else if rm_used (r ! current) = 0
              \<and> rm_size (r ! current) > offset mod align
              \<and> rm_size (r ! current) - offset mod align \<ge> sz
      then Some (Some (current, offset, prev))
      else krmap_find_free r sz align (unat (rm_next (r ! current)))
             (offset + rm_size (r ! current)) (Some current))"

partial_function (option) krmap_find_range ::
  "rmap \<Rightarrow> bool \<Rightarrow> u32 \<Rightarrow> u32 \<Rightarrow> nat \<Rightarrow> u32 \<Rightarrow> nat option \<Rightarrow> (nat \<times> u32 \<times> nat option) option option" where
  "krmap_find_range r used offset sz current pos prev =
     (if current = 0 then Some None
      else if (rm_used (r ! current) \<noteq> 0) = used
              \<and> offset \<ge> pos \<and> offset + sz \<le> pos + rm_size (r ! current)
      then Some (Some (current, pos, prev))
      else krmap_find_range r used offset sz (unat (rm_next (r ! current)))
             (pos + rm_size (r ! current)) (Some current))"

definition krmap_alloc_align :: "rmap \<Rightarrow> u32 \<Rightarrow> u32 \<Rightarrow> (u32 \<times> rmap) outcome" where
  "krmap_alloc_align r sz align =
     (if align > RMAP_MAX_ALIGN then Returns (- 1, r)
      else
        let align = (if align = 0 then 1 else align) in
        case krmap_find_free r sz align 1 0 None of
          None \<Rightarrow> Diverges
        | Some None \<Rightarrow> Panics ''Allocation failed!''
        | Some (Some (current, offset, prev)) \<Rightarrow>
            let before = offset mod align;
                r = snd (krmap_split r prev current before sz);
                r = upd_at 0 (\<lambda>e. e\<lparr>rm_size := rm_size e + sz\<rparr>) r
            in Returns (offset + before, r))"

definition krmap_alloc :: "rmap \<Rightarrow> u32 \<Rightarrow> (u32 \<times> rmap) outcome" where
  "krmap_alloc r sz = krmap_alloc_align r sz 1"

text \<open>
  \<^verbatim>\<open>krmap_free\<close> ends with a \<^verbatim>\<open>return\<close> that has no value, so the number a successful call
  returns is indeterminate: \<open>None\<close>.
\<close>

definition krmap_free :: "rmap \<Rightarrow> u32 \<Rightarrow> u32 \<Rightarrow> (int option \<times> rmap) outcome" where
  "krmap_free r offset sz =
     (case krmap_find_range r True offset sz 1 0 None of
        None \<Rightarrow> Diverges
      | Some None \<Rightarrow> Returns (Some (- ENOMEM), r)
      | Some (Some (current, pos, prev)) \<Rightarrow>
          let before = offset - pos;
              r = snd (krmap_split r prev current before sz);
              r = upd_at 0 (\<lambda>e. e\<lparr>rm_size := rm_size e - sz\<rparr>) r
          in Returns (None, r))"

definition krmap_reserve :: "rmap option \<Rightarrow> u32 \<Rightarrow> u32 \<Rightarrow> (int \<times> rmap option) outcome" where
  "krmap_reserve rmap offset sz =
     (case rmap of
        None \<Rightarrow> Returns (- EINVAL, None)
      | Some r \<Rightarrow>
          if sz = 0 then Returns (- EINVAL, Some r)
          else
            case krmap_find_range r False offset sz 1 0 None of
              None \<Rightarrow> Diverges
            | Some None \<Rightarrow> Returns (- ENOMEM, Some r)
            | Some (Some (current, pos, prev)) \<Rightarrow>
                let before = offset - pos in
                case krmap_split r prev current before sz of
                  (None, r) \<Rightarrow> Returns (- ENOMEM, Some r)
                | (Some _, r) \<Rightarrow>
                    Returns (0, Some (upd_at 0 (\<lambda>e. e\<lparr>rm_size := rm_size e + sz\<rparr>) r)))"

partial_function (option) krmap_get_status_loop ::
  "rmap \<Rightarrow> u32 \<Rightarrow> u32 \<Rightarrow> nat \<Rightarrow> u32 \<Rightarrow> int option" where
  "krmap_get_status_loop r offset sz current pos =
     (if pos \<le> offset \<and> pos + rm_size (r ! current) > offset then
        (if offset \<ge> pos \<and> offset + sz \<le> pos + rm_size (r ! current)
         then Some (uint (rm_used (r ! current)))
         else Some (- 1))
      else krmap_get_status_loop r offset sz (unat (rm_next (r ! current)))
             (pos + rm_size (r ! current)))"

definition krmap_get_status :: "rmap \<Rightarrow> u32 \<Rightarrow> u32 \<Rightarrow> int outcome" where
  "krmap_get_status r offset sz =
     (case krmap_get_status_loop r offset sz 1 0 of
        None \<Rightarrow> Diverges
      | Some s \<Rightarrow> Returns s)"

text \<open>
  The entry counter is a 16-bit variable; the loop ends at the first entry whose
  \<^verbatim>\<open>next\<close> is 0. \<open>count\<close> is \<open>None\<close> when the caller passes NULL for the result.
\<close>

partial_function (option) krmap_count_loop :: "rmap \<Rightarrow> nat \<Rightarrow> u16 \<Rightarrow> u16 option" where
  "krmap_count_loop r current c =
     (if rm_next (r ! current) = 0 then Some (c + 1)
      else krmap_count_loop r (unat (rm_next (r ! current))) (c + 1))"

definition krmap_get_entry_count ::
  "rmap option \<Rightarrow> u32 option \<Rightarrow> (int \<times> u32 option) outcome" where
  "krmap_get_entry_count rmap count =
     (case (rmap, count) of
        (Some r, Some _) \<Rightarrow>
          (case krmap_count_loop r 1 0 of
             None \<Rightarrow> Diverges
           | Some c \<Rightarrow> Returns (0, Some (ucast c)))
      | _ \<Rightarrow> Returns (- EINVAL, count))"

declare krmap_find_free.simps [code] krmap_find_range.simps [code]
declare krmap_get_status_loop.simps [code] krmap_count_loop.simps [code]

section \<open>Invariant and abstraction\<close>

primrec rm_path :: "rmap \<Rightarrow> nat \<Rightarrow> nat list \<Rightarrow> nat \<Rightarrow> bool" where
  "rm_path r i [] k \<longleftrightarrow> i = k"
| "rm_path r i (j # js) k \<longleftrightarrow> i = j \<and> rm_path r (unat (rm_next (r ! j))) js k"

text \<open>The page statuses (used or free) that the chunks of a path describe, in page order.\<close>

abbreviation in_use :: "rmap \<Rightarrow> nat \<Rightarrow> bool" where
  "in_use r j \<equiv> rm_used (r ! j) \<noteq> 0"

definition page_list :: "rmap \<Rightarrow> nat list \<Rightarrow> bool list" where
  "page_list r ps = concat (map (\<lambda>j. replicate (unat (rm_size (r ! j))) (in_use r j)) ps)"

text \<open>No two neighbouring chunks have the same status.\<close>

definition alternating :: "rmap \<Rightarrow> nat list \<Rightarrow> bool" where
  "alternating r ps \<longleftrightarrow> distinct_adj (map (in_use r) ps)"

definition rmap_core :: "rmap \<Rightarrow> nat list \<Rightarrow> bool" where
  "rmap_core r ps \<longleftrightarrow>
     unat (rm_next (r ! 0)) < length r
     \<and> rm_path r 1 ps 0 \<and> distinct ps \<and> set ps \<subseteq> {1..<unat (rm_next (r ! 0))}
     \<and> (\<forall>j\<in>set ps. rm_size (r ! j) \<noteq> 0 \<and> rm_used (r ! j) \<le> 1)
     \<and> (\<forall>j\<in>{1..<unat (rm_next (r ! 0))} - set ps. rm_size (r ! j) = 0)"

definition rmap_ok :: "rmap \<Rightarrow> nat list \<Rightarrow> bool" where
  "rmap_ok r ps \<longleftrightarrow> rmap_core r ps \<and> length (page_list r ps) = 1048576
     \<and> unat (RMAP_TOTAL r) = count_list (page_list r ps) True"

definition rmap_inv :: "rmap \<Rightarrow> bool" where
  "rmap_inv r \<longleftrightarrow> (\<exists>ps. rmap_ok r ps \<and> alternating r ps)"

fun page_walk :: "nat \<Rightarrow> rmap \<Rightarrow> nat \<Rightarrow> nat \<Rightarrow> bool option" where
  "page_walk 0 r cur p = None"
| "page_walk (Suc k) r cur p =
     (if cur = 0 then None
      else if p < unat (rm_size (r ! cur)) then Some (rm_used (r ! cur) \<noteq> 0)
      else page_walk k r (unat (rm_next (r ! cur))) (p - unat (rm_size (r ! cur))))"

definition rmap_page :: "rmap \<Rightarrow> nat \<Rightarrow> bool option" where
  "rmap_page r p = page_walk (length r) r 1 p"

definition rmap_spare :: "rmap \<Rightarrow> nat" where
  "rmap_spare r = length (filter (\<lambda>j. rm_size (r ! j) = 0) [1..<unat (rm_next (r ! 0))])"

definition prev_of :: "nat list \<Rightarrow> nat option" where
  "prev_of as = (if as = [] then None else Some (last as))"

definition next_of :: "nat list \<Rightarrow> nat option" where
  "next_of bs = (if bs = [] then None else Some (hd bs))"

definition set_range :: "'a list \<Rightarrow> nat \<Rightarrow> nat \<Rightarrow> 'a \<Rightarrow> 'a list" where
  "set_range xs off n b = take off xs @ replicate n b @ drop (off + n) xs"

text \<open>A small concrete map: pages 16 to 115 are free, the rest of the page space is used.\<close>

definition rmap_example :: rmap where
  "rmap_example =
     [\<lparr>rm_size = 1048476, rm_next = 15, rm_used = 0\<rparr>,
      \<lparr>rm_size = 16, rm_next = 2, rm_used = 1\<rparr>,
      \<lparr>rm_size = 100, rm_next = 3, rm_used = 0\<rparr>,
      \<lparr>rm_size = 1048460, rm_next = 0, rm_used = 1\<rparr>] @ replicate 12 rmap_zero"

text \<open>The same map after ten pages were allocated from it.\<close>

definition rmap_example_alloc1 :: rmap where
  "rmap_example_alloc1 = rmap_example
      [0 := \<lparr>rm_size = 1048486, rm_next = 15, rm_used = 0\<rparr>,
       1 := \<lparr>rm_size = 26, rm_next = 4, rm_used = 1\<rparr>,
       2 := \<lparr>rm_size = 0, rm_next = 4, rm_used = 1\<rparr>,
       4 := \<lparr>rm_size = 90, rm_next = 3, rm_used = 0\<rparr>]"

text \<open>A map of 16 entries, initialized and then with seven pairs of pages freed.\<close>

definition rmap_full :: rmap where
  "rmap_full =
     fold (\<lambda>off r. case krmap_free r off 2 of Returns (_, r') \<Rightarrow> r' | _ \<Rightarrow> r) [0, 4, 8, 12, 16, 20, 24]
       (case krmap_initialize (Some (replicate 16 rmap_zero)) 16 of (_, Some r) \<Rightarrow> r | _ \<Rightarrow> [])"

section \<open>Paths and chunks\<close>

lemma rm_path_append [simp]:
  "rm_path r i (xs @ ys) k \<longleftrightarrow> (\<exists>m. rm_path r i xs m \<and> rm_path r m ys k)"
  by (induction xs arbitrary: i) auto

lemma rm_path_cong:
  "(\<And>j. j \<in> set xs \<Longrightarrow> rm_next (r' ! j) = rm_next (r ! j)) \<Longrightarrow> rm_path r' i xs k = rm_path r i xs k"
  by (induction xs arbitrary: i) auto

lemma pages_simps [simp]:
  "page_list r [] = []"
  "page_list r (j # js) = replicate (unat (rm_size (r ! j))) (in_use r j) @ page_list r js"
  "page_list r (xs @ ys) = page_list r xs @ page_list r ys"
  by (simp_all add: page_list_def)

lemma pages_cong:
  "(\<And>j. j \<in> set ps \<Longrightarrow> rm_size (r' ! j) = rm_size (r ! j) \<and> rm_used (r' ! j) = rm_used (r ! j))
     \<Longrightarrow> page_list r' ps = page_list r ps"
  by (induction ps) auto

lemma rmap_core_path:
  assumes "rmap_core r (as @ c # bs)"
  shows "rm_path r 1 as c" "rm_path r (unat (rm_next (r ! c))) bs 0"
    "distinct (as @ c # bs)" "set (as @ c # bs) \<subseteq> {1..<unat (rm_next (r ! 0))}"
    "c \<noteq> 0" "c < length r" "0 \<notin> set as" "0 \<notin> set bs"
  using assms by (auto simp: rmap_core_def)

lemma rmap_core_entry:
  assumes "rmap_core r ps" "j \<in> set ps"
  shows "rm_size (r ! j) \<noteq> 0" "rm_used (r ! j) \<le> 1"
  using assms by (auto simp: rmap_core_def)

lemma rmap_core_spare:
  assumes "rmap_core r ps" "0 < j" "j < unat (rm_next (r ! 0))" "j \<notin> set ps"
  shows "rm_size (r ! j) = 0"
  using assms by (auto simp: rmap_core_def)

lemma rmap_core_size:
  assumes "rmap_core r ps"
  shows "unat (rm_next (r ! 0)) < length r" "unat (rm_next (r ! 0)) < 2 ^ 16"
  using assms unsigned_less [of "rm_next (r ! 0)"] by (auto simp: rmap_core_def)

lemma rmap_coreI:
  assumes "unat (rm_next (r ! 0)) < length r"
    and "rm_path r 1 ps 0" "distinct ps" "set ps \<subseteq> {1..<unat (rm_next (r ! 0))}"
    and "\<And>j. j \<in> set ps \<Longrightarrow> rm_size (r ! j) \<noteq> 0"
    and "\<And>j. j \<in> set ps \<Longrightarrow> rm_used (r ! j) \<le> 1"
    and "\<And>j. 0 < j \<Longrightarrow> j < unat (rm_next (r ! 0)) \<Longrightarrow> j \<notin> set ps \<Longrightarrow> rm_size (r ! j) = 0"
  shows "rmap_core r ps"
  using assms by (auto simp: rmap_core_def)

lemma rmap_core_insert:
  assumes core: "rmap_core r (as @ c # bs)"
    and n: "0 < n" "n < unat (rm_next (r ! 0))" "n \<notin> set (as @ c # bs)"
    and len: "length r' = length r"
    and others: "\<And>j. j \<noteq> c \<Longrightarrow> j \<noteq> n \<Longrightarrow> r' ! j = r ! j"
    and rc: "rm_next (r' ! c) = of_nat n" "rm_size (r' ! c) \<noteq> 0" "rm_used (r' ! c) = rm_used (r ! c)"
    and rn: "rm_next (r' ! n) = rm_next (r ! c)" "rm_size (r' ! n) \<noteq> 0" "rm_used (r' ! n) = rm_used (r ! c)"
  shows "rmap_core r' (as @ c # n # bs)"
proof -
  note P = rmap_core_path [OF core] and S = rmap_core_size [OF core]
  have same: "r' ! j = r ! j" if "j \<in> set as \<union> set bs" for j
    using that P(3) n(3) by (intro others) auto
  have p1: "rm_path r' 1 as c" and p2: "rm_path r' (unat (rm_next (r ! c))) bs 0"
    using P(1,2) by (simp_all add: rm_path_cong [where r = r and r' = r'] same)
  have head: "rm_next (r' ! 0) = rm_next (r ! 0)" using P(5) n(1) others [of 0] by simp
  have n16: "unat (of_nat n :: u16) = n"
    using S n by (intro unat_of_nat_u16) simp
  show ?thesis
  proof (rule rmap_coreI)
    show "rm_path r' 1 (as @ c # n # bs) 0" using p1 p2 rc(1) rn(1) n16 by simp
    show "unat (rm_next (r' ! 0)) < length r'" using S by (simp add: len head)
    fix j assume j: "j \<in> set (as @ c # n # bs)"
    show "rm_size (r' ! j) \<noteq> 0"
      using j rc(2) rn(2) same rmap_core_entry(1) [OF core] by auto
    show "rm_used (r' ! j) \<le> 1"
      using j rc(3) rn(3) same rmap_core_entry(2) [OF core] by auto
  next
    fix j assume "0 < j" "j < unat (rm_next (r' ! 0))" "j \<notin> set (as @ c # n # bs)"
    then show "rm_size (r' ! j) = 0"
      using rmap_core_spare [OF core, of j] by (simp add: others head)
  qed (use P n head in auto)
qed

lemma rmap_core_remove:
  assumes core: "rmap_core r (as @ c # n # bs)"
    and len: "length r' = length r"
    and others: "\<And>j. j \<noteq> c \<Longrightarrow> j \<noteq> n \<Longrightarrow> r' ! j = r ! j"
    and rc: "rm_next (r' ! c) = rm_next (r ! n)" "rm_size (r' ! c) \<noteq> 0" "rm_used (r' ! c) = rm_used (r ! c)"
    and rn: "rm_size (r' ! n) = 0"
  shows "rmap_core r' (as @ c # bs)"
proof -
  note P = rmap_core_path [OF core] and S = rmap_core_size [OF core]
  have n: "n \<noteq> 0" "n \<noteq> c" "n \<notin> set as \<union> set bs" using P(3,8) by auto
  have head: "rm_next (r' ! 0) = rm_next (r ! 0)" using P(5) n(1) others [of 0] by simp
  have same: "r' ! j = r ! j" if "j \<in> set as \<union> set bs" for j
    using that P(3) by (intro others) auto
  have p1: "rm_path r' 1 as c" and p2: "rm_path r' (unat (rm_next (r ! n))) bs 0"
    using P(1,2) by (simp_all add: rm_path_cong [where r = r and r' = r'] same)
  show ?thesis
  proof (rule rmap_coreI)
    show "rm_path r' 1 (as @ c # bs) 0" using p1 p2 rc(1) by simp
    show "unat (rm_next (r' ! 0)) < length r'" using S by (simp add: len head)
    fix j assume j: "j \<in> set (as @ c # bs)"
    show "rm_size (r' ! j) \<noteq> 0"
      using j rc(2) same rmap_core_entry(1) [OF core] by auto
    show "rm_used (r' ! j) \<le> 1"
      using j rc(3) same rmap_core_entry(2) [OF core] by auto
  next
    fix j assume j: "0 < j" "j < unat (rm_next (r' ! 0))" "j \<notin> set (as @ c # bs)"
    show "rm_size (r' ! j) = 0"
    proof (cases "j = n")
      case False
      with j rmap_core_spare [OF core, of j] show ?thesis by (simp add: others head)
    qed (simp add: rn)
  qed (use P head in auto)
qed

lemma rmap_core_update:
  assumes core: "rmap_core r (as @ c # bs)"
    and len: "length r' = length r"
    and others: "\<And>j. j \<noteq> c \<Longrightarrow> r' ! j = r ! j"
    and rc: "rm_next (r' ! c) = rm_next (r ! c)" "rm_size (r' ! c) \<noteq> 0"
      "rm_used (r' ! c) \<le> 1"
  shows "rmap_core r' (as @ c # bs)"
proof -
  note P = rmap_core_path [OF core] and S = rmap_core_size [OF core]
  have same: "rm_next (r' ! j) = rm_next (r ! j)" for j
    using others rc(1) by (cases "j = c") auto
  then have head: "rm_next (r' ! 0) = rm_next (r ! 0)" .
  show ?thesis
  proof (rule rmap_coreI)
    show "rm_path r' 1 (as @ c # bs) 0"
      using P(1,2) by (simp add: rm_path_cong [where r = r and r' = r'] same)
    show "unat (rm_next (r' ! 0)) < length r'" using S by (simp add: len head)
    fix j assume j: "j \<in> set (as @ c # bs)"
    show "rm_size (r' ! j) \<noteq> 0"
      using j rc(2) others rmap_core_entry(1) [OF core j] by (cases "j = c") auto
    show "rm_used (r' ! j) \<le> 1"
      using j rc(3) others rmap_core_entry(2) [OF core j] by (cases "j = c") auto
  next
    fix j assume "0 < j" "j < unat (rm_next (r' ! 0))" "j \<notin> set (as @ c # bs)"
    then show "rm_size (r' ! j) = 0"
      using rmap_core_spare [OF core, of j] by (simp add: others head)
  qed (use P head in auto)
qed

lemma krmap_new_scan_bounds:
  "current \<le> limit \<Longrightarrow> current \<le> krmap_new_scan r current limit
     \<and> (krmap_new_scan r current limit < limit \<longrightarrow> rm_size (r ! krmap_new_scan r current limit) = 0)"
proof (induction r current limit rule: krmap_new_scan.induct)
  case (1 r current limit)
  then show ?case by (auto simp: krmap_new_scan.simps [of r current limit])
qed

lemma krmap_new_Some:
  assumes core: "rmap_core r ps" and new: "krmap_new r = Some n"
  shows "0 < n" "n < unat (rm_next (r ! 0))" "n \<notin> set ps" "n \<noteq> 0" "n < length r"
proof -
  let ?l = "unat (rm_next (r ! 0))"
  have n: "n = krmap_new_scan r 1 ?l" "n < ?l"
    using new by (auto simp: krmap_new_def Let_def split: if_splits)
  have "1 \<le> ?l"
  proof (rule ccontr)
    assume "\<not> 1 \<le> ?l"
    then have "?l = 0" by simp
    with n(2) show False by simp
  qed
  with krmap_new_scan_bounds [of 1 ?l r] n have b: "1 \<le> n" "rm_size (r ! n) = 0" by auto
  then show "0 < n" "n \<noteq> 0" by auto
  show "n < unat (rm_next (r ! 0))" by (rule n(2))
  then show "n < length r" using rmap_core_size(1) [OF core] by simp
  show "n \<notin> set ps" using core b by (auto simp: rmap_core_def)
qed

lemma krmap_split_before_zero: "krmap_split_before r c 0 = Some (None, c, r)"
  by (simp add: krmap_split_before_def)

lemma krmap_split_before_pos:
  assumes core: "rmap_core r (as @ c # bs)"
    and off: "0 < offset" "offset < rm_size (r ! c)"
    and res: "krmap_split_before r c offset = Some (pv, cur, r')"
  shows "pv = Some c" "rmap_core r' (as @ c # cur # bs)"
    "length r' = length r" "r' ! 0 = r ! 0"
    "rm_size (r' ! c) = offset" "rm_size (r' ! cur) = rm_size (r ! c) - offset"
    "rm_used (r' ! c) = rm_used (r ! c)" "rm_used (r' ! cur) = rm_used (r ! c)"
    "\<And>j. j \<in> set as \<union> set bs \<Longrightarrow> r' ! j = r ! j"
    "krmap_new r = Some cur" "\<And>j. j \<noteq> c \<Longrightarrow> j \<noteq> cur \<Longrightarrow> r' ! j = r ! j"
proof -
  note P = rmap_core_path [OF core]
  obtain n where new: "krmap_new r = Some n"
    using res off by (auto simp: krmap_split_before_def split: option.splits)
  note N = krmap_new_Some [OF core new]
  have nc: "n \<noteq> c" using N(3) by auto
  have eqs: "pv = Some c" "cur = n" "length r' = length r"
    "r' ! c = (r ! c)\<lparr>rm_next := of_nat n, rm_size := offset\<rparr>"
    "r' ! n = (r ! n)\<lparr>rm_next := rm_next (r ! c), rm_size := rm_size (r ! c) - offset,
                       rm_used := rm_used (r ! c)\<rparr>"
    using res off new nc P(6) N(5) by (auto simp: krmap_split_before_def Let_def)
  have others: "r' ! j = r ! j" if "j \<noteq> c" "j \<noteq> n" for j
    using res off new that by (auto simp: krmap_split_before_def Let_def)
  show "pv = Some c" "length r' = length r" "krmap_new r = Some cur" using eqs new by auto
  show "r' ! 0 = r ! 0" using others P(5) N(4) by auto
  show "rm_size (r' ! c) = offset" "rm_used (r' ! c) = rm_used (r ! c)" using eqs by auto
  show "rm_size (r' ! cur) = rm_size (r ! c) - offset" "rm_used (r' ! cur) = rm_used (r ! c)"
    using eqs by auto
  show "r' ! j = r ! j" if "j \<in> set as \<union> set bs" for j
    using that P(3) N(3) by (intro others) auto
  show "r' ! j = r ! j" if "j \<noteq> c" "j \<noteq> cur" for j
    using that eqs(2) by (intro others) auto
  show "rmap_core r' (as @ c # cur # bs)"
    unfolding eqs(2)
    by (rule rmap_core_insert [OF core N(1,2,3) eqs(3) others]) (use eqs off in auto)
qed

lemma krmap_split_after_zero: "krmap_split_after r c 0 = Some (None, r)"
  by (simp add: krmap_split_after_def)

lemma krmap_split_after_pos:
  assumes core: "rmap_core r (as @ c # bs)"
    and aft: "0 < after" "after < rm_size (r ! c)"
    and res: "krmap_split_after r c after = Some (nx, r')"
  shows "\<exists>n. nx = Some n \<and> rmap_core r' (as @ c # n # bs)
     \<and> length r' = length r \<and> r' ! 0 = r ! 0
     \<and> rm_size (r' ! c) = rm_size (r ! c) - after \<and> rm_size (r' ! n) = after
     \<and> rm_used (r' ! c) = rm_used (r ! c) \<and> rm_used (r' ! n) = rm_used (r ! c)
     \<and> (\<forall>j \<in> set as \<union> set bs. r' ! j = r ! j)"
proof -
  note P = rmap_core_path [OF core]
  obtain n where new: "krmap_new r = Some n"
    using res aft by (auto simp: krmap_split_after_def split: option.splits)
  note N = krmap_new_Some [OF core new]
  have nc: "n \<noteq> c" using N(3) by auto
  have eqs: "nx = Some n" "length r' = length r"
    "r' ! c = (r ! c)\<lparr>rm_next := of_nat n, rm_size := rm_size (r ! c) - after\<rparr>"
    "r' ! n = (r ! n)\<lparr>rm_next := rm_next (r ! c), rm_size := after, rm_used := rm_used (r ! c)\<rparr>"
    using res aft new nc P(6) N(5) by (auto simp: krmap_split_after_def Let_def)
  have others: "r' ! j = r ! j" if "j \<noteq> c" "j \<noteq> n" for j
    using res aft new that by (auto simp: krmap_split_after_def Let_def)
  have "rmap_core r' (as @ c # n # bs)"
    by (rule rmap_core_insert [OF core N(1,2,3) eqs(2) others]) (use eqs aft in auto)
  moreover have "r' ! j = r ! j" if "j \<in> set as \<union> set bs" for j
    using that P(3) N(3) by (intro others) auto
  ultimately show ?thesis using eqs others P(5) N(4) by auto
qed

text \<open>The stages of \<^const>\<open>krmap_split\<close>, each as a change of the path and of the pages.\<close>

lemma split_before_stage:
  assumes core: "rmap_core r (as @ c # bs)" and off: "offset < rm_size (r ! c)"
    and res: "krmap_split_before r c offset = Some (pv, cur, r')"
  obtains as' where "rmap_core r' (as' @ cur # bs)"
    "(if pv = None then prev_of as else pv) = prev_of as'"
    "page_list r' as' = page_list r as @ replicate (unat offset) (in_use r c)"
    "page_list r' bs = page_list r bs" "map (in_use r') bs = map (in_use r) bs"
    "map (in_use r') as' = map (in_use r) as @ (if offset = 0 then [] else [in_use r c])"
    "rm_size (r' ! cur) = rm_size (r ! c) - offset" "rm_used (r' ! cur) = rm_used (r ! c)"
    "length r' = length r" "r' ! 0 = r ! 0"
proof (cases "offset = 0")
  case True
  then show ?thesis using core res by (intro that [of as]) (auto simp: krmap_split_before_zero)
next
  case False
  then have pos: "0 < offset" by (simp add: word_neq_0_conv)
  note B = krmap_split_before_pos [OF core pos off res]
  have same: "page_list r' as = page_list r as" "page_list r' bs = page_list r bs"
    "map (in_use r') as = map (in_use r) as" "map (in_use r') bs = map (in_use r) bs"
    using B(9) by (auto intro!: pages_cong)
  show ?thesis using B False same by (intro that [of "as @ [c]"]) (auto simp: prev_of_def)
qed

lemma split_after_stage:
  assumes core: "rmap_core r (as @ c # bs)" and aft: "after < rm_size (r ! c)"
    and res: "krmap_split_after r c after = Some (nx, r')"
  obtains bs' where "rmap_core r' (as @ c # bs')"
    "(if nx = None then next_of bs else nx) = next_of bs'"
    "page_list r' bs' = replicate (unat after) (in_use r c) @ page_list r bs"
    "page_list r' as = page_list r as" "map (in_use r') as = map (in_use r) as"
    "map (in_use r') bs' = (if after = 0 then [] else [in_use r c]) @ map (in_use r) bs"
    "rm_size (r' ! c) = rm_size (r ! c) - after" "rm_used (r' ! c) = rm_used (r ! c)"
    "length r' = length r" "r' ! 0 = r ! 0"
proof (cases "after = 0")
  case True
  then show ?thesis using core res by (intro that [of bs]) (auto simp: krmap_split_after_zero)
next
  case False
  then have pos: "0 < after" by (simp add: word_neq_0_conv)
  obtain n where A: "nx = Some n" "rmap_core r' (as @ c # n # bs)" "length r' = length r" "r' ! 0 = r ! 0"
    "rm_size (r' ! c) = rm_size (r ! c) - after" "rm_size (r' ! n) = after"
    "rm_used (r' ! c) = rm_used (r ! c)" "rm_used (r' ! n) = rm_used (r ! c)"
    "\<forall>j \<in> set as \<union> set bs. r' ! j = r ! j"
    using krmap_split_after_pos [OF core pos aft res] by blast
  have same: "page_list r' as = page_list r as" "page_list r' bs = page_list r bs"
    "map (in_use r') as = map (in_use r) as" "map (in_use r') bs = map (in_use r) bs"
    using A(9) by (auto intro!: pages_cong)
  show ?thesis using A False same by (intro that [of "n # bs"]) (auto simp: next_of_def)
qed

lemma next_of_core:
  assumes core: "rmap_core r (as @ c # bs)"
  shows "next_of bs = (if rm_next (r ! c) \<noteq> 0 then Some (unat (rm_next (r ! c))) else None)"
proof (cases bs)
  case Nil
  then have "unat (rm_next (r ! c)) = 0" using rmap_core_path(2) [OF core] by simp
  then show ?thesis using Nil by (simp add: next_of_def unat_eq_zero)
next
  case (Cons b bs')
  then have "unat (rm_next (r ! c)) = b" "b \<noteq> 0"
    using rmap_core_path(2,8) [OF core] by auto
  then show ?thesis using Cons by (auto simp: next_of_def)
qed

lemma u32_sum_neq_0:
  fixes a b :: u32
  assumes "a \<noteq> 0" "unat a + unat b < 2 ^ 32"
  shows "a + b \<noteq> 0"
proof
  assume "a + b = 0"
  then have "unat a + unat b = 0" using unat_plus_bounded [OF assms(2)] by simp
  then show False using assms(1) by (simp add: unat_eq_zero)
qed

lemma join_prev_stage:
  assumes core: "rmap_core r (as @ c # bs)"
    and bound: "length (page_list r (as @ c # bs)) < 2 ^ 32"
    and res: "krmap_join_prev r (prev_of as) c = (cur, r')"
  obtains as' where "rmap_core r' (as' @ cur # bs)"
    "page_list r' (as' @ [cur]) = page_list r (as @ [c])"
    "page_list r' bs = page_list r bs" "map (in_use r') bs = map (in_use r) bs"
    "alternating r as \<longrightarrow> alternating r' (as' @ [cur])"
    "in_use r' cur = in_use r c"
    "length r' = length r" "r' ! 0 = r ! 0"
proof (cases "as \<noteq> [] \<and> rm_used (r ! last as) = rm_used (r ! c)")
  case False
  then have id: "cur = c" "r' = r" using res by (auto simp: krmap_join_prev_def prev_of_def split: if_splits)
  have le1: "rm_used (r ! c) \<le> 1" "as \<noteq> [] \<Longrightarrow> rm_used (r ! last as) \<le> 1"
    using rmap_core_entry(2) [OF core] by auto
  have "alternating r as \<Longrightarrow> alternating r (as @ [c])"
  proof -
    assume alt: "alternating r as"
    show ?thesis
    proof (cases "as = []")
      case True then show ?thesis by (simp add: alternating_def)
    next
      case ne: False
      with False have "rm_used (r ! last as) \<noteq> rm_used (r ! c)" by simp
      then have "in_use r (last as) \<noteq> in_use r c"
        using le1(1) le1(2) [OF ne] by (metis linorder_not_less order_le_less word_less_1)
      then show ?thesis
        using alt ne by (simp add: alternating_def distinct_adj_append_iff last_map)
    qed
  qed
  then show ?thesis using core id by (intro that [of as]) auto
next
  case True
  then obtain as0 pv where as: "as = as0 @ [pv]" by (metis rev_exhaust)
  have used: "rm_used (r ! pv) = rm_used (r ! c)" using True as by simp
  have core': "rmap_core r (as0 @ pv # c # bs)" using core as by simp
  note P = rmap_core_path [OF core']
  have neq: "pv \<noteq> c" "c < length r" "c \<noteq> 0"
    using P(3,4) rmap_core_size(1) [OF core'] by auto
  have eqs: "cur = pv" "length r' = length r"
    "r' ! pv = (r ! pv)\<lparr>rm_size := rm_size (r ! pv) + rm_size (r ! c), rm_next := rm_next (r ! c)\<rparr>"
    "r' ! c = (r ! c)\<lparr>rm_size := 0\<rparr>"
    using res used as neq P(6) by (auto simp: krmap_join_prev_def prev_of_def Let_def)
  have others: "r' ! j = r ! j" if "j \<noteq> pv" "j \<noteq> c" for j
    using res used as that by (auto simp: krmap_join_prev_def prev_of_def Let_def)
  have sum: "unat (rm_size (r ! pv)) + unat (rm_size (r ! c)) < 2 ^ 32"
    using bound as by simp
  have size: "unat (rm_size (r' ! pv)) = unat (rm_size (r ! pv)) + unat (rm_size (r ! c))"
    using sum by (simp add: eqs(3) unat_plus_bounded)
  have nz: "rm_size (r' ! pv) \<noteq> 0"
    using sum rmap_core_entry(1) [OF core', of pv] by (simp add: eqs(3) u32_sum_neq_0)
  have core2: "rmap_core r' (as0 @ pv # bs)"
    by (rule rmap_core_remove [OF core' eqs(2) others]) (use eqs nz in auto)
  have same: "r' ! j = r ! j" if "j \<in> set as0 \<union> set bs" for j
    using that P(3) by (intro others) auto
  have pg: "page_list r' as0 = page_list r as0" "page_list r' bs = page_list r bs"
    "map (in_use r') as0 = map (in_use r) as0" "map (in_use r') bs = map (in_use r) bs"
    using same by (auto intro!: pages_cong)
  have "map (in_use r') (as0 @ [pv]) = map (in_use r) as"
    using pg(3) eqs(3) as by simp
  then have alt: "alternating r as \<Longrightarrow> alternating r' (as0 @ [pv])"
    by (simp only: alternating_def)
  show ?thesis
    using core2 eqs pg size used as others P(5) neq alt
    by (intro that [of as0]) (auto simp: replicate_add)
qed

lemma join_next_stage:
  assumes core: "rmap_core r (as @ c # bs)"
    and bound: "length (page_list r (as @ c # bs)) < 2 ^ 32"
    and res: "r' = krmap_join_next r (next_of bs) c"
  obtains bs' where "rmap_core r' (as @ c # bs')"
    "page_list r' (as @ c # bs') = page_list r (as @ c # bs)"
    "alternating r (as @ [c]) \<and> alternating r bs \<longrightarrow> alternating r' (as @ c # bs')"
    "length r' = length r" "r' ! 0 = r ! 0"
proof (cases "bs \<noteq> [] \<and> rm_used (r ! hd bs) = rm_used (r ! c)")
  case False
  then have id: "r' = r" using res by (auto simp: krmap_join_next_def next_of_def split: if_splits)
  have le1: "rm_used (r ! c) \<le> 1" "bs \<noteq> [] \<Longrightarrow> rm_used (r ! hd bs) \<le> 1"
    using rmap_core_entry(2) [OF core] by auto
  have "alternating r (as @ c # bs)" if alt: "alternating r (as @ [c])" "alternating r bs"
  proof (cases bs)
    case Nil then show ?thesis using alt by simp
  next
    case (Cons b bs0)
    with False have "rm_used (r ! b) \<noteq> rm_used (r ! c)" by simp
    then have "in_use r c \<noteq> in_use r b"
      using le1 Cons by (metis linorder_not_less order_le_less word_less_1 list.sel(1) list.distinct(1))
    then show ?thesis
      using alt Cons by (simp add: alternating_def distinct_adj_append_iff)
  qed
  then show ?thesis using core id by (intro that [of bs]) auto
next
  case True
  then obtain nx bs0 where bs: "bs = nx # bs0" by (metis list.exhaust)
  have used: "rm_used (r ! nx) = rm_used (r ! c)" using True bs by simp
  have core': "rmap_core r (as @ c # nx # bs0)" using core bs by simp
  note P = rmap_core_path [OF core']
  have neq: "nx \<noteq> c" "nx < length r" "nx \<noteq> 0"
    using P(3,4,8) rmap_core_size(1) [OF core'] by auto
  have eqs: "length r' = length r"
    "r' ! c = (r ! c)\<lparr>rm_size := rm_size (r ! c) + rm_size (r ! nx), rm_next := rm_next (r ! nx)\<rparr>"
    "r' ! nx = (r ! nx)\<lparr>rm_size := 0\<rparr>"
    using res used bs neq P(6) by (auto simp: krmap_join_next_def next_of_def Let_def)
  have others: "r' ! j = r ! j" if "j \<noteq> c" "j \<noteq> nx" for j
    using res used bs that by (auto simp: krmap_join_next_def next_of_def Let_def)
  have sum: "unat (rm_size (r ! c)) + unat (rm_size (r ! nx)) < 2 ^ 32"
    using bound bs by simp
  have size: "unat (rm_size (r' ! c)) = unat (rm_size (r ! c)) + unat (rm_size (r ! nx))"
    using sum by (simp add: eqs(2) unat_plus_bounded)
  have nz: "rm_size (r' ! c) \<noteq> 0"
    using sum rmap_core_entry(1) [OF core', of c] by (simp add: eqs(2) u32_sum_neq_0)
  have core2: "rmap_core r' (as @ c # bs0)"
    by (rule rmap_core_remove [OF core' eqs(1) others]) (use eqs nz in auto)
  have same: "r' ! j = r ! j" if "j \<in> set as \<union> set bs0" for j
    using that P(3) by (intro others) auto
  have pg: "page_list r' as = page_list r as" "page_list r' bs0 = page_list r bs0"
    "map (in_use r') as = map (in_use r) as" "map (in_use r') bs0 = map (in_use r) bs0"
    using same by (auto intro!: pages_cong)
  have fl: "map (in_use r') (as @ c # bs0) = map (in_use r) as @ in_use r nx # map (in_use r) bs0"
    using pg(3,4) eqs(2) used by simp
  have alt: "alternating r' (as @ c # bs0)" if "alternating r (as @ [c])" "alternating r bs"
    using that unfolding alternating_def fl
    by (simp add: bs used distinct_adj_append_iff)
  show ?thesis
    using core2 eqs pg size used bs others P(5) neq alt
    by (intro that [of bs0]) (auto simp: replicate_add)
qed

lemma flip_join_stage:
  assumes core: "rmap_core r (as @ c # bs)"
    and bound: "length (page_list r (as @ c # bs)) < 2 ^ 32"
    and pv: "(if pv = None then p else pv) = prev_of as"
    and nx: "nx = None \<or> nx = next_of bs"
    and res: "krmap_flip_join r p pv c nx = (cur, r')"
  obtains ps' where "rmap_core r' ps'"
    "page_list r' ps' = page_list r as @ replicate (unat (rm_size (r ! c))) (\<not> in_use r c) @ page_list r bs"
    "alternating r as \<and> alternating r bs \<longrightarrow> alternating r' ps'"
    "length r' = length r" "r' ! 0 = r ! 0"
proof -
  note P = rmap_core_path [OF core]
  define r1 where "r1 = upd_at c (\<lambda>e. e\<lparr>rm_used := (if rm_used e = 0 then 1 else 0)\<rparr>) r"
  have r1c: "r1 ! c = (r ! c)\<lparr>rm_used := (if rm_used (r ! c) = 0 then 1 else 0)\<rparr>"
    using P(6) by (simp add: r1_def)
  have r1j: "r1 ! j = r ! j" if "j \<noteq> c" for j using that by (simp add: r1_def)
  have core1: "rmap_core r1 (as @ c # bs)"
    by (rule rmap_core_update [OF core _ r1j])
       (use r1c rmap_core_entry [OF core, of c] in \<open>auto simp: r1_def\<close>)
  have "c \<notin> set as \<union> set bs" using P(3) by auto
  then have same: "r1 ! j = r ! j" if "j \<in> set as \<union> set bs" for j
    using that by (intro r1j) auto
  have pg: "page_list r1 as = page_list r as" "page_list r1 bs = page_list r bs"
    "alternating r1 as = alternating r as" "alternating r1 bs = alternating r bs"
    using same by (auto intro!: pages_cong simp: alternating_def cong: map_cong)
  have pg1: "page_list r1 (as @ c # bs)
      = page_list r as @ replicate (unat (rm_size (r ! c))) (\<not> in_use r c) @ page_list r bs"
    using pg r1c by simp
  then have bound1: "length (page_list r1 (as @ c # bs)) < 2 ^ 32" using bound by simp
  have nxt: "(if nx = None \<and> rm_next (r1 ! c) \<noteq> 0 then Some (unat (rm_next (r1 ! c))) else nx) = next_of bs"
    using nx next_of_core [OF core1] by auto
  obtain cur2 r2 where J: "krmap_join_prev r1 (prev_of as) c = (cur2, r2)" by fastforce
  have r': "r' = krmap_join_next r2 (next_of bs) cur2"
    using res J pv nxt by (auto simp: krmap_flip_join_def Let_def r1_def [symmetric])
  obtain as2 where S2: "rmap_core r2 (as2 @ cur2 # bs)" "page_list r2 (as2 @ [cur2]) = page_list r1 (as @ [c])"
    "page_list r2 bs = page_list r1 bs" "map (in_use r2) bs = map (in_use r1) bs"
    "alternating r1 as \<longrightarrow> alternating r2 (as2 @ [cur2])" "in_use r2 cur2 = in_use r1 c"
    "length r2 = length r1" "r2 ! 0 = r1 ! 0"
    by (rule join_prev_stage [OF core1 bound1 J])
  have pg2: "page_list r2 (as2 @ cur2 # bs) = page_list r1 (as @ c # bs)"
    using S2(2,3) by simp
  then have bound2: "length (page_list r2 (as2 @ cur2 # bs)) < 2 ^ 32" using bound1 by simp
  obtain bs3 where S3: "rmap_core r' (as2 @ cur2 # bs3)"
    "page_list r' (as2 @ cur2 # bs3) = page_list r2 (as2 @ cur2 # bs)"
    "alternating r2 (as2 @ [cur2]) \<and> alternating r2 bs \<longrightarrow> alternating r' (as2 @ cur2 # bs3)"
    "length r' = length r2" "r' ! 0 = r2 ! 0"
    by (rule join_next_stage [OF S2(1) bound2 r'])
  show ?thesis
  proof (rule that [OF S3(1)])
    show "page_list r' (as2 @ cur2 # bs3)
       = page_list r as @ replicate (unat (rm_size (r ! c))) (\<not> in_use r c) @ page_list r bs"
      using S3(2) pg2 pg1 by simp
    show "alternating r as \<and> alternating r bs \<longrightarrow> alternating r' (as2 @ cur2 # bs3)"
      using S3(3) S2(4,5) pg(3,4) by (simp add: alternating_def)
    show "length r' = length r" using S3(4) S2(7) by (simp add: r1_def)
    show "r' ! 0 = r ! 0" using S3(5) S2(8) r1j P(5) by simp
  qed
qed

text \<open>
  The whole split: a successful call changes the status of the range and of no other page;
  a failing call changes no page.
\<close>

lemma krmap_split_correct:
  assumes core: "rmap_core r (as @ c # bs)"
    and bound: "length (page_list r (as @ c # bs)) < 2 ^ 32"
    and fits: "unat offset + unat sz \<le> unat (rm_size (r ! c))" and sz: "sz \<noteq> 0"
    and res: "krmap_split r (prev_of as) c offset sz = (result, r')"
  obtains ps' where "rmap_core r' ps'" "length r' = length r" "r' ! 0 = r ! 0"
    "result = None \<longrightarrow> page_list r' ps' = page_list r (as @ c # bs)"
    "result \<noteq> None \<longrightarrow> page_list r' ps' = page_list r as @ replicate (unat offset) (in_use r c)
        @ replicate (unat sz) (\<not> in_use r c)
        @ replicate (unat (rm_size (r ! c)) - unat offset - unat sz) (in_use r c) @ page_list r bs"
    "result \<noteq> None \<and> alternating r (as @ c # bs) \<longrightarrow> alternating r' ps'"
proof -
  have sum: "unat (offset + sz) = unat offset + unat sz"
    using fits unat_u32_bound [of "rm_size (r ! c)"] by (intro unat_plus_bounded) simp
  have nofail: "\<not> rm_size (r ! c) < offset + sz"
    using fits sum by (simp add: word_less_nat_alt)
  have szpos: "0 < unat sz" using sz by (simp add: unat_gt_0)
  have offlt: "offset < rm_size (r ! c)"
    using fits szpos by (simp add: word_less_nat_alt)
  define after where "after = rm_size (r ! c) - offset - sz"
  have after: "unat after = unat (rm_size (r ! c)) - unat offset - unat sz"
    using fits by (simp add: after_def unat_minus_le)
  show ?thesis
  proof (cases "krmap_split_before r c offset")
    case None
    then have "result = None" "r' = r" using res nofail by (auto simp: krmap_split_def Let_def)
    then show ?thesis using core by (intro that) auto
  next
    case (Some x)
    then obtain pv cur r1 where B: "krmap_split_before r c offset = Some (pv, cur, r1)"
      by (cases x) auto
    obtain as1 where S1: "rmap_core r1 (as1 @ cur # bs)"
      "(if pv = None then prev_of as else pv) = prev_of as1"
      "page_list r1 as1 = page_list r as @ replicate (unat offset) (in_use r c)"
      "page_list r1 bs = page_list r bs" "map (in_use r1) bs = map (in_use r) bs"
      "map (in_use r1) as1 = map (in_use r) as @ (if offset = 0 then [] else [in_use r c])"
      "rm_size (r1 ! cur) = rm_size (r ! c) - offset" "rm_used (r1 ! cur) = rm_used (r ! c)"
      "length r1 = length r" "r1 ! 0 = r ! 0"
      by (rule split_before_stage [OF core offlt B])
    have sz1: "unat (rm_size (r1 ! cur)) = unat (rm_size (r ! c)) - unat offset"
      using fits S1(7) by (simp add: unat_minus_le)
    have aftlt: "after < rm_size (r1 ! cur)"
      using fits szpos sz1 after by (simp add: word_less_nat_alt)
    have pg1: "page_list r1 (as1 @ cur # bs) = page_list r (as @ c # bs)"
      using S1 sz1 fits by (simp add: replicate_add [symmetric])
    show ?thesis
    proof (cases "krmap_split_after r1 cur after")
      case None
      then have "result = None" "r' = r1"
        using res nofail B by (auto simp: krmap_split_def Let_def after_def)
      then show ?thesis using S1 pg1 by (intro that [of "as1 @ cur # bs"]) auto
    next
      case (Some y)
      then obtain nx r2 where A: "krmap_split_after r1 cur after = Some (nx, r2)"
        by (cases y) auto
      obtain bs2 where S2: "rmap_core r2 (as1 @ cur # bs2)"
        "(if nx = None then next_of bs else nx) = next_of bs2"
        "page_list r2 bs2 = replicate (unat after) (in_use r1 cur) @ page_list r1 bs"
        "page_list r2 as1 = page_list r1 as1" "map (in_use r2) as1 = map (in_use r1) as1"
        "map (in_use r2) bs2 = (if after = 0 then [] else [in_use r1 cur]) @ map (in_use r1) bs"
        "rm_size (r2 ! cur) = rm_size (r1 ! cur) - after" "rm_used (r2 ! cur) = rm_used (r1 ! cur)"
        "length r2 = length r1" "r2 ! 0 = r1 ! 0"
        by (rule split_after_stage [OF S1(1) aftlt A])
      have sz2: "unat (rm_size (r2 ! cur)) = unat sz"
        using fits S2(7) sz1 after by (simp add: unat_minus_le)
      have bound2: "length (page_list r2 (as1 @ cur # bs2)) < 2 ^ 32"
        using bound S2 S1 sz2 after fits by simp
      obtain cur3 where F: "krmap_flip_join r2 (prev_of as) pv cur nx = (cur3, r')" and
        some: "result = Some cur3"
        using res nofail B A by (auto simp: krmap_split_def Let_def after_def split: prod.splits)
      obtain ps3 where S3: "rmap_core r' ps3"
        "page_list r' ps3 = page_list r2 as1 @ replicate (unat (rm_size (r2 ! cur))) (\<not> in_use r2 cur) @ page_list r2 bs2"
        "alternating r2 as1 \<and> alternating r2 bs2 \<longrightarrow> alternating r' ps3"
        "length r' = length r2" "r' ! 0 = r2 ! 0"
        by (rule flip_join_stage [OF S2(1) bound2 _ _ F]) (use S1(2) S2(2) in \<open>auto split: if_splits\<close>)
      have alt: "alternating r2 as1 \<and> alternating r2 bs2" if "alternating r (as @ c # bs)"
        using that S2(5,6) S1(5,6,8) unfolding alternating_def
        by (auto simp: distinct_adj_append_iff distinct_adj_Cons)
      show ?thesis
        using S3 S2 S1 sz2 after some alt by (intro that [of ps3]) auto
    qed
  qed
qed

end
