(* ===== verification/Rmap_Correct.thy ===== *)
theory Rmap_Correct
  imports Rmap
begin

text \<open>
  The operations of \<^verbatim>\<open>rmap.c\<close> keep the invariant and change exactly the pages they are asked
  to: the resource map is a page range allocator in the sense of \<^verbatim>\<open>Page_Ranges\<close>.
\<close>

section \<open>Searching the list\<close>

lemma walk_search:
  fixes f :: "nat \<Rightarrow> u32 \<Rightarrow> nat option \<Rightarrow> (nat \<times> u32 \<times> nat option) option option"
  assumes f: "\<And>cur pos prev. f cur pos prev =
      (if cur = 0 then Some None
       else if hit cur pos then Some (Some (cur, pos, prev))
       else f (unat (rm_next (r ! cur))) (pos + rm_size (r ! cur)) (Some cur))"
    and path: "rm_path r cur bs 0" "0 \<notin> set bs"
    and pos: "pos = of_nat (length (page_list r as))" and prev: "prev = prev_of as"
  shows "(f cur pos prev = Some None
            \<and> (\<forall>xs c ys. bs = xs @ c # ys \<longrightarrow> \<not> hit c (of_nat (length (page_list r (as @ xs))))))
       \<or> (\<exists>xs c ys. bs = xs @ c # ys \<and> hit c (of_nat (length (page_list r (as @ xs))))
            \<and> f cur pos prev = Some (Some (c, of_nat (length (page_list r (as @ xs))), prev_of (as @ xs))))"
  using path pos prev
proof (induction bs arbitrary: cur pos prev as)
  case Nil
  then show ?case by (simp add: f [of 0])
next
  case (Cons b bs)
  then have cur: "cur = b" "b \<noteq> 0" by auto
  show ?case
  proof (cases "hit b pos")
    case True
    then have "f cur pos prev = Some (Some (b, pos, prev))" using cur by (simp add: f [of b])
    with True Cons.prems show ?thesis
      by (intro disjI2 exI [of _ "[]"] exI [of _ b] exI [of _ bs]) simp
  next
    case False
    then have step: "f cur pos prev = f (unat (rm_next (r ! b))) (pos + rm_size (r ! b)) (Some b)"
      using cur by (simp add: f [of b])
    have pos': "pos + rm_size (r ! b) = of_nat (length (page_list r (as @ [b])))"
      using Cons.prems by simp
    have IH: "(f cur pos prev = Some None
            \<and> (\<forall>xs c ys. bs = xs @ c # ys \<longrightarrow> \<not> hit c (of_nat (length (page_list r ((as @ [b]) @ xs))))))
       \<or> (\<exists>xs c ys. bs = xs @ c # ys \<and> hit c (of_nat (length (page_list r ((as @ [b]) @ xs))))
            \<and> f cur pos prev = Some (Some (c, of_nat (length (page_list r ((as @ [b]) @ xs))),
                 prev_of ((as @ [b]) @ xs))))"
      unfolding step
      by (rule Cons.IH) (use Cons.prems pos' in \<open>auto simp: prev_of_def\<close>)
    from IH show ?thesis
    proof (elim disjE conjE exE)
      assume none: "f cur pos prev = Some None"
        "\<forall>xs c ys. bs = xs @ c # ys \<longrightarrow> \<not> hit c (of_nat (length (page_list r ((as @ [b]) @ xs))))"
      have "\<not> hit c (of_nat (length (page_list r (as @ xs))))" if "b # bs = xs @ c # ys" for xs c ys
        using that False Cons.prems(3) none(2) by (cases xs) auto
      with none(1) show ?thesis by blast
    next
      fix xs c ys
      assume "bs = xs @ c # ys" "hit c (of_nat (length (page_list r ((as @ [b]) @ xs))))"
        "f cur pos prev = Some (Some (c, of_nat (length (page_list r ((as @ [b]) @ xs))), prev_of ((as @ [b]) @ xs)))"
      then show ?thesis
        by (intro disjI2 exI [of _ "b # xs"] exI [of _ c] exI [of _ ys]) simp
    qed
  qed
qed

lemma page_walk_path:
  "rm_path r cur ps 0 \<Longrightarrow> 0 \<notin> set ps \<Longrightarrow> length ps < k \<Longrightarrow>
   page_walk k r cur p = (if p < length (page_list r ps) then Some (page_list r ps ! p) else None)"
proof (induction ps arbitrary: k cur p)
  case Nil
  then show ?case by (cases k) auto
next
  case (Cons j ps)
  then obtain k' where "k = Suc k'" by (cases k) auto
  with Cons show ?case by (auto simp: nth_append)
qed

lemma rmap_page_eq:
  assumes "rmap_core r ps"
  shows "rmap_page r p = (if p < length (page_list r ps) then Some (page_list r ps ! p) else None)"
  unfolding rmap_page_def
proof (rule page_walk_path)
  show "rm_path r 1 ps 0" "0 \<notin> set ps" using assms by (auto simp: rmap_core_def)
  have "card (set ps) \<le> card {1..<unat (rm_next (r ! 0))}"
    using assms by (intro card_mono) (auto simp: rmap_core_def)
  moreover have "distinct ps" using assms by (simp add: rmap_core_def)
  ultimately show "length ps < length r"
    using rmap_core_size(1) [OF assms] by (simp add: distinct_card)
qed

lemma krmap_new_None_iff: "krmap_new r = None \<longleftrightarrow> rmap_spare r = 0"
proof -
  have "current \<le> limit \<Longrightarrow> krmap_new_scan r current limit \<ge> limit \<longleftrightarrow>
      (\<forall>j. current \<le> j \<and> j < limit \<longrightarrow> rm_size (r ! j) \<noteq> 0)" for current limit
  proof (induction r current limit rule: krmap_new_scan.induct)
    case (1 r current limit)
    then show ?case
      apply (auto simp: krmap_new_scan.simps [of r current limit])
      by (metis Suc_leI le_neq_implies_less)
  qed
  from this [of 1 "unat (rm_next (r ! 0))"] show ?thesis
    apply (cases "unat (rm_next (r ! 0)) = 0")
    by (auto simp: krmap_new_def rmap_spare_def Let_def filter_empty_conv)
qed

lemma rmap_spare_card:
  "rmap_spare r = card {j. 1 \<le> j \<and> j < unat (rm_next (r ! 0)) \<and> rm_size (r ! j) = 0}"
proof -
  have "rmap_spare r = card (set (filter (\<lambda>j. rm_size (r ! j) = 0) [1..<unat (rm_next (r ! 0))]))"
    unfolding rmap_spare_def by (rule distinct_card [symmetric]) simp
  also have "set (filter (\<lambda>j. rm_size (r ! j) = 0) [1..<unat (rm_next (r ! 0))])
      = {j. 1 \<le> j \<and> j < unat (rm_next (r ! 0)) \<and> rm_size (r ! j) = 0}" by auto
  finally show ?thesis .
qed

lemma spare_after_split_before:
  assumes core: "rmap_core r (as @ c # bs)"
    and off: "0 < offset" "offset < rm_size (r ! c)"
    and res: "krmap_split_before r c offset = Some (pv, cur, r')"
  shows "rmap_spare r \<le> Suc (rmap_spare r')"
proof -
  note B = krmap_split_before_pos [OF core off res]
  let ?S = "\<lambda>r. {j. 1 \<le> j \<and> j < unat (rm_next (r ! 0)) \<and> rm_size (r ! j) = 0}"
  have "?S r \<subseteq> insert cur (?S r')"
  proof
    fix j assume j: "j \<in> ?S r"
    then have "j \<noteq> c" using rmap_core_entry(1) [OF core, of c] by auto
    then show "j \<in> insert cur (?S r')" using j B(4) B(11) [of j] by (cases "j = cur") auto
  qed
  then have "card (?S r) \<le> card (insert cur (?S r'))" by (intro card_mono) auto
  also have "\<dots> \<le> Suc (card (?S r'))" by (rule card_insert_le_m1) auto
  finally show ?thesis by (simp only: rmap_spare_card)
qed

lemma krmap_split_succeeds:
  assumes core: "rmap_core r (as @ c # bs)"
    and fits: "unat offset + unat sz \<le> unat (rm_size (r ! c))" and sz: "sz \<noteq> 0"
    and spare: "(if offset = 0 then 1 else 2) \<le> rmap_spare r"
  shows "fst (krmap_split r p c offset sz) \<noteq> None"
proof -
  have sum: "unat (offset + sz) = unat offset + unat sz"
    using fits unat_u32_bound [of "rm_size (r ! c)"] by (intro unat_plus_bounded) simp
  have nofail: "\<not> rm_size (r ! c) < offset + sz"
    using fits sum by (simp add: word_less_nat_alt)
  have szpos: "0 < unat sz" using sz by (simp add: unat_gt_0)
  have offlt: "offset < rm_size (r ! c)"
    using fits szpos by (simp add: word_less_nat_alt)
  have new: "krmap_new r \<noteq> None" using spare by (auto simp: krmap_new_None_iff split: if_splits)
  then have "krmap_split_before r c offset \<noteq> None"
    by (auto simp: krmap_split_before_def Let_def)
  then obtain pv cur r1 where B: "krmap_split_before r c offset = Some (pv, cur, r1)"
    by (metis option.exhaust prod_cases3)
  have "krmap_new r1 \<noteq> None"
  proof (cases "offset = 0")
    case True
    with B new show ?thesis by (simp add: krmap_split_before_zero)
  next
    case False
    then have "0 < offset" by (simp add: word_neq_0_conv)
    from spare_after_split_before [OF core this offlt B] spare False
    show ?thesis by (simp add: krmap_new_None_iff)
  qed
  then have "krmap_split_after r1 cur (rm_size (r ! c) - offset - sz) \<noteq> None"
    by (auto simp: krmap_split_after_def Let_def)
  then obtain nx r2 where "krmap_split_after r1 cur (rm_size (r ! c) - offset - sz) = Some (nx, r2)"
    by (metis option.exhaust surj_pair)
  then show ?thesis
    using nofail B by (simp add: krmap_split_def Let_def split_def)
qed

lemma rmap_pages_unique:
  assumes "rmap_core r ps" "rmap_core r qs"
  shows "ps = qs"
proof -
  have "rm_path r i xs 0 \<Longrightarrow> rm_path r i ys 0 \<Longrightarrow> 0 \<notin> set xs \<Longrightarrow> 0 \<notin> set ys \<Longrightarrow> xs = ys" for i xs ys
    by (induction xs arbitrary: i ys) (case_tac ys; auto)+
  then show ?thesis using assms by (metis (no_types, lifting) rmap_core_def atLeastLessThan_iff in_mono not_one_le_zero)
qed

lemma count_list_replicate [simp]: "count_list (replicate n x) y = (if x = y then n else 0)"
  by (induction n) auto

lemma count_list_le_length: "count_list xs x \<le> length xs"
  by (induction xs) auto

lemma rmap_core_header:
  assumes "rmap_core r ps" "rm_next e = rm_next (r ! 0)"
  shows "rmap_core (r[0 := e]) ps" "page_list (r[0 := e]) ps = page_list r ps"
    "alternating (r[0 := e]) ps = alternating r ps" "RMAP_TOTAL (r[0 := e]) = rm_size e"
proof -
  have ps: "0 \<notin> set ps" "0 < length r" using assms by (auto simp: rmap_core_def)
  then have same: "r[0 := e] ! j = r ! j" if "j \<in> set ps" for j using that by (cases j) auto
  show "page_list (r[0 := e]) ps = page_list r ps" using same by (intro pages_cong) auto
  show "alternating (r[0 := e]) ps = alternating r ps"
    using same by (simp add: alternating_def cong: map_cong)
  show "RMAP_TOTAL (r[0 := e]) = rm_size e" using ps by (simp add: RMAP_TOTAL_def)
  have "rm_path (r[0 := e]) 1 ps 0 = rm_path r 1 ps 0"
    using same by (intro rm_path_cong) auto
  then show "rmap_core (r[0 := e]) ps"
    using assms ps same by (auto simp: rmap_core_def nth_list_update)
qed

lemma length_set_range [simp]: "off + n \<le> length xs \<Longrightarrow> length (set_range xs off n b) = length xs"
  by (simp add: set_range_def)

lemma nth_set_range:
  "off + n \<le> length xs \<Longrightarrow> p < length xs \<Longrightarrow>
   set_range xs off n b ! p = (if off \<le> p \<and> p < off + n then b else xs ! p)"
  by (auto simp: set_range_def nth_append)

lemma set_range_middle:
  "set_range (A @ replicate a u @ replicate n u @ B) (length A + a) n b = A @ replicate a u @ replicate n b @ B"
  by (simp add: set_range_def)

text \<open>A run of pages of equal status lies inside one chunk.\<close>

lemma run_in_chunk:
  assumes "alternating r ps" "\<forall>j\<in>set ps. 0 < unat (rm_size (r ! j))"
    and "0 < n" "q + n \<le> length (page_list r ps)"
    and "\<And>p. q \<le> p \<Longrightarrow> p < q + n \<Longrightarrow> page_list r ps ! p = u"
  shows "\<exists>as c bs. ps = as @ c # bs \<and> in_use r c = u \<and> length (page_list r as) \<le> q
           \<and> q + n \<le> length (page_list r as) + unat (rm_size (r ! c))"
  using assms
proof (induction ps arbitrary: q)
  case Nil
  then show ?case by simp
next
  case (Cons j js)
  let ?s = "unat (rm_size (r ! j))"
  show ?case
  proof (cases "?s \<le> q")
    case True
    have "\<exists>as c bs. js = as @ c # bs \<and> in_use r c = u \<and> length (page_list r as) \<le> q - ?s
           \<and> (q - ?s) + n \<le> length (page_list r as) + unat (rm_size (r ! c))"
    proof (rule Cons.IH)
      show "alternating r js"
        using Cons.prems(1) by (auto simp: alternating_def dest: distinct_adj_ConsD)
      show "page_list r js ! p = u" if "q - ?s \<le> p" "p < q - ?s + n" for p
        using Cons.prems(5) [of "p + ?s"] that True by (simp add: nth_append)
    qed (use Cons.prems True in auto)
    then obtain as c bs where "js = as @ c # bs" "in_use r c = u" "length (page_list r as) \<le> q - ?s"
      "(q - ?s) + n \<le> length (page_list r as) + unat (rm_size (r ! c))" by blast
    then have "j # js = (j # as) @ c # bs \<and> in_use r c = u \<and> length (page_list r (j # as)) \<le> q
        \<and> q + n \<le> length (page_list r (j # as)) + unat (rm_size (r ! c))"
      using True by auto
    then show ?thesis by blast
  next
    case False
    then have u: "in_use r j = u" using Cons.prems(5) [of q] Cons.prems(3) by (simp add: nth_append)
    have "q + n \<le> ?s"
    proof (rule ccontr)
      assume over: "\<not> q + n \<le> ?s"
      then have "js \<noteq> []" using Cons.prems(4) by auto
      then obtain k ks where js: "js = k # ks" by (cases js) auto
      have "page_list r (j # js) ! ?s = in_use r k"
        using js Cons.prems(2) by (simp add: nth_append)
      moreover have "page_list r (j # js) ! ?s = u"
        using Cons.prems(5) [of ?s] False over by simp
      moreover have "in_use r j \<noteq> in_use r k"
        using Cons.prems(1) js by (simp add: alternating_def)
      ultimately show False using u by simp
    qed
    then have "j # js = [] @ j # js \<and> in_use r j = u \<and> length (page_list r []) \<le> q
        \<and> q + n \<le> length (page_list r []) + unat (rm_size (r ! j))"
      using u by simp
    then show ?thesis by blast
  qed
qed

text \<open>One page operation: split a chunk, then add to or subtract from the number of used pages.\<close>

lemma split_range_correct:
  assumes ok: "rmap_ok r (as @ c # bs)"
    and fits: "unat offset + unat sz \<le> unat (rm_size (r ! c))" and sz: "sz \<noteq> 0"
    and res: "krmap_split r (prev_of as) c offset sz = (Some k, r')"
    and tot: "unat (rm_size e) = count_list (set_range (page_list r (as @ c # bs))
                (length (page_list r as) + unat offset) (unat sz) (\<not> in_use r c)) True"
    and e: "rm_next e = rm_next (r' ! 0)"
  shows "\<exists>ps'. rmap_ok (r'[0 := e]) ps'
     \<and> page_list (r'[0 := e]) ps' = set_range (page_list r (as @ c # bs))
          (length (page_list r as) + unat offset) (unat sz) (\<not> in_use r c)
     \<and> (alternating r (as @ c # bs) \<longrightarrow> alternating (r'[0 := e]) ps')"
proof -
  let ?u = "in_use r c" and ?rest = "unat (rm_size (r ! c)) - unat offset - unat sz"
  have core: "rmap_core r (as @ c # bs)" and len: "length (page_list r (as @ c # bs)) = 1048576"
    using ok by (auto simp: rmap_ok_def)
  have "replicate (unat (rm_size (r ! c))) ?u
      = replicate (unat offset) ?u @ replicate (unat sz) ?u @ replicate ?rest ?u"
    using fits by (simp add: replicate_add [symmetric])
  then have split: "page_list r (as @ c # bs) = page_list r as @ replicate (unat offset) ?u
      @ replicate (unat sz) ?u @ (replicate ?rest ?u @ page_list r bs)"
    by simp
  have bound: "length (page_list r (as @ c # bs)) < 2 ^ 32" unfolding len by simp
  obtain ps' where P: "rmap_core r' ps'" "length r' = length r" "r' ! 0 = r ! 0"
    "Some k = None \<longrightarrow> page_list r' ps' = page_list r (as @ c # bs)"
    "Some k \<noteq> None \<longrightarrow> page_list r' ps' = page_list r as @ replicate (unat offset) ?u
        @ replicate (unat sz) (\<not> ?u) @ replicate ?rest ?u @ page_list r bs"
    "Some k \<noteq> None \<and> alternating r (as @ c # bs) \<longrightarrow> alternating r' ps'"
    by (rule krmap_split_correct [OF core bound fits sz res])
  have pg: "page_list r' ps' = set_range (page_list r (as @ c # bs)) (length (page_list r as) + unat offset)
      (unat sz) (\<not> ?u)"
    unfolding split set_range_middle using P(5) by simp
  note H = rmap_core_header [OF P(1) e]
  have "length (page_list (r'[0 := e]) ps') = 1048576"
    unfolding H(2) pg by (subst length_set_range) (use fits len in auto)
  then have "rmap_ok (r'[0 := e]) ps'"
    using H tot pg by (simp add: rmap_ok_def)
  with H pg P(6) show ?thesis by auto
qed

lemma krmap_split_header:
  assumes "rmap_ok r (as @ c # bs)"
    and "unat offset + unat sz \<le> unat (rm_size (r ! c))" "sz \<noteq> 0"
    and "krmap_split r (prev_of as) c offset sz = (result, r')"
  shows "r' ! 0 = r ! 0"
  by (rule krmap_split_correct [OF _ _ assms(2-4)]) (use assms(1) in \<open>auto simp: rmap_ok_def\<close>)

lemma count_set_range:
  assumes "off + n \<le> length xs" "\<And>p. off \<le> p \<Longrightarrow> p < off + n \<Longrightarrow> xs ! p = (\<not> b)"
  shows "count_list (set_range xs off n b) True + (if b then 0 else n)
       = count_list xs True + (if b then n else 0)"
proof -
  have "take n (drop off xs) = replicate n (\<not> b)"
    using assms by (intro nth_equalityI) auto
  moreover have "xs = take off xs @ take n (drop off xs) @ drop (off + n) xs"
    by (simp add: append_take_drop_id add.commute flip: drop_drop)
  ultimately have "count_list xs True = count_list (take off xs @ replicate n (\<not> b) @ drop (off + n) xs) True"
    by simp
  then show ?thesis by (simp add: set_range_def)
qed

section \<open>The operations are correct\<close>

lemma range_is_pages:
  assumes "rmap_core r ps"
  shows "range_is (rmap_page r) off n u \<longleftrightarrow>
     n = 0 \<or> off + n \<le> length (page_list r ps) \<and> (\<forall>p. off \<le> p \<and> p < off + n \<longrightarrow> page_list r ps ! p = u)"
proof
  assume R: "range_is (rmap_page r) off n u"
  have inb: "p < length (page_list r ps) \<and> page_list r ps ! p = u" if "off \<le> p" "p < off + n" for p
    using R that by (auto simp: range_is_def rmap_page_eq [OF assms] split: if_splits)
  have "off + n \<le> length (page_list r ps)" if "n \<noteq> 0"
  proof -
    have "off \<le> off + n - 1" "off + n - 1 < off + n" using that by auto
    from inb [OF this] have "off + n - 1 < length (page_list r ps)" by simp
    then show ?thesis by linarith
  qed
  with inb show "n = 0 \<or> off + n \<le> length (page_list r ps) \<and> (\<forall>p. off \<le> p \<and> p < off + n \<longrightarrow> page_list r ps ! p = u)"
    by blast
next
  assume "n = 0 \<or> off + n \<le> length (page_list r ps) \<and> (\<forall>p. off \<le> p \<and> p < off + n \<longrightarrow> page_list r ps ! p = u)"
  then show "range_is (rmap_page r) off n u"
    by (auto simp: range_is_def rmap_page_eq [OF assms])
qed

lemma range_setI:
  assumes "rmap_core r ps" "rmap_core r' ps'" "page_list r' ps' = set_range (page_list r ps) off n u"
    and "off + n \<le> length (page_list r ps)"
  shows "rmap_page r' = range_set (rmap_page r) off n u"
  using assms by (auto simp: fun_eq_iff range_set_def rmap_page_eq [OF assms(1)] rmap_page_eq [OF assms(2)] nth_set_range)

lemma pages_length_bound:
  assumes "rmap_ok r (as @ c # bs)"
  shows "length (page_list r as) + unat (rm_size (r ! c)) \<le> 1048576"
    "unat (of_nat (length (page_list r as)) :: u32) = length (page_list r as)"
proof -
  show *: "length (page_list r as) + unat (rm_size (r ! c)) \<le> 1048576"
    using assms by (simp add: rmap_ok_def)
  then show "unat (of_nat (length (page_list r as)) :: u32) = length (page_list r as)"
    by (intro unat_of_nat_u32) simp
qed

lemma rmap_used_total:
  assumes "rmap_ok r ps"
  shows "unat (RMAP_TOTAL r) = count_list (page_list r ps) True" "unat (RMAP_TOTAL r) \<le> 1048576"
  using assms count_list_le_length [of "page_list r ps" True] by (auto simp: rmap_ok_def)

lemma chunk_pages:
  assumes "length (page_list r as) \<le> p" "p < length (page_list r as) + unat (rm_size (r ! c))"
  shows "page_list r (as @ c # bs) ! p = in_use r c"
  using assms by (auto simp: nth_append)

lemma used_range_total:
  assumes ok: "rmap_ok r (as @ c # bs)"
    and fits: "unat offset + unat sz \<le> unat (rm_size (r ! c))"
  shows "\<not> in_use r c \<Longrightarrow> unat (RMAP_TOTAL r + sz) = count_list (set_range (page_list r (as @ c # bs))
                (length (page_list r as) + unat offset) (unat sz) True) True"
    and "in_use r c \<Longrightarrow> unat (RMAP_TOTAL r - sz) = count_list (set_range (page_list r (as @ c # bs))
                (length (page_list r as) + unat offset) (unat sz) False) True"
proof -
  let ?P = "page_list r (as @ c # bs)" and ?o = "length (page_list r as) + unat offset"
  have in_range: "?o + unat sz \<le> length ?P" using fits by simp
  have st: "?P ! p = in_use r c" if "?o \<le> p" "p < ?o + unat sz" for p
    using that fits by (intro chunk_pages) auto
  note T = rmap_used_total [OF ok]
  { assume free: "\<not> in_use r c"
    have eq: "count_list (set_range ?P ?o (unat sz) True) True = unat (RMAP_TOTAL r) + unat sz"
      using count_set_range [OF in_range, of True] st free T(1) by simp
    have "count_list (set_range ?P ?o (unat sz) True) True \<le> 1048576"
      using count_list_le_length [of "set_range ?P ?o (unat sz) True" True] in_range ok
      by (simp add: rmap_ok_def)
    then show "unat (RMAP_TOTAL r + sz) = count_list (set_range ?P ?o (unat sz) True) True"
      using eq by (subst unat_plus_bounded) auto }
  { assume used: "in_use r c"
    have "count_list (set_range ?P ?o (unat sz) False) True + unat sz = unat (RMAP_TOTAL r)"
      using count_set_range [OF in_range, of False] st used T(1) by simp
    then show "unat (RMAP_TOTAL r - sz) = count_list (set_range ?P ?o (unat sz) False) True"
      by (subst unat_minus_le) auto }
qed

lemma krmap_find_free_cases:
  assumes ok: "rmap_ok r ps"
  obtains "krmap_find_free r sz 1 1 0 None = Some None"
      "\<forall>as c bs. ps = as @ c # bs \<longrightarrow> rm_used (r ! c) = 0 \<longrightarrow> rm_size (r ! c) < sz"
  | as c bs where "ps = as @ c # bs" "rm_used (r ! c) = 0" "sz \<le> rm_size (r ! c)"
      "krmap_find_free r sz 1 1 0 None = Some (Some (c, of_nat (length (page_list r as)), prev_of as))"
proof -
  have core: "rmap_core r ps" using ok by (simp add: rmap_ok_def)
  define hit where "hit c pos \<longleftrightarrow> rm_used (r ! c) = 0 \<and> rm_size (r ! c) > pos mod 1
      \<and> rm_size (r ! c) - pos mod 1 \<ge> sz" for c and pos :: u32
  have hit_iff: "hit c pos \<longleftrightarrow> rm_used (r ! c) = 0 \<and> sz \<le> rm_size (r ! c)" if "c \<in> set ps" for c and pos :: u32
    using rmap_core_entry(1) [OF core that] by (simp add: hit_def word_neq_0_conv)
  have "(krmap_find_free r sz 1 1 0 None = Some None
            \<and> (\<forall>xs c ys. ps = xs @ c # ys \<longrightarrow> \<not> hit c (of_nat (length (page_list r ([] @ xs))))))
       \<or> (\<exists>xs c ys. ps = xs @ c # ys \<and> hit c (of_nat (length (page_list r ([] @ xs))))
            \<and> krmap_find_free r sz 1 1 0 None
               = Some (Some (c, of_nat (length (page_list r ([] @ xs))), prev_of ([] @ xs))))"
    by (rule walk_search [where f = "krmap_find_free r sz 1" and r = r])
       (subst krmap_find_free.simps, use core in \<open>auto simp: rmap_core_def prev_of_def hit_def\<close>)
  then show thesis
  proof (elim disjE conjE exE)
    assume none: "krmap_find_free r sz 1 1 0 None = Some None"
      "\<forall>xs c ys. ps = xs @ c # ys \<longrightarrow> \<not> hit c (of_nat (length (page_list r ([] @ xs))))"
    have "rm_size (r ! c) < sz" if "ps = as @ c # bs" "rm_used (r ! c) = 0" for as c bs
      using none(2) [rule_format, OF that(1)] hit_iff [of c] that by auto
    with none(1) show thesis by (intro that(1)) auto
  next
    fix xs c ys
    assume F: "ps = xs @ c # ys" "hit c (of_nat (length (page_list r ([] @ xs))))"
      "krmap_find_free r sz 1 1 0 None
         = Some (Some (c, of_nat (length (page_list r ([] @ xs))), prev_of ([] @ xs)))"
    then show thesis using hit_iff [of c] by (intro that(2) [of xs c ys]) auto
  qed
qed

lemma krmap_find_range_cases:
  assumes ok: "rmap_ok r ps" and lim: "unat offset + unat sz \<le> 1048576"
  obtains "krmap_find_range r u offset sz 1 0 None = Some None"
      "\<forall>as c bs. ps = as @ c # bs \<longrightarrow> in_use r c = u \<longrightarrow> length (page_list r as) \<le> unat offset \<longrightarrow>
         length (page_list r as) + unat (rm_size (r ! c)) < unat offset + unat sz"
  | as c bs where "ps = as @ c # bs" "in_use r c = u" "length (page_list r as) \<le> unat offset"
      "unat offset + unat sz \<le> length (page_list r as) + unat (rm_size (r ! c))"
      "krmap_find_range r u offset sz 1 0 None = Some (Some (c, of_nat (length (page_list r as)), prev_of as))"
proof -
  have core: "rmap_core r ps" using ok by (simp add: rmap_ok_def)
  define hit where "hit c pos \<longleftrightarrow> (rm_used (r ! c) \<noteq> 0) = u \<and> offset \<ge> pos
      \<and> offset + sz \<le> pos + rm_size (r ! c)" for c and pos :: u32
  have hit_iff: "hit c (of_nat (length (page_list r as))) \<longleftrightarrow> in_use r c = u \<and> length (page_list r as) \<le> unat offset
      \<and> unat offset + unat sz \<le> length (page_list r as) + unat (rm_size (r ! c))"
    if "ps = as @ c # bs" for as c bs
  proof -
    note B = pages_length_bound [OF ok [unfolded that]]
    have "unat (of_nat (length (page_list r as)) + rm_size (r ! c)) = length (page_list r as) + unat (rm_size (r ! c))"
      using B by (subst unat_plus_bounded) auto
    moreover have "unat (offset + sz) = unat offset + unat sz"
      using lim by (subst unat_plus_bounded) auto
    ultimately show ?thesis using B(2) by (auto simp: hit_def word_le_nat_alt)
  qed
  have "(krmap_find_range r u offset sz 1 0 None = Some None
            \<and> (\<forall>xs c ys. ps = xs @ c # ys \<longrightarrow> \<not> hit c (of_nat (length (page_list r ([] @ xs))))))
       \<or> (\<exists>xs c ys. ps = xs @ c # ys \<and> hit c (of_nat (length (page_list r ([] @ xs))))
            \<and> krmap_find_range r u offset sz 1 0 None
               = Some (Some (c, of_nat (length (page_list r ([] @ xs))), prev_of ([] @ xs))))"
    by (rule walk_search [where f = "krmap_find_range r u offset sz" and r = r])
       (subst krmap_find_range.simps, use core in \<open>auto simp: rmap_core_def prev_of_def hit_def\<close>)
  then show thesis
  proof (elim disjE conjE exE)
    assume none: "krmap_find_range r u offset sz 1 0 None = Some None"
      "\<forall>xs c ys. ps = xs @ c # ys \<longrightarrow> \<not> hit c (of_nat (length (page_list r ([] @ xs))))"
    have "length (page_list r as) + unat (rm_size (r ! c)) < unat offset + unat sz"
      if "ps = as @ c # bs" "in_use r c = u" "length (page_list r as) \<le> unat offset" for as c bs
      using none(2) [rule_format, OF that(1)] hit_iff [OF that(1)] that(2,3) by (metis append_Nil not_le)
    with none(1) show thesis by (intro that(1)) auto
  next
    fix xs c ys
    assume F: "ps = xs @ c # ys" "hit c (of_nat (length (page_list r ([] @ xs))))"
      "krmap_find_range r u offset sz 1 0 None
         = Some (Some (c, of_nat (length (page_list r ([] @ xs))), prev_of ([] @ xs)))"
    then show thesis using hit_iff [OF F(1)] by (intro that(2) [of xs c ys]) auto
  qed
qed

lemma upd_at_header: "upd_at 0 f r = r[0 := f (r ! 0)]"
  by (simp add: upd_at_def)

text \<open>
  What one successful split and the update of the page count make of the map, for a range
  that starts \<open>offset\<close> pages into the chunk \<open>c\<close>.
\<close>

lemma range_op_correct:
  assumes ok: "rmap_ok r (as @ c # bs)" and alt: "alternating r (as @ c # bs)"
    and fits: "unat offset + unat sz \<le> unat (rm_size (r ! c))" and sz: "sz \<noteq> 0"
    and res: "krmap_split r (prev_of as) c offset sz = (Some k, r')"
    and r'': "r'' = upd_at 0 (\<lambda>e. e\<lparr>rm_size := (if in_use r c then rm_size e - sz else rm_size e + sz)\<rparr>) r'"
  shows "rmap_inv r''"
    and "rmap_page r'' = range_set (rmap_page r) (length (page_list r as) + unat offset) (unat sz) (\<not> in_use r c)"
    and "range_is (rmap_page r) (length (page_list r as) + unat offset) (unat sz) (in_use r c)"
proof -
  have core: "rmap_core r (as @ c # bs)" using ok by (simp add: rmap_ok_def)
  have fit: "length (page_list r as) + unat offset + unat sz \<le> length (page_list r (as @ c # bs))"
    using fits by simp
  have r''_eq: "r'' = r'[0 := (r' ! 0)\<lparr>rm_size :=
      (if in_use r c then RMAP_TOTAL r - sz else RMAP_TOTAL r + sz)\<rparr>]"
    using krmap_split_header [OF ok fits sz res] r'' by (simp add: upd_at_header RMAP_TOTAL_def)
  have "unat (if in_use r c then RMAP_TOTAL r - sz else RMAP_TOTAL r + sz)
      = count_list (set_range (page_list r (as @ c # bs))
                (length (page_list r as) + unat offset) (unat sz) (\<not> in_use r c)) True"
    using used_range_total [OF ok fits] by (cases "in_use r c") simp_all
  then obtain ps' where P: "rmap_ok r'' ps'"
    "page_list r'' ps' = set_range (page_list r (as @ c # bs))
          (length (page_list r as) + unat offset) (unat sz) (\<not> in_use r c)"
    "alternating r'' ps'"
    using split_range_correct [OF ok fits sz res, of "(r' ! 0)\<lparr>rm_size :=
        (if in_use r c then RMAP_TOTAL r - sz else RMAP_TOTAL r + sz)\<rparr>"] alt
    unfolding r''_eq by auto
  then show "rmap_inv r''" by (auto simp: rmap_inv_def)
  show "rmap_page r'' = range_set (rmap_page r) (length (page_list r as) + unat offset) (unat sz) (\<not> in_use r c)"
    using P(1,2) fit by (intro range_setI [OF core _ P(2)]) (auto simp: rmap_ok_def)
  show "range_is (rmap_page r) (length (page_list r as) + unat offset) (unat sz) (in_use r c)"
    unfolding range_is_pages [OF core]
    using fit fits chunk_pages [of r as _ c bs] by auto
qed

lemma run_chunk:
  assumes ok: "rmap_ok r ps" and alt: "alternating r ps" and n: "0 < n"
    and run: "range_is (rmap_page r) q n u"
  obtains as c bs where "ps = as @ c # bs" "in_use r c = u" "length (page_list r as) \<le> q"
    "q + n \<le> length (page_list r as) + unat (rm_size (r ! c))"
proof -
  have core: "rmap_core r ps" using ok by (simp add: rmap_ok_def)
  have "\<exists>as c bs. ps = as @ c # bs \<and> in_use r c = u \<and> length (page_list r as) \<le> q
           \<and> q + n \<le> length (page_list r as) + unat (rm_size (r ! c))"
    using run n unfolding range_is_pages [OF core]
    by (intro run_in_chunk [OF alt]) (auto dest: rmap_core_entry [OF core] simp: unat_gt_0)
  then show ?thesis using that by blast
qed

lemma krmap_alloc_law:
  assumes inv: "rmap_inv r" and sz: "sz \<noteq> 0" and spare: "1 \<le> rmap_spare r"
  shows "case krmap_alloc r sz of
      Returns (off, r') \<Rightarrow> rmap_inv r' \<and> range_is (rmap_page r) (unat off) (unat sz) False
                             \<and> rmap_page r' = range_set (rmap_page r) (unat off) (unat sz) True
    | Panics m \<Rightarrow> \<not> (\<exists>q. range_is (rmap_page r) q (unat sz) False)
    | _ \<Rightarrow> False"
proof -
  obtain ps where ok: "rmap_ok r ps" and alt: "alternating r ps" using inv by (auto simp: rmap_inv_def)
  have core: "rmap_core r ps" using ok by (simp add: rmap_ok_def)
  have szpos: "0 < unat sz" using sz by (simp add: unat_gt_0)
  show ?thesis
  proof (rule krmap_find_free_cases [OF ok, of sz])
    assume none: "krmap_find_free r sz 1 1 0 None = Some None"
      "\<forall>as c bs. ps = as @ c # bs \<longrightarrow> rm_used (r ! c) = 0 \<longrightarrow> rm_size (r ! c) < sz"
    have "\<not> range_is (rmap_page r) q (unat sz) False" for q
    proof
      assume "range_is (rmap_page r) q (unat sz) False"
      then obtain as c bs where "ps = as @ c # bs" "in_use r c = False" "length (page_list r as) \<le> q"
        "q + unat sz \<le> length (page_list r as) + unat (rm_size (r ! c))"
        by (rule run_chunk [OF ok alt szpos])
      moreover from this have "rm_size (r ! c) < sz" using none(2) by blast
      then have "unat (rm_size (r ! c)) < unat sz" by (simp add: word_less_nat_alt)
      ultimately show False by simp
    qed
    then show ?thesis using none(1) by (simp add: krmap_alloc_def krmap_alloc_align_def RMAP_MAX_ALIGN_def)
  next
    fix as c bs
    assume F: "ps = as @ c # bs" "rm_used (r ! c) = 0" "sz \<le> rm_size (r ! c)"
      "krmap_find_free r sz 1 1 0 None = Some (Some (c, of_nat (length (page_list r as)), prev_of as))"
    have fits: "unat (0::u32) + unat sz \<le> unat (rm_size (r ! c))" using F(3) by (simp add: word_le_nat_alt)
    have "fst (krmap_split r (prev_of as) c 0 sz) \<noteq> None"
      using core F(1) by (intro krmap_split_succeeds [OF _ fits sz]) (use spare in auto)
    then obtain k r' where S: "krmap_split r (prev_of as) c 0 sz = (Some k, r')"
      by (metis option.exhaust prod.collapse)
    note R = range_op_correct [OF ok [unfolded F(1)] alt [unfolded F(1)] fits sz S refl]
    have "krmap_alloc r sz = Returns (of_nat (length (page_list r as)),
            upd_at 0 (\<lambda>e. e\<lparr>rm_size := rm_size e + sz\<rparr>) r')"
      using F(4) S by (simp add: krmap_alloc_def krmap_alloc_align_def RMAP_MAX_ALIGN_def Let_def)
    then show ?thesis
      using R F(2) pages_length_bound(2) [OF ok [unfolded F(1)]] by simp
  qed
qed

lemma range_op_split:
  assumes ok: "rmap_ok r ps" and sz: "sz \<noteq> 0" and spare: "2 \<le> rmap_spare r"
    and F: "ps = as @ c # bs" "length (page_list r as) \<le> unat offset"
      "unat offset + unat sz \<le> length (page_list r as) + unat (rm_size (r ! c))"
  shows "unat (offset - of_nat (length (page_list r as))) = unat offset - length (page_list r as)"
    and "unat (offset - of_nat (length (page_list r as))) + unat sz \<le> unat (rm_size (r ! c))"
    and "\<exists>k r'. krmap_split r (prev_of as) c (offset - of_nat (length (page_list r as))) sz = (Some k, r')"
proof -
  have core: "rmap_core r (as @ c # bs)" using ok F(1) by (simp add: rmap_ok_def)
  show before: "unat (offset - of_nat (length (page_list r as))) = unat offset - length (page_list r as)"
    using pages_length_bound(2) [OF ok [unfolded F(1)]] F(2) by (simp add: unat_minus_le)
  then show fits: "unat (offset - of_nat (length (page_list r as))) + unat sz \<le> unat (rm_size (r ! c))"
    using F(2,3) by simp
  have "fst (krmap_split r (prev_of as) c (offset - of_nat (length (page_list r as))) sz) \<noteq> None"
    by (rule krmap_split_succeeds [OF core fits sz]) (use spare in auto)
  then show "\<exists>k r'. krmap_split r (prev_of as) c (offset - of_nat (length (page_list r as))) sz = (Some k, r')"
    by (metis option.exhaust prod.collapse)
qed

lemma no_chunk_no_run:
  assumes ok: "rmap_ok r ps" and alt: "alternating r ps" and sz: "sz \<noteq> 0"
    and none: "\<forall>as c bs. ps = as @ c # bs \<longrightarrow> in_use r c = u \<longrightarrow> length (page_list r as) \<le> unat offset \<longrightarrow>
         length (page_list r as) + unat (rm_size (r ! c)) < unat offset + unat sz"
  shows "\<not> range_is (rmap_page r) (unat offset) (unat sz) u"
proof
  have szpos: "0 < unat sz" using sz by (simp add: unat_gt_0)
  assume "range_is (rmap_page r) (unat offset) (unat sz) u"
  then obtain as c bs where "ps = as @ c # bs" "in_use r c = u" "length (page_list r as) \<le> unat offset"
    "unat offset + unat sz \<le> length (page_list r as) + unat (rm_size (r ! c))"
    by (rule run_chunk [OF ok alt szpos])
  with none show False by (metis leD)
qed

lemma krmap_free_law:
  assumes inv: "rmap_inv r" and sz: "sz \<noteq> 0" and spare: "2 \<le> rmap_spare r"
    and lim: "unat offset + unat sz \<le> 1048576"
  shows "if range_is (rmap_page r) (unat offset) (unat sz) True
         then \<exists>r'. krmap_free r offset sz = Returns (None, r') \<and> rmap_inv r'
                \<and> rmap_page r' = range_set (rmap_page r) (unat offset) (unat sz) False
         else krmap_free r offset sz = Returns (Some (- ENOMEM), r)"
proof -
  obtain ps where ok: "rmap_ok r ps" and alt: "alternating r ps" using inv by (auto simp: rmap_inv_def)
  show ?thesis
  proof (rule krmap_find_range_cases [OF ok lim, of True])
    assume none: "krmap_find_range r True offset sz 1 0 None = Some None"
      "\<forall>as c bs. ps = as @ c # bs \<longrightarrow> in_use r c = True \<longrightarrow> length (page_list r as) \<le> unat offset \<longrightarrow>
         length (page_list r as) + unat (rm_size (r ! c)) < unat offset + unat sz"
    then show ?thesis
      using no_chunk_no_run [OF ok alt sz none(2)] by (simp add: krmap_free_def)
  next
    fix as c bs
    assume F: "ps = as @ c # bs" "in_use r c = True" "length (page_list r as) \<le> unat offset"
      "unat offset + unat sz \<le> length (page_list r as) + unat (rm_size (r ! c))"
      "krmap_find_range r True offset sz 1 0 None = Some (Some (c, of_nat (length (page_list r as)), prev_of as))"
    note B = range_op_split [OF ok sz spare F(1,3,4)]
    obtain k r' where S: "krmap_split r (prev_of as) c (offset - of_nat (length (page_list r as))) sz = (Some k, r')"
      using B(3) by blast
    note R = range_op_correct [OF ok [unfolded F(1)] alt [unfolded F(1)] B(2) sz S refl]
    have "krmap_free r offset sz = Returns (None, upd_at 0 (\<lambda>e. e\<lparr>rm_size := rm_size e - sz\<rparr>) r')"
      using F(5) S by (simp add: krmap_free_def Let_def)
    then show ?thesis using R F(2,3) B(1) by simp
  qed
qed

lemma krmap_reserve_law:
  assumes inv: "rmap_inv r" and sz: "sz \<noteq> 0" and spare: "2 \<le> rmap_spare r"
    and lim: "unat offset + unat sz \<le> 1048576"
  shows "if range_is (rmap_page r) (unat offset) (unat sz) False
         then \<exists>r'. krmap_reserve (Some r) offset sz = Returns (0, Some r') \<and> rmap_inv r'
                \<and> rmap_page r' = range_set (rmap_page r) (unat offset) (unat sz) True
         else krmap_reserve (Some r) offset sz = Returns (- ENOMEM, Some r)"
proof -
  obtain ps where ok: "rmap_ok r ps" and alt: "alternating r ps" using inv by (auto simp: rmap_inv_def)
  show ?thesis
  proof (rule krmap_find_range_cases [OF ok lim, of False])
    assume none: "krmap_find_range r False offset sz 1 0 None = Some None"
      "\<forall>as c bs. ps = as @ c # bs \<longrightarrow> in_use r c = False \<longrightarrow> length (page_list r as) \<le> unat offset \<longrightarrow>
         length (page_list r as) + unat (rm_size (r ! c)) < unat offset + unat sz"
    then show ?thesis
      using no_chunk_no_run [OF ok alt sz none(2)] sz by (simp add: krmap_reserve_def)
  next
    fix as c bs
    assume F: "ps = as @ c # bs" "in_use r c = False" "length (page_list r as) \<le> unat offset"
      "unat offset + unat sz \<le> length (page_list r as) + unat (rm_size (r ! c))"
      "krmap_find_range r False offset sz 1 0 None = Some (Some (c, of_nat (length (page_list r as)), prev_of as))"
    note B = range_op_split [OF ok sz spare F(1,3,4)]
    obtain k r' where S: "krmap_split r (prev_of as) c (offset - of_nat (length (page_list r as))) sz = (Some k, r')"
      using B(3) by blast
    note R = range_op_correct [OF ok [unfolded F(1)] alt [unfolded F(1)] B(2) sz S refl]
    have "krmap_reserve (Some r) offset sz
        = Returns (0, Some (upd_at 0 (\<lambda>e. e\<lparr>rm_size := rm_size e + sz\<rparr>) r'))"
      using F(5) S sz by (simp add: krmap_reserve_def Let_def)
    then show ?thesis using R F(2,3) B(1) by simp
  qed
qed

lemma krmap_reserve_failure:
  assumes inv: "rmap_inv r" and lim: "unat offset + unat sz \<le> 1048576"
    and res: "krmap_reserve (Some r) offset sz = Returns (rc, Some r')" and rc: "rc \<noteq> 0"
  shows "rmap_page r' = rmap_page r"
proof -
  obtain ps where ok: "rmap_ok r ps" using inv by (auto simp: rmap_inv_def)
  have core: "rmap_core r ps" and len: "length (page_list r ps) < 2 ^ 32" using ok by (auto simp: rmap_ok_def)
  show ?thesis
  proof (rule krmap_find_range_cases [OF ok lim, of False])
    assume "krmap_find_range r False offset sz 1 0 None = Some None"
    then show ?thesis using res by (auto simp: krmap_reserve_def split: if_splits)
  next
    fix as c bs
    assume F: "ps = as @ c # bs" "in_use r c = False" "length (page_list r as) \<le> unat offset"
      "unat offset + unat sz \<le> length (page_list r as) + unat (rm_size (r ! c))"
      "krmap_find_range r False offset sz 1 0 None = Some (Some (c, of_nat (length (page_list r as)), prev_of as))"
    show ?thesis
    proof (cases "sz = 0")
      case True
      then show ?thesis using res by (simp add: krmap_reserve_def)
    next
      case sz: False
      have fits: "unat (offset - of_nat (length (page_list r as))) + unat sz \<le> unat (rm_size (r ! c))"
        using pages_length_bound(2) [OF ok [unfolded F(1)]] F(3,4) by (simp add: unat_minus_le)
      obtain result r1 where S: "krmap_split r (prev_of as) c (offset - of_nat (length (page_list r as))) sz = (result, r1)"
        by fastforce
      have N: "result = None" "r' = r1"
        using res F(5) S sz rc by (auto simp: krmap_reserve_def Let_def split: option.splits)
      obtain ps' where "rmap_core r1 ps'" "page_list r1 ps' = page_list r ps"
        by (rule krmap_split_correct [OF core [unfolded F(1)] len [unfolded F(1)] fits sz S])
           (use N F(1) in auto)
      then show ?thesis
        using N core by (simp add: fun_eq_iff rmap_page_eq)
    qed
  qed
qed

lemma krmap_get_status_walk:
  assumes path: "rm_path r cur bs 0" "0 \<notin> set bs"
    and small: "length (page_list r (as @ bs)) \<le> 1048576"
    and inside: "length (page_list r as) \<le> unat offset" "unat offset < length (page_list r (as @ bs))"
    and lim: "unat offset + unat sz \<le> 1048576"
  shows "\<exists>xs c ys. bs = xs @ c # ys \<and> length (page_list r (as @ xs)) \<le> unat offset
     \<and> unat offset < length (page_list r (as @ xs)) + unat (rm_size (r ! c))
     \<and> krmap_get_status_loop r offset sz cur (of_nat (length (page_list r as)))
         = Some (if unat offset + unat sz \<le> length (page_list r (as @ xs)) + unat (rm_size (r ! c))
                 then uint (rm_used (r ! c)) else - 1)"
  using assms
proof (induction bs arbitrary: cur as)
  case Nil
  then show ?case by simp
next
  case (Cons b bs)
  let ?pos = "of_nat (length (page_list r as)) :: u32"
  have pos: "unat ?pos = length (page_list r as)"
    using Cons.prems(3) by (intro unat_of_nat_u32) simp
  have nxt: "unat (?pos + rm_size (r ! b)) = length (page_list r as) + unat (rm_size (r ! b))"
    using Cons.prems(3) pos by (subst unat_plus_bounded) auto
  have sum: "unat (offset + sz) = unat offset + unat sz"
    using lim by (subst unat_plus_bounded) auto
  have cur: "cur = b" using Cons.prems(1) by simp
  have here: "?pos \<le> offset" using pos Cons.prems(4) by (simp add: word_le_nat_alt)
  show ?case
  proof (cases "unat offset < length (page_list r as) + unat (rm_size (r ! b))")
    case True
    then have "krmap_get_status_loop r offset sz cur ?pos
         = Some (if unat offset + unat sz \<le> length (page_list r as) + unat (rm_size (r ! b))
                 then uint (rm_used (r ! b)) else - 1)"
      using here nxt sum cur
      by (subst krmap_get_status_loop.simps) (simp add: word_le_nat_alt word_less_nat_alt)
    then have "b # bs = [] @ b # bs \<and> length (page_list r (as @ [])) \<le> unat offset
     \<and> unat offset < length (page_list r (as @ [])) + unat (rm_size (r ! b))
     \<and> krmap_get_status_loop r offset sz cur ?pos
         = Some (if unat offset + unat sz \<le> length (page_list r (as @ [])) + unat (rm_size (r ! b))
                 then uint (rm_used (r ! b)) else - 1)"
      using True Cons.prems(4) by simp
    then show ?thesis by blast
  next
    case False
    have step: "krmap_get_status_loop r offset sz cur ?pos
        = krmap_get_status_loop r offset sz (unat (rm_next (r ! b))) (of_nat (length (page_list r (as @ [b]))))"
      using here nxt False cur
      by (subst krmap_get_status_loop.simps) (simp add: word_less_nat_alt)
    obtain xs c ys where "bs = xs @ c # ys" "length (page_list r ((as @ [b]) @ xs)) \<le> unat offset"
       "unat offset < length (page_list r ((as @ [b]) @ xs)) + unat (rm_size (r ! c))"
       "krmap_get_status_loop r offset sz (unat (rm_next (r ! b))) (of_nat (length (page_list r (as @ [b]))))
         = Some (if unat offset + unat sz \<le> length (page_list r ((as @ [b]) @ xs)) + unat (rm_size (r ! c))
                 then uint (rm_used (r ! c)) else - 1)"
      using Cons.IH [of "unat (rm_next (r ! b))" "as @ [b]"] Cons.prems False by auto
    then have "b # bs = (b # xs) @ c # ys \<and> length (page_list r (as @ (b # xs))) \<le> unat offset
     \<and> unat offset < length (page_list r (as @ (b # xs))) + unat (rm_size (r ! c))
     \<and> krmap_get_status_loop r offset sz cur ?pos
         = Some (if unat offset + unat sz \<le> length (page_list r (as @ (b # xs))) + unat (rm_size (r ! c))
                 then uint (rm_used (r ! c)) else - 1)"
      unfolding step by simp
    then show ?thesis by blast
  qed
qed

text \<open>The page after a chunk, if there is one, has the other status.\<close>

lemma chunk_end_status:
  assumes core: "rmap_core r ps" and alt: "alternating r ps" and ps: "ps = xs @ c # ys"
    and inside: "length (page_list r xs) + unat (rm_size (r ! c)) < length (page_list r ps)"
  shows "rmap_page r (length (page_list r xs) + unat (rm_size (r ! c))) = Some (\<not> in_use r c)"
proof -
  obtain d ds where ys: "ys = d # ds" using inside ps by (cases ys) auto
  have "0 < unat (rm_size (r ! d))"
    using rmap_core_entry(1) [OF core, of d] ps ys by (simp add: unat_gt_0)
  then have "page_list r ps ! (length (page_list r xs) + unat (rm_size (r ! c))) = in_use r d"
    using ps ys by (simp add: nth_append)
  moreover have "in_use r c \<noteq> in_use r d"
    using alt ps ys by (simp add: alternating_def distinct_adj_append_iff)
  ultimately show ?thesis using inside by (simp add: rmap_page_eq [OF core])
qed

lemma krmap_get_status_law:
  assumes inv: "rmap_inv r" and sz: "sz \<noteq> 0" and lim: "unat offset + unat sz \<le> 1048576"
  shows "krmap_get_status r offset sz = Returns
     (if range_is (rmap_page r) (unat offset) (unat sz) True then 1
      else if range_is (rmap_page r) (unat offset) (unat sz) False then 0 else - 1)"
proof -
  obtain ps where ok: "rmap_ok r ps" and alt: "alternating r ps" using inv by (auto simp: rmap_inv_def)
  have core: "rmap_core r ps" and len: "length (page_list r ps) = 1048576" using ok by (auto simp: rmap_ok_def)
  have szpos: "0 < unat sz" using sz by (simp add: unat_gt_0)
  have path: "rm_path r 1 ps 0" "0 \<notin> set ps" using core by (auto simp: rmap_core_def)
  obtain xs c ys where W: "ps = xs @ c # ys" "length (page_list r xs) \<le> unat offset"
     "unat offset < length (page_list r xs) + unat (rm_size (r ! c))"
     "krmap_get_status_loop r offset sz 1 0
         = Some (if unat offset + unat sz \<le> length (page_list r xs) + unat (rm_size (r ! c))
                 then uint (rm_used (r ! c)) else - 1)"
    using krmap_get_status_walk [OF path, of "[]" offset sz] len lim szpos by auto
  have first: "rmap_page r (unat offset) = Some (in_use r c)"
    using W(1-3) len chunk_pages [OF W(2,3), of ys] by (simp add: rmap_page_eq [OF core])
  have iff: "range_is (rmap_page r) (unat offset) (unat sz) u \<longleftrightarrow>
      in_use r c = u \<and> unat offset + unat sz \<le> length (page_list r xs) + unat (rm_size (r ! c))" for u
  proof
    assume R: "range_is (rmap_page r) (unat offset) (unat sz) u"
    then have u: "in_use r c = u" using first szpos by (simp add: range_is_def)
    have "unat offset + unat sz \<le> length (page_list r xs) + unat (rm_size (r ! c))" (is "_ \<le> ?e")
    proof (rule ccontr)
      assume "\<not> unat offset + unat sz \<le> ?e"
      then have e: "?e \<in> {unat offset..<unat offset + unat sz}" "?e < length (page_list r ps)"
        using W(3) lim len by auto
      have "rmap_page r ?e = Some u" using R e(1) by (simp only: range_is_def)
      moreover have "rmap_page r ?e = Some (\<not> u)"
        using chunk_end_status [OF core alt W(1) e(2)] u by simp
      ultimately show False by simp
    qed
    with u show "in_use r c = u \<and> unat offset + unat sz \<le> length (page_list r xs) + unat (rm_size (r ! c))"
      by simp
  next
    assume "in_use r c = u \<and> unat offset + unat sz \<le> length (page_list r xs) + unat (rm_size (r ! c))"
    then show "range_is (rmap_page r) (unat offset) (unat sz) u"
      using W(1,2) len lim chunk_pages [of r xs _ c ys]
      by (auto simp: range_is_def rmap_page_eq [OF core])
  qed
  have "rm_used (r ! c) \<le> 1" using rmap_core_entry(2) [OF core, of c] W(1) by simp
  then have "uint (rm_used (r ! c)) = (if in_use r c then 1 else 0)"
    by (metis (full_types) linorder_not_less order_le_less uint_0_eq uint_1 word_less_1)
  then show ?thesis using W(4) iff by (auto simp: krmap_get_status_def)
qed

lemma krmap_initialize_law:
  assumes sz: "16 \<le> sz" and len: "min (unat sz) 65535 \<le> length r"
  shows "\<exists>r'. krmap_initialize (Some r) sz = (0, Some r') \<and> rmap_inv r'
     \<and> rmap_page r' = range_set (\<lambda>_. None) 0 1048576 True
     \<and> rmap_spare r' = min (unat sz) 65535 - 3"
proof -
  define n where "n = (if sz > RMAP_MAX_ENTRIES then RMAP_MAX_ENTRIES else sz)"
  have n: "unat n = min (unat sz) 65535" "16 \<le> unat n"
    using sz by (auto simp: n_def RMAP_MAX_ENTRIES_def word_less_nat_alt word_le_nat_alt)
  have n1: "unat (n - 1) = unat n - 1"
    using n(2) by (subst unat_minus_le) auto
  define r' where "r' = \<lparr>rm_size = RMAP_MAX_PAGES, rm_next = ucast (n - 1), rm_used = 0\<rparr>
     # \<lparr>rm_size = RMAP_MAX_PAGES, rm_next = 0, rm_used = 1\<rparr>
     # replicate (unat n - 2) rmap_zero @ drop (unat n) r"
  obtain m where m: "unat n = Suc (Suc m)" using n(2) by (cases "unat n"; cases "unat n - 1") auto
  have init: "krmap_initialize (Some r) sz = (0, Some r')"
    using sz m unfolding krmap_initialize_def r'_def Let_def n_def [symmetric]
    by (simp add: upd_at_def rmap_zero_def not_less)
  have lim: "unat (rm_next (r' ! 0)) = unat n - 1"
    using n n1 by (simp add: r'_def unat_ucast_u16)
  have zero: "rm_size (r' ! j) = 0" if "1 < j" "j < unat n" for j
    using that m by (cases j; cases "j - 1") (auto simp: r'_def nth_append rmap_zero_def)
  have one: "r' ! 1 = \<lparr>rm_size = RMAP_MAX_PAGES, rm_next = 0, rm_used = 1\<rparr>" by (simp add: r'_def)
  have core: "rmap_core r' [1]"
  proof (rule rmap_coreI)
    show "unat (rm_next (r' ! 0)) < length r'" using lim n len by (simp add: r'_def)
    show "rm_path r' 1 [1] 0" using one by simp
  next
    fix j assume "0 < j" "j < unat (rm_next (r' ! 0))" "j \<notin> set [1]"
    then show "rm_size (r' ! j) = 0" using lim zero [of j] by simp
  qed (use one lim n in \<open>auto simp: RMAP_MAX_PAGES_def\<close>)
  have pg: "page_list r' [1] = replicate 1048576 True"
    using one by (simp add: RMAP_MAX_PAGES_def)
  have ok: "rmap_ok r' [1]"
    using core pg by (simp add: rmap_ok_def RMAP_TOTAL_def r'_def RMAP_MAX_PAGES_def)
  have page: "rmap_page r' p = range_set (\<lambda>_. None) 0 1048576 True p" for p
    unfolding rmap_page_eq [OF core] pg by (simp add: range_set_def)
  have "filter (\<lambda>j. rm_size (r' ! j) = 0) [1..<unat n - 1] = filter (\<lambda>j. rm_size (r' ! j) = 0) (1 # [2..<unat n - 1])"
    using n by (subst upt_conv_Cons) (auto simp: numeral_2_eq_2)
  also have "\<dots> = [2..<unat n - 1]"
    using zero one by (auto simp: filter_id_conv RMAP_MAX_PAGES_def)
  finally have "rmap_spare r' = unat n - 3" by (simp add: rmap_spare_def lim)
  with init ok page n(1) show ?thesis
    by (intro exI [of _ r']) (auto simp: rmap_inv_def alternating_def)
qed

lemma krmap_alloc_unmarked:
  assumes inv: "rmap_inv r" and sz: "sz \<noteq> 0" and none: "rmap_spare r = 0"
    and fit: "krmap_find_free r sz 1 1 0 None = Some (Some (c, off, prev))" "sz < rm_size (r ! c)"
  shows "\<exists>r'. krmap_alloc r sz = Returns (off, r') \<and> rmap_page r' = rmap_page r
       \<and> range_is (rmap_page r') (unat off) (unat sz) False"
proof -
  obtain ps where ok: "rmap_ok r ps" using inv by (auto simp: rmap_inv_def)
  have core: "rmap_core r ps" using ok by (simp add: rmap_ok_def)
  show ?thesis
  proof (rule krmap_find_free_cases [OF ok, of sz])
    assume "krmap_find_free r sz 1 1 0 None = Some None"
    then show ?thesis using fit by simp
  next
    fix as c' bs
    assume F: "ps = as @ c' # bs" "rm_used (r ! c') = 0" "sz \<le> rm_size (r ! c')"
      "krmap_find_free r sz 1 1 0 None = Some (Some (c', of_nat (length (page_list r as)), prev_of as))"
    have eq: "c' = c" "off = of_nat (length (page_list r as))" "prev = prev_of as" using F(4) fit(1) by auto
    have "krmap_new r = None" using none by (simp add: krmap_new_None_iff)
    moreover have "0 < rm_size (r ! c) - sz"
      using fit(2) by (simp add: word_less_nat_alt unat_minus_le)
    ultimately have "krmap_split r prev c 0 sz = (None, r)"
      using fit(2) by (simp add: krmap_split_def krmap_split_before_zero krmap_split_after_def)
    then have al: "krmap_alloc r sz = Returns (off, upd_at 0 (\<lambda>e. e\<lparr>rm_size := rm_size e + sz\<rparr>) r)"
      using fit(1) by (simp add: krmap_alloc_def krmap_alloc_align_def RMAP_MAX_ALIGN_def Let_def)
    have page: "rmap_page (upd_at 0 (\<lambda>e. e\<lparr>rm_size := rm_size e + sz\<rparr>) r) = rmap_page r"
      using rmap_core_header [OF core, of "(r ! 0)\<lparr>rm_size := rm_size (r ! 0) + sz\<rparr>"]
      by (auto simp: fun_eq_iff upd_at_header rmap_page_eq [OF core] rmap_page_eq)
    have "range_is (rmap_page r) (unat off) (unat sz) False"
      unfolding range_is_pages [OF core]
      using F(1-3) eq pages_length_bound [OF ok [unfolded F(1)]] chunk_pages [of r as _ c bs]
      by (auto simp: word_le_nat_alt rmap_ok_def)
    with al page show ?thesis by simp
  qed
qed

section \<open>The interface\<close>

lemma rmap_page_dom:
  assumes "rmap_inv r" shows "(rmap_page r p \<noteq> None) = (p < 1048576)"
  using assms by (auto simp: rmap_inv_def rmap_ok_def rmap_page_eq split: if_splits)

interpretation rm: page_ranges rmap_inv rmap_page rmap_spare krmap_alloc krmap_free
proof unfold_locales
  show "(rmap_page m p \<noteq> None) = (p < 1048576)" if "rmap_inv m" for m p
    by (rule rmap_page_dom [OF that])
qed (rule krmap_alloc_law krmap_free_law; assumption)+

lemma rmap_example_core: "rmap_core rmap_example [1, 2, 3]"
proof (rule rmap_coreI)
  fix j assume "0 < j" "j < unat (rm_next (rmap_example ! 0))" "j \<notin> set [1, 2, 3]"
  then show "rm_size (rmap_example ! j) = 0"
    by (auto simp: rmap_example_def rmap_zero_def nth_Cons' nth_append)
qed (auto simp: rmap_example_def rmap_zero_def)

lemma rmap_example_pages:
  "page_list rmap_example [1, 2, 3] = replicate 16 True @ replicate 100 False @ replicate 1048460 True"
  by (simp add: rmap_example_def page_list_def)

lemma rmap_example_inv: "rmap_inv rmap_example"
proof -
  have "rmap_ok rmap_example [1, 2, 3]"
    unfolding rmap_ok_def rmap_example_pages
    using rmap_example_core by (simp add: RMAP_TOTAL_def rmap_example_def)
  moreover have "alternating rmap_example [1, 2, 3]"
    by (simp add: alternating_def rmap_example_def)
  ultimately show ?thesis unfolding rmap_inv_def by blast
qed

lemma rmap_example_page:
  "rmap_page rmap_example p =
     (if p < 16 then Some True else if p < 116 then Some False
      else if p < 1048576 then Some True else None)"
  unfolding rmap_page_eq [OF rmap_example_core] rmap_example_pages
  by (simp add: nth_append) linarith

lemma rmap_example_spare: "rmap_spare rmap_example = 11"
  by (simp add: rmap_spare_def rmap_example_def rmap_zero_def upt_rec)

lemma rmap_example_alloc:
  "krmap_alloc rmap_example 10 = Returns (16, rmap_example_alloc1)"
  by code_simp

lemma rmap_example_alloc1_spare: "rmap_spare rmap_example_alloc1 = 11"
  by (simp add: rmap_spare_def rmap_example_alloc1_def rmap_example_def rmap_zero_def upt_rec)

text \<open>The remainder is added to the offset, not subtracted from the alignment.\<close>

lemma krmap_alloc_align_misaligned:
  "rmap_inv rmap_example
   \<and> (\<exists>r'. krmap_alloc_align rmap_example 10 64 = Returns (32, r')) \<and> (32 :: u32) mod 64 \<noteq> 0"
proof -
  have "(case krmap_alloc_align rmap_example 10 64 of Returns (off, _) \<Rightarrow> off = 32 | _ \<Rightarrow> False)"
    by code_simp
  then have "\<exists>r'. krmap_alloc_align rmap_example 10 64 = Returns (32, r')"
    by (cases "krmap_alloc_align rmap_example 10 64") auto
  moreover have "(32 :: u32) mod 64 \<noteq> 0" by simp
  ultimately show ?thesis using rmap_example_inv by blast
qed

section \<open>Properties\<close>

text \<open>
  C1. Allocating a non-empty range from a well-formed map with a spare entry returns a range
  of pages that were all free, marks exactly these pages used and keeps the invariant; it
  panics only when no free run of that length exists, and it always terminates.
\<close>

theorem krmap_alloc_correct:
  assumes "rmap_inv r" and "sz \<noteq> 0" and "1 \<le> rmap_spare r"
  shows "case krmap_alloc r sz of
      Returns (off, r') \<Rightarrow> rmap_inv r' \<and> range_is (rmap_page r) (unat off) (unat sz) False
                             \<and> rmap_page r' = range_set (rmap_page r) (unat off) (unat sz) True
    | Panics m \<Rightarrow> \<not> (\<exists>q. range_is (rmap_page r) q (unat sz) False)
    | _ \<Rightarrow> False"
  using assms by (rule rm.alloc_law)

theorem krmap_alloc_correct_witness:
  "rmap_inv rmap_example \<and> krmap_alloc rmap_example 10 = Returns (16, rmap_example_alloc1)
   \<and> rmap_inv rmap_example_alloc1
   \<and> rmap_page rmap_example_alloc1 = range_set (rmap_page rmap_example) 16 10 True"
  using krmap_alloc_correct [OF rmap_example_inv, of 10]
  by (simp add: rmap_example_inv rmap_example_spare rmap_example_alloc)

text \<open>
  C2. Freeing a range inside the page space succeeds exactly when every page of it is in use;
  it then marks exactly these pages free and keeps the invariant. Otherwise it returns
  \<open>- ENOMEM\<close> and leaves the map as it was.
\<close>

theorem krmap_free_correct:
  assumes "rmap_inv r" and "sz \<noteq> 0" and "2 \<le> rmap_spare r"
    and "unat offset + unat sz \<le> 1048576"
  shows "if range_is (rmap_page r) (unat offset) (unat sz) True
         then \<exists>r'. krmap_free r offset sz = Returns (None, r') \<and> rmap_inv r'
                \<and> rmap_page r' = range_set (rmap_page r) (unat offset) (unat sz) False
         else krmap_free r offset sz = Returns (Some (- ENOMEM), r)"
  using assms by (rule rm.release_law)

theorem krmap_free_correct_witness:
  "rmap_inv rmap_example \<and> 2 \<le> rmap_spare rmap_example
   \<and> (\<exists>r'. krmap_free rmap_example 4 8 = Returns (None, r') \<and> rmap_inv r'
           \<and> rmap_page r' = range_set (rmap_page rmap_example) 4 8 False)"
  using krmap_free_correct [OF rmap_example_inv, of 8 4]
  by (simp add: rmap_example_inv rmap_example_spare range_is_def rmap_example_page)

text \<open>
  C10. Reserving a given range succeeds exactly when every page of it is free; it then marks
  exactly these pages used and keeps the invariant. Otherwise it returns \<open>- ENOMEM\<close> and
  leaves the map as it was.
\<close>

theorem krmap_reserve_correct:
  assumes "rmap_inv r" and "sz \<noteq> 0" and "2 \<le> rmap_spare r"
    and "unat offset + unat sz \<le> 1048576"
  shows "if range_is (rmap_page r) (unat offset) (unat sz) False
         then \<exists>r'. krmap_reserve (Some r) offset sz = Returns (0, Some r') \<and> rmap_inv r'
                \<and> rmap_page r' = range_set (rmap_page r) (unat offset) (unat sz) True
         else krmap_reserve (Some r) offset sz = Returns (- ENOMEM, Some r)"
  using assms by (rule krmap_reserve_law)

theorem krmap_reserve_correct_witness:
  "rmap_inv rmap_example \<and> 2 \<le> rmap_spare rmap_example
   \<and> (\<exists>r'. krmap_reserve (Some rmap_example) 20 8 = Returns (0, Some r') \<and> rmap_inv r'
           \<and> rmap_page r' = range_set (rmap_page rmap_example) 20 8 True)"
  using krmap_reserve_correct [OF rmap_example_inv, of 8 20]
  by (simp add: rmap_example_inv rmap_example_spare range_is_def rmap_example_page)

text \<open>
  C26. The status of a non-empty range is 1 when every page is used, 0 when every page is free
  and -1 when the range is mixed.
\<close>

theorem krmap_get_status_correct:
  assumes "rmap_inv r" and "sz \<noteq> 0" and "unat offset + unat sz \<le> 1048576"
  shows "krmap_get_status r offset sz = Returns
     (if range_is (rmap_page r) (unat offset) (unat sz) True then 1
      else if range_is (rmap_page r) (unat offset) (unat sz) False then 0 else - 1)"
  using assms by (rule krmap_get_status_law)

theorem krmap_get_status_correct_witness:
  "rmap_inv rmap_example \<and> krmap_get_status rmap_example 20 8 = Returns 0"
proof -
  have "range_is (rmap_page rmap_example) 20 8 False" "\<not> range_is (rmap_page rmap_example) 20 8 True"
    by (auto simp: range_is_def rmap_example_page intro!: exI [of _ 20])
  then show ?thesis
    using krmap_get_status_correct [OF rmap_example_inv, of 8 20] rmap_example_inv by simp
qed

text \<open>
  C27. Initializing an array of at least 16 entries gives a well-formed map whose whole page
  space is in use; all its entries but the header, the first chunk and the last are spare.
\<close>

theorem krmap_initialize_correct:
  assumes "16 \<le> sz" and "min (unat sz) 65535 \<le> length r"
  shows "\<exists>r'. krmap_initialize (Some r) sz = (0, Some r') \<and> rmap_inv r'
     \<and> rmap_page r' = range_set (\<lambda>_. None) 0 1048576 True
     \<and> rmap_spare r' = min (unat sz) 65535 - 3"
  using assms by (rule krmap_initialize_law)

theorem krmap_initialize_correct_witness:
  "\<exists>r'. krmap_initialize (Some (replicate 20 rmap_zero)) 20 = (0, Some r') \<and> rmap_inv r'
     \<and> rmap_page r' = range_set (\<lambda>_. None) 0 1048576 True \<and> rmap_spare r' = 17"
  using krmap_initialize_correct [of 20 "replicate 20 rmap_zero"] by simp



text \<open>
  C15. Freeing an allocated range gives every page the status it had before the allocation.
\<close>

theorem krmap_alloc_free_restores:
  assumes "rmap_inv r" and "sz \<noteq> 0" and "1 \<le> rmap_spare r"
    and "krmap_alloc r sz = Returns (off, r1)" and "2 \<le> rmap_spare r1"
  shows "\<exists>r2. krmap_free r1 off sz = Returns (None, r2) \<and> rmap_inv r2 \<and> rmap_page r2 = rmap_page r"
  using assms by (rule rm.alloc_release)

theorem krmap_alloc_free_restores_witness:
  "\<exists>r2. krmap_free rmap_example_alloc1 16 10 = Returns (None, r2) \<and> rmap_inv r2
     \<and> rmap_page r2 = rmap_page rmap_example"
  using krmap_alloc_free_restores [OF rmap_example_inv _ _ rmap_example_alloc]
  by (simp add: rmap_example_spare rmap_example_alloc1_spare)


end
