(* ===== verification/Pframe.thy ===== *)
theory Pframe
  imports Prelude
begin

text \<open>
  The physical page frame database of \<^verbatim>\<open>src/src/sys/kernel/pframe.c\<close>: one 16-bit entry per
  frame, a tag in its low byte and extra information in its high byte, with a counter of free
  frames. The parts that go through the page tables are in \<^verbatim>\<open>Pdir\<close>.
\<close>

section \<open>Data\<close>

record pframe_db =
  freeCount :: u32
  useableCount :: u32
  frameCount :: u32
  frameArray :: "u16 list"

abbreviation (input) PFT_FREE :: u8 where "PFT_FREE \<equiv> 0x01"
abbreviation (input) PFT_RESERVED :: u8 where "PFT_RESERVED \<equiv> 0x03"
abbreviation (input) PFT_BAD :: u8 where "PFT_BAD \<equiv> 0x07"
abbreviation (input) PFT_PTAB :: u8 where "PFT_PTAB \<equiv> 0x08"
abbreviation (input) PFT_DMA :: u8 where "PFT_DMA \<equiv> 0x09"
abbreviation (input) PFT_PFDB :: u8 where "PFT_PFDB \<equiv> 0x0A"
abbreviation (input) PFT_SYS :: u8 where "PFT_SYS \<equiv> 0x0B"
abbreviation (input) PFT_TCB :: u8 where "PFT_TCB \<equiv> 0x0C"
abbreviation (input) PFT_BOOT :: u8 where "PFT_BOOT \<equiv> 0x0D"
abbreviation (input) PFT_FMAP :: u8 where "PFT_FMAP \<equiv> 0x0E"
abbreviation (input) PFT_KMEM :: u8 where "PFT_KMEM \<equiv> 0x10"
abbreviation (input) PFT_KMOD :: u8 where "PFT_KMOD \<equiv> 0x11"
abbreviation (input) PFT_VM :: u8 where "PFT_VM \<equiv> 0x13"
abbreviation (input) PFT_HEAP :: u8 where "PFT_HEAP \<equiv> 0x14"

definition INVALID_PFRAME :: u32 where
  "INVALID_PFRAME = 0xFFFFFFFF"

section \<open>Operations\<close>

text \<open>The accessor macros; an index outside the frame array is a fault.\<close>

definition PFRAME_GET_TAG :: "'a pframe_db_scheme \<Rightarrow> nat \<Rightarrow> u8 outcome" where
  "PFRAME_GET_TAG s index =
     (if index < length (frameArray s) then Returns (low_byte (frameArray s ! index))
      else Faults)"

definition PFRAME_SET_TAG :: "nat \<Rightarrow> u8 \<Rightarrow> 'a pframe_db_scheme \<Rightarrow> 'a pframe_db_scheme outcome" where
  "PFRAME_SET_TAG index v s =
     (if index < length (frameArray s)
      then Returns (s\<lparr>frameArray := (frameArray s)[index := with_low_byte (frameArray s ! index) v]\<rparr>)
      else Faults)"

definition PFRAME_GET_EXTRA :: "'a pframe_db_scheme \<Rightarrow> nat \<Rightarrow> u8 outcome" where
  "PFRAME_GET_EXTRA s index =
     (if index < length (frameArray s)
      then Returns (high_byte (frameArray s ! index)) else Faults)"

definition PFRAME_SET_EXTRA :: "nat \<Rightarrow> u8 \<Rightarrow> 'a pframe_db_scheme \<Rightarrow> 'a pframe_db_scheme outcome" where
  "PFRAME_SET_EXTRA index v s =
     (if index < length (frameArray s)
      then Returns (s\<lparr>frameArray := (frameArray s)[index := with_high_byte (frameArray s ! index) v]\<rparr>)
      else Faults)"

text \<open>The inner loop of \<^verbatim>\<open>kpframe_alloc\<close>: the length of the free run at \<open>i\<close>, up to \<open>count\<close>.\<close>

function kpframe_run :: "'a pframe_db_scheme \<Rightarrow> nat \<Rightarrow> nat \<Rightarrow> nat \<Rightarrow> nat outcome" where
  "kpframe_run s i j count =
     (if j < count then
        bind_outcome (PFRAME_GET_TAG s (i + j)) (\<lambda>tag.
          if tag = PFT_FREE then kpframe_run s i (j + 1) count else Returns j)
      else Returns j)"
  by pat_completeness auto
termination
  by (relation "measure (\<lambda>(s, i, j, count). count - j)") auto

declare kpframe_run.simps [simp del]

text \<open>The outer loop: the first frame that starts a long enough run.\<close>

function kpframe_search :: "'a pframe_db_scheme \<Rightarrow> nat \<Rightarrow> nat \<Rightarrow> nat option outcome" where
  "kpframe_search s i count =
     (if i < unat (frameCount s) then
        bind_outcome (PFRAME_GET_TAG s i) (\<lambda>tag.
          if tag \<noteq> PFT_FREE then kpframe_search s (i + 1) count
          else bind_outcome (kpframe_run s i 0 count) (\<lambda>j.
            if j = count then Returns (Some i) else kpframe_search s (i + 1) count))
      else Returns None)"
  by pat_completeness auto
termination
  by (relation "measure (\<lambda>(s, i, count). unat (frameCount s) - i)") auto

declare kpframe_search.simps [simp del]

definition kpframe_alloc :: "u32 \<Rightarrow> u8 \<Rightarrow> 'a pframe_db_scheme \<Rightarrow> (u32 \<times> 'a pframe_db_scheme) outcome" where
  "kpframe_alloc count tag s =
     (if count = 0 then Returns (INVALID_PFRAME, s)
      else if tag = PFT_FREE then Panics ''Can not allocate with tag PFT_FREE''
      else if freeCount s < count then Returns (INVALID_PFRAME, s)
      else bind_outcome (kpframe_search s 0 (unat count)) (\<lambda>found.
        case found of
          None \<Rightarrow> Returns (INVALID_PFRAME, s)
        | Some i \<Rightarrow>
            bind_outcome (for_each [0..<unat count] (\<lambda>j. PFRAME_SET_TAG (i + j) tag) s) (\<lambda>s.
              Returns (of_nat i, s\<lparr>freeCount := freeCount s - count\<rparr>))))"

definition kpframe_free :: "u32 \<Rightarrow> 'a pframe_db_scheme \<Rightarrow> 'a pframe_db_scheme outcome" where
  "kpframe_free frame s =
     (if frame \<ge> frameCount s then Returns s
      else bind_outcome (PFRAME_SET_TAG (unat frame) PFT_FREE s) (\<lambda>s.
        Returns (s\<lparr>freeCount := freeCount s + 1\<rparr>)))"

section \<open>Invariant and abstraction\<close>

definition frame_tag :: "'a pframe_db_scheme \<Rightarrow> nat \<Rightarrow> u8" where
  "frame_tag s i = low_byte (frameArray s ! i)"

definition frame_extra :: "'a pframe_db_scheme \<Rightarrow> nat \<Rightarrow> u8" where
  "frame_extra s i = high_byte (frameArray s ! i)"

text \<open>
  The database covers all frames and has an entry after the last one that is not free; frame
  numbers fit a 20-bit page number.
\<close>

definition pframe_ok :: "'a pframe_db_scheme \<Rightarrow> bool" where
  "pframe_ok s \<longleftrightarrow> unat (frameCount s) < length (frameArray s) \<and> unat (frameCount s) \<le> 2 ^ 20
     \<and> frame_tag s (unat (frameCount s)) \<noteq> PFT_FREE"

definition free_run :: "'a pframe_db_scheme \<Rightarrow> nat \<Rightarrow> nat \<Rightarrow> bool" where
  "free_run s i n \<longleftrightarrow> i + n \<le> unat (frameCount s) \<and> (\<forall>k\<in>{i..<i + n}. frame_tag s k = PFT_FREE)"

definition free_frames :: "'a pframe_db_scheme \<Rightarrow> nat set" where
  "free_frames s = {i. i < unat (frameCount s) \<and> frame_tag s i = PFT_FREE}"

text \<open>How far the counter of free frames is below their number; 0 when it is exact.\<close>

definition count_drift :: "'a pframe_db_scheme \<Rightarrow> u32" where
  "count_drift s = of_nat (card (free_frames s)) - freeCount s"

text \<open>The frames \<open>i..<i + n\<close> get a tag; nothing else of the database changes but the counter.\<close>

definition retagged :: "'a pframe_db_scheme \<Rightarrow> nat \<Rightarrow> nat \<Rightarrow> u8 \<Rightarrow> 'b pframe_db_scheme \<Rightarrow> bool" where
  "retagged s i n tag s' \<longleftrightarrow>
     length (frameArray s') = length (frameArray s)
     \<and> (\<forall>k < length (frameArray s). frame_tag s' k = (if k \<in> {i..<i + n} then tag else frame_tag s k)
                                     \<and> frame_extra s' k = frame_extra s k)
     \<and> frameCount s' = frameCount s \<and> useableCount s' = useableCount s"

definition pframe_example :: pframe_db where
  "pframe_example = \<lparr>freeCount = 4, useableCount = 5, frameCount = 7,
     frameArray = [3, 1, 8, 1, 1, 1, 7, 0]\<rparr>"

text \<open>A database that fills its array exactly: no entry follows the last frame.\<close>

definition pframe_tight :: pframe_db where
  "pframe_tight = \<lparr>freeCount = 2, useableCount = 3, frameCount = 4, frameArray = [3, 1, 8, 1]\<rparr>"

section \<open>Tags\<close>

lemma frame_tag_less: "PFRAME_GET_TAG s i = (if i < length (frameArray s) then Returns (frame_tag s i) else Faults)"
  by (simp add: PFRAME_GET_TAG_def frame_tag_def)

lemma PFRAME_SET_TAG_retagged:
  assumes "i < length (frameArray s)"
  shows "\<exists>s'. PFRAME_SET_TAG i tag s = Returns s' \<and> retagged s i 1 tag s' \<and> freeCount s' = freeCount s
           \<and> pframe_db.more s' = pframe_db.more s"
  using assms by (auto simp: PFRAME_SET_TAG_def retagged_def frame_tag_def frame_extra_def nth_list_update)

lemma retagged_refl: "retagged s i 0 tag s"
  by (simp add: retagged_def)

lemma retagged_step:
  assumes "retagged s i n tag s1" "retagged s1 (i + n) 1 tag s2"
  shows "retagged s i (Suc n) tag s2"
  using assms by (auto simp: retagged_def)

lemma set_tags_retagged:
  assumes "i + n \<le> length (frameArray s)"
  shows "\<exists>s'. for_each [0..<n] (\<lambda>j. PFRAME_SET_TAG (i + j) tag) s = Returns s'
           \<and> retagged s i n tag s' \<and> freeCount s' = freeCount s \<and> pframe_db.more s' = pframe_db.more s"
    (is "\<exists>s'. _ \<and> ?P n s'")
proof (rule for_each_upt [where P = ?P])
  fix k s1 assume k: "k < n" and P: "?P k s1"
  then have "i + k < length (frameArray s1)" using assms by (simp add: retagged_def)
  then obtain s2 where S: "PFRAME_SET_TAG (i + k) tag s1 = Returns s2" "retagged s1 (i + k) 1 tag s2"
    "freeCount s2 = freeCount s1" "pframe_db.more s2 = pframe_db.more s1"
    using PFRAME_SET_TAG_retagged by blast
  with P retagged_step [of s i k tag s1 s2] show "\<exists>s2. PFRAME_SET_TAG (i + k) tag s1 = Returns s2 \<and> ?P (Suc k) s2"
    by auto
qed (simp add: retagged_refl)

section \<open>Searching a run\<close>

lemma kpframe_run_correct:
  assumes "pframe_ok s" "i < unat (frameCount s)" "i + j \<le> unat (frameCount s)" "j \<le> count"
    and "\<forall>k\<in>{i..<i + j}. frame_tag s k = PFT_FREE"
  shows "\<exists>n. kpframe_run s i j count = Returns n \<and> (n = count \<longleftrightarrow> free_run s i count)"
  using assms
proof (induction "count - j" arbitrary: j)
  case 0
  then show ?case by (subst kpframe_run.simps) (auto simp: free_run_def)
next
  case (Suc m)
  have j: "j < count" using Suc.hyps(2) by simp
  have inb: "i + j < length (frameArray s)" using Suc.prems(1,3) by (simp add: pframe_ok_def)
  show ?case
  proof (cases "frame_tag s (i + j) = PFT_FREE")
    case True
    then have "i + j \<noteq> unat (frameCount s)" using Suc.prems(1) by (auto simp: pframe_ok_def)
    then have "\<exists>n. kpframe_run s i (j + 1) count = Returns n \<and> (n = count \<longleftrightarrow> free_run s i count)"
      using Suc.prems Suc.hyps(2) j True by (intro Suc.hyps(1)) (auto simp: less_Suc_eq)
    then show ?thesis using j inb True by (subst kpframe_run.simps) (simp add: frame_tag_less)
  next
    case False
    then have "\<not> free_run s i count" using j by (auto simp: free_run_def)
    then show ?thesis using j inb False by (subst kpframe_run.simps) (simp add: frame_tag_less)
  qed
qed

lemma kpframe_search_correct:
  assumes "pframe_ok s" "0 < count"
  shows "\<exists>r. kpframe_search s i count = Returns r \<and>
     (case r of None \<Rightarrow> \<forall>k\<ge>i. \<not> free_run s k count
      | Some f \<Rightarrow> i \<le> f \<and> free_run s f count \<and> (\<forall>k. i \<le> k \<and> k < f \<longrightarrow> \<not> free_run s k count))"
proof (induction "unat (frameCount s) - i" arbitrary: i)
  case 0
  then show ?case using assms(2) by (subst kpframe_search.simps) (auto simp: free_run_def)
next
  case (Suc m)
  then have i: "i < unat (frameCount s)" by simp
  then have inb: "i < length (frameArray s)" using assms(1) by (simp add: pframe_ok_def)
  have m: "m = unat (frameCount s) - (i + 1)" using Suc.hyps(2) by simp
  obtain r where IH: "kpframe_search s (i + 1) count = Returns r"
     "case r of None \<Rightarrow> \<forall>k\<ge>i + 1. \<not> free_run s k count
      | Some f \<Rightarrow> i + 1 \<le> f \<and> free_run s f count \<and> (\<forall>k. i + 1 \<le> k \<and> k < f \<longrightarrow> \<not> free_run s k count)"
    using Suc.hyps(1) [OF m] by blast
  obtain n where R: "kpframe_run s i 0 count = Returns n" "n = count \<longleftrightarrow> free_run s i count"
    using kpframe_run_correct [OF assms(1) i, of 0 count] i by auto
  show ?case
  proof (cases "free_run s i count")
    case True
    then have "frame_tag s i = PFT_FREE" using assms(2) by (simp add: free_run_def)
    then show ?thesis using i inb R True by (subst kpframe_search.simps) (auto simp: frame_tag_less)
  next
    case False
    then have "kpframe_search s i count = Returns r"
      using i inb R IH(1) by (subst kpframe_search.simps) (simp add: frame_tag_less)
    moreover have "\<not> free_run s k count" if "i + 1 \<le> k \<longrightarrow> \<not> free_run s k count" "i \<le> k" for k
      using that False by (cases "k = i") auto
    ultimately show ?thesis using IH(2) by (auto split: option.splits)
  qed
qed

lemma INVALID_PFRAME_neq: "n < 2 ^ 20 \<Longrightarrow> of_nat n \<noteq> INVALID_PFRAME"
  using unat_of_nat_u32 [of n] by (auto simp: INVALID_PFRAME_def)

lemma kpframe_alloc_law:
  assumes ok: "pframe_ok s" and count: "count \<noteq> 0" and tag: "tag \<noteq> PFT_FREE"
  shows "\<exists>i s'. kpframe_alloc count tag s = Returns (i, s') \<and>
     (if i = INVALID_PFRAME
      then s' = s \<and> (freeCount s < count \<or> (\<forall>k. \<not> free_run s k (unat count)))
      else free_run s (unat i) (unat count) \<and> (\<forall>k < unat i. \<not> free_run s k (unat count))
           \<and> retagged s (unat i) (unat count) tag s' \<and> freeCount s' = freeCount s - count
           \<and> count \<le> freeCount s \<and> pframe_db.more s' = pframe_db.more s)"
proof (cases "freeCount s < count")
  case True
  then show ?thesis using count tag by (simp add: kpframe_alloc_def)
next
  case False
  have pos: "0 < unat count" using count by (simp add: unat_gt_0)
  obtain r where R: "kpframe_search s 0 (unat count) = Returns r"
     "case r of None \<Rightarrow> \<forall>k\<ge>0. \<not> free_run s k (unat count)
      | Some f \<Rightarrow> 0 \<le> f \<and> free_run s f (unat count) \<and> (\<forall>k. 0 \<le> k \<and> k < f \<longrightarrow> \<not> free_run s k (unat count))"
    using kpframe_search_correct [OF ok pos, of 0] by blast
  show ?thesis
  proof (cases r)
    case None
    then show ?thesis using count tag False R by (simp add: kpframe_alloc_def)
  next
    case (Some f)
    then have f: "free_run s f (unat count)" "\<forall>k<f. \<not> free_run s k (unat count)" using R(2) by auto
    then have "f < 2 ^ 20" using ok pos by (simp add: free_run_def pframe_ok_def)
    then have idx: "unat (of_nat f :: u32) = f" "of_nat f \<noteq> INVALID_PFRAME"
      by (simp_all add: unat_of_nat_u32 INVALID_PFRAME_neq)
    have inb: "f + unat count \<le> length (frameArray s)" using f ok by (simp add: free_run_def pframe_ok_def)
    obtain s1 where S: "for_each [0..<unat count] (\<lambda>j. PFRAME_SET_TAG (f + j) tag) s = Returns s1"
      "retagged s f (unat count) tag s1" "freeCount s1 = freeCount s" "pframe_db.more s1 = pframe_db.more s"
      using set_tags_retagged [OF inb] by blast
    have "kpframe_alloc count tag s = Returns (of_nat f, s1\<lparr>freeCount := freeCount s - count\<rparr>)"
      using count tag False R(1) Some S by (simp add: kpframe_alloc_def)
    moreover have "retagged s f (unat count) tag (s1\<lparr>freeCount := freeCount s - count\<rparr>)"
      using S(2) by (auto simp: retagged_def frame_tag_def frame_extra_def)
    ultimately show ?thesis using f idx False S(4) by auto
  qed
qed

lemma kpframe_free_law:
  assumes ok: "pframe_ok s"
  shows "\<exists>s'. kpframe_free frame s = Returns s' \<and>
     (if frame < frameCount s
      then retagged s (unat frame) 1 PFT_FREE s' \<and> freeCount s' = freeCount s + 1
           \<and> pframe_db.more s' = pframe_db.more s else s' = s)"
proof (cases "frame < frameCount s")
  case True
  then have "unat frame < length (frameArray s)" using ok by (simp add: pframe_ok_def word_less_nat_alt)
  then obtain s1 where S: "PFRAME_SET_TAG (unat frame) PFT_FREE s = Returns s1"
    "retagged s (unat frame) 1 PFT_FREE s1" "freeCount s1 = freeCount s" "pframe_db.more s1 = pframe_db.more s"
    using PFRAME_SET_TAG_retagged by blast
  then have "retagged s (unat frame) 1 PFT_FREE (s1\<lparr>freeCount := freeCount s1 + 1\<rparr>)"
    by (auto simp: retagged_def frame_tag_def frame_extra_def)
  then show ?thesis using True S by (auto simp: kpframe_free_def)
qed (auto simp: kpframe_free_def)

lemma retagged_ok:
  assumes "pframe_ok s" "retagged s i n tag s'" "i + n \<le> unat (frameCount s)"
  shows "pframe_ok s'"
  using assms by (auto simp: pframe_ok_def retagged_def)

lemma retagged_tag:
  assumes "retagged s i n tag s'" "k < length (frameArray s)"
  shows "frame_tag s' k = (if k \<in> {i..<i + n} then tag else frame_tag s k)"
  using assms by (simp add: retagged_def)

lemma retagged_free_frames:
  assumes ok: "pframe_ok s" and re: "retagged s i n tag s'" and lim: "i + n \<le> unat (frameCount s)"
  shows "free_frames s' = (if tag = PFT_FREE then free_frames s \<union> {i..<i + n} else free_frames s - {i..<i + n})"
proof (rule set_eqI)
  fix k
  have eq: "frameCount s' = frameCount s" using re by (simp add: retagged_def)
  show "k \<in> free_frames s' \<longleftrightarrow>
      k \<in> (if tag = PFT_FREE then free_frames s \<union> {i..<i + n} else free_frames s - {i..<i + n})"
  proof (cases "k < unat (frameCount s)")
    case True
    then have "k < length (frameArray s)" using ok by (simp add: pframe_ok_def)
    then show ?thesis using True eq by (auto simp: free_frames_def retagged_tag [OF re])
  next
    case False
    then show ?thesis using eq lim by (simp add: free_frames_def)
  qed
qed

lemma finite_free_frames [simp]: "finite (free_frames s)"
  by (simp add: free_frames_def)

lemma free_run_frames: "free_run s i n \<Longrightarrow> {i..<i + n} \<subseteq> free_frames s"
  by (auto simp: free_run_def free_frames_def)

lemma retagged_drift:
  assumes ok: "pframe_ok s" and re: "retagged s i n tag s'" and lim: "i + n \<le> unat (frameCount s)"
  shows "{i..<i + n} \<subseteq> free_frames s \<Longrightarrow> tag \<noteq> PFT_FREE \<Longrightarrow> freeCount s' = freeCount s - of_nat n
           \<Longrightarrow> count_drift s' = count_drift s"
    and "{i..<i + n} \<inter> free_frames s = {} \<Longrightarrow> tag = PFT_FREE \<Longrightarrow> freeCount s' = freeCount s + of_nat n
           \<Longrightarrow> count_drift s' = count_drift s"
proof -
  note F = retagged_free_frames [OF ok re lim]
  show "count_drift s' = count_drift s"
    if sub: "{i..<i + n} \<subseteq> free_frames s" and "tag \<noteq> PFT_FREE" and "freeCount s' = freeCount s - of_nat n"
  proof -
    have "card (free_frames s - {i..<i + n}) + n = card (free_frames s)"
      using sub card_mono [OF finite_free_frames sub] by (simp add: card_Diff_subset)
    then have "(of_nat (card (free_frames s)) :: u32) = of_nat (card (free_frames s - {i..<i + n})) + of_nat n"
      by (metis of_nat_add)
    then show ?thesis using that F by (simp add: count_drift_def)
  qed
  show "count_drift s' = count_drift s"
    if "{i..<i + n} \<inter> free_frames s = {}" "tag = PFT_FREE" "freeCount s' = freeCount s + of_nat n"
    using that F by (simp add: count_drift_def card_Un_disjoint Int_commute)
qed

lemma kpframe_alloc_drift:
  assumes ok: "pframe_ok s" and al: "kpframe_alloc count tag s = Returns (i, s')"
  shows "count_drift s' = count_drift s"
proof (cases "count = 0 \<or> tag = PFT_FREE")
  case True
  then show ?thesis using al by (auto simp: kpframe_alloc_def split: if_splits)
next
  case False
  then show ?thesis
    using kpframe_alloc_law [OF ok, of count tag] al
      retagged_drift(1) [OF ok, of "unat i" "unat count" tag s']
    by (auto simp: free_run_frames free_run_def split: if_splits)
qed

lemma kpframe_free_drift:
  assumes ok: "pframe_ok s" and fr: "kpframe_free frame s = Returns s'"
  shows "count_drift s' = (if unat frame \<in> free_frames s then count_drift s - 1 else count_drift s)"
proof (cases "frame < frameCount s")
  case True
  then have lim: "unat frame + 1 \<le> unat (frameCount s)" by (simp add: word_less_nat_alt)
  have re: "retagged s (unat frame) 1 PFT_FREE s'" and count: "freeCount s' = freeCount s + 1"
    using kpframe_free_law [OF ok, of frame] fr True by auto
  show ?thesis
  proof (cases "unat frame \<in> free_frames s")
    case True
    then have "free_frames s' = free_frames s"
      using retagged_free_frames [OF ok re lim] by auto
    then show ?thesis using True count by (simp add: count_drift_def)
  next
    case False
    then show ?thesis using retagged_drift(2) [OF ok re lim] count by simp
  qed
next
  case False
  then have "unat frame \<notin> free_frames s" by (simp add: free_frames_def word_less_nat_alt)
  then show ?thesis using fr False by (simp add: kpframe_free_def leI)
qed

lemma pframe_example_ok: "pframe_ok pframe_example"
  by (simp add: pframe_ok_def pframe_example_def frame_tag_def low_byte_def)

section \<open>Properties\<close>

text \<open>
  C20. Allocating \<open>count\<close> frames always returns. It hands out the lowest run of \<open>count\<close> free
  frames, gives exactly these frames the tag and lowers the counter; it returns
  \<^verbatim>\<open>INVALID_PFRAME\<close> and changes nothing when the counter is too low or no such run exists.
\<close>

theorem kpframe_alloc_correct:
  assumes "pframe_ok s" and "count \<noteq> 0" and "tag \<noteq> PFT_FREE"
  shows "\<exists>i s'. kpframe_alloc count tag s = Returns (i, s') \<and>
     (if i = INVALID_PFRAME
      then s' = s \<and> (freeCount s < count \<or> (\<forall>k. \<not> free_run s k (unat count)))
      else free_run s (unat i) (unat count) \<and> (\<forall>k < unat i. \<not> free_run s k (unat count))
           \<and> retagged s (unat i) (unat count) tag s' \<and> freeCount s' = freeCount s - count
           \<and> count \<le> freeCount s \<and> pframe_db.more s' = pframe_db.more s)"
  using assms by (rule kpframe_alloc_law)

theorem kpframe_alloc_correct_witness:
  "kpframe_alloc 2 PFT_KMEM pframe_example = Returns (3,
     \<lparr>freeCount = 2, useableCount = 5, frameCount = 7, frameArray = [3, 1, 8, 0x10, 0x10, 1, 7, 0]\<rparr>)
   \<and> free_run pframe_example 3 2 \<and> \<not> free_run pframe_example 2 2"
proof -
  have run: "kpframe_alloc 2 PFT_KMEM pframe_example = Returns (3,
     \<lparr>freeCount = 2, useableCount = 5, frameCount = 7, frameArray = [3, 1, 8, 0x10, 0x10, 1, 7, 0]\<rparr>)"
    by code_simp
  then show ?thesis
    using kpframe_alloc_correct [OF pframe_example_ok, of 2 PFT_KMEM]
    by (simp add: INVALID_PFRAME_def)
qed

text \<open>
  C28. The counter of free frames follows the tags: allocating, and freeing a frame that is not
  free, keep the difference between the number of free frames and the counter. Freeing a
  frame that is already free makes the counter one too high.
\<close>

theorem free_count_follows:
  assumes "pframe_ok s"
  shows "(\<forall>i s'. kpframe_alloc count tag s = Returns (i, s') \<longrightarrow> count_drift s' = count_drift s)
     \<and> (\<forall>s'. kpframe_free frame s = Returns s' \<longrightarrow>
           count_drift s' = (if unat frame \<in> free_frames s then count_drift s - 1 else count_drift s))"
  using kpframe_alloc_drift [OF assms] kpframe_free_drift [OF assms] by blast

theorem free_count_follows_witness:
  "\<exists>s'. kpframe_free 1 pframe_example = Returns s' \<and> count_drift s' = count_drift pframe_example - 1"
proof -
  have "unat (1 :: u32) \<in> free_frames pframe_example"
    by (simp add: free_frames_def pframe_example_def frame_tag_def low_byte_def)
  moreover have "kpframe_free 1 pframe_example =
      Returns \<lparr>freeCount = 5, useableCount = 5, frameCount = 7, frameArray = [3, 1, 8, 1, 1, 1, 7, 0]\<rparr>"
    by code_simp
  ultimately show ?thesis
    using free_count_follows [OF pframe_example_ok, where frame = 1] by auto
qed


end
