(* ===== verification/Addr.thy ===== *)
theory Addr
  imports Prelude
begin

text \<open>
  The address macros of \<^verbatim>\<open>src/src/include/os/pdir.h\<close> and the kernel address space layout of
  \<^verbatim>\<open>syspage.h\<close>, with their arithmetic meaning.
\<close>

section \<open>Macros\<close>

abbreviation (input) PAGESIZE :: u32 where "PAGESIZE \<equiv> 4096"
abbreviation (input) PT_PRESENT :: u32 where "PT_PRESENT \<equiv> 0x001"
abbreviation (input) PT_WRITABLE :: u32 where "PT_WRITABLE \<equiv> 0x002"
abbreviation (input) PT_USER :: u32 where "PT_USER \<equiv> 0x004"
abbreviation (input) PT_ACCESSED :: u32 where "PT_ACCESSED \<equiv> 0x020"
abbreviation (input) PT_DIRTY :: u32 where "PT_DIRTY \<equiv> 0x040"
abbreviation (input) PT_GUARD :: u32 where "PT_GUARD \<equiv> 0x200"
abbreviation (input) PT_FILE :: u32 where "PT_FILE \<equiv> 0x400"

definition PT_FLAGMASK :: u32 where
  "PT_FLAGMASK = PT_PRESENT OR PT_WRITABLE OR PT_USER OR PT_ACCESSED OR PT_DIRTY OR PT_GUARD OR PT_FILE"

definition PT_PFNMASK :: u32 where
  "PT_PFNMASK = 0xFFFFF000"

abbreviation (input) OSBASE :: u32 where "OSBASE \<equiv> 0x80000000"
abbreviation (input) PFDBBASE :: u32 where "PFDBBASE \<equiv> 0x90800000"
abbreviation (input) SYSPAGE_ADDRESS :: u32 where "SYSPAGE_ADDRESS \<equiv> 0x90400000"
abbreviation (input) INITRD_ADDRESS :: u32 where "INITRD_ADDRESS \<equiv> 0x90420000"

definition PDEIDX :: "u32 \<Rightarrow> u32" where
  "PDEIDX vaddr = drop_bit 22 vaddr"

definition PTABIDX :: "u32 \<Rightarrow> u32" where
  "PTABIDX vaddr = drop_bit 12 vaddr"

definition PGOFF :: "u32 \<Rightarrow> u32" where
  "PGOFF vaddr = vaddr AND 0xFFF"

definition PAGES :: "u32 \<Rightarrow> u32" where
  "PAGES x = drop_bit 12 (x + (PAGESIZE - 1))"

definition PAGEADDR :: "u32 \<Rightarrow> u32" where
  "PAGEADDR x = x AND NOT (PAGESIZE - 1)"

definition PTOB :: "u32 \<Rightarrow> u32" where
  "PTOB x = push_bit 12 x"

definition BTOP :: "u32 \<Rightarrow> u32" where
  "BTOP x = drop_bit 12 x"

definition USERSPACE :: "u32 \<Rightarrow> bool" where
  "USERSPACE addr \<longleftrightarrow> addr < OSBASE"

definition KERNELSPACE :: "u32 \<Rightarrow> bool" where
  "KERNELSPACE addr \<longleftrightarrow> addr \<ge> OSBASE"

section \<open>Their values\<close>

lemma unat_PDEIDX: "unat (PDEIDX v) = unat v div 2 ^ 22"
  by (simp add: PDEIDX_def drop_bit_eq_div unat_div)

lemma unat_PTABIDX: "unat (PTABIDX v) = unat v div 4096"
  by (simp add: PTABIDX_def drop_bit_eq_div unat_div)

lemma unat_BTOP: "unat (BTOP v) = unat v div 4096"
  by (simp add: BTOP_def drop_bit_eq_div unat_div)

lemma PGOFF_take_bit: "PGOFF v = take_bit 12 v"
proof -
  have "(0xFFF :: u32) = mask 12" by (simp add: mask_eq_exp_minus_1)
  then show ?thesis by (simp only: PGOFF_def take_bit_eq_mask)
qed

lemma unat_PGOFF: "unat (PGOFF v) = unat v mod 4096"
  by (simp add: PGOFF_take_bit take_bit_eq_mod unat_mod)

lemma unat_PTOB: "unat (PTOB x) = unat x * 4096 mod 2 ^ 32"
  by (simp add: PTOB_def push_bit_eq_mult unat_word_ariths)

lemma bit_PFNMASK: "bit PT_PFNMASK n \<longleftrightarrow> 12 \<le> n \<and> n < 32"
proof -
  have eq: "PT_PFNMASK = push_bit 12 (mask 20)" by (simp add: PT_PFNMASK_def mask_eq_exp_minus_1 push_bit_eq_mult)
  show ?thesis unfolding eq bit_push_bit_iff bit_mask_iff by auto
qed

lemma PFNMASK_of_pte:
  assumes "flags AND PT_PFNMASK = 0"
  shows "(PTOB frame OR flags) AND PT_PFNMASK = PTOB frame"
proof (rule bit_word_eqI)
  fix n assume n: "n < LENGTH(32)"
  have "bit (flags AND PT_PFNMASK) n = False" using assms by simp
  then show "bit ((PTOB frame OR flags) AND PT_PFNMASK) n = bit (PTOB frame) n"
    using n by (auto simp: bit_simps bit_PFNMASK PTOB_def)
qed

lemma unat_PGOFF_Suc: "unat (PGOFF (p + 1)) = Suc (unat (PGOFF p)) mod 4096"
proof -
  have "unat (p + 1) mod 4096 = (unat p + 1) mod 4096"
    by (simp add: unat_word_ariths mod_mod_cancel)
  then show ?thesis by (simp add: unat_PGOFF mod_Suc_eq)
qed

end
