(* ===== verification/Pdir.thy ===== *)
theory Pdir
  imports Pframe Addr
begin

text \<open>
  Paging, \<^verbatim>\<open>src/src/sys/kernel/pdir.c\<close>, and the parts of \<^verbatim>\<open>pframe.c\<close> that go through the page
  tables. The page directory and the window on all page tables are arrays indexed by a page
  directory index and a page number. The window shows a page table only where the directory
  has one: reading or writing an entry of an absent table is a fault.
\<close>

section \<open>Data\<close>

record paging = pframe_db +
  pdir :: "u32 \<Rightarrow> u32"
  ptab :: "u32 \<Rightarrow> u32"

section \<open>Operations of pdir.c\<close>

definition GET_PDE :: "'a paging_scheme \<Rightarrow> u32 \<Rightarrow> u32" where
  "GET_PDE s vaddr = pdir s (PDEIDX vaddr)"

definition SET_PDE :: "u32 \<Rightarrow> u32 \<Rightarrow> 'a paging_scheme \<Rightarrow> 'a paging_scheme" where
  "SET_PDE vaddr v s = s\<lparr>pdir := (pdir s)(PDEIDX vaddr := v)\<rparr>"

definition GET_PTE :: "'a paging_scheme \<Rightarrow> u32 \<Rightarrow> u32 outcome" where
  "GET_PTE s vaddr =
     (if GET_PDE s vaddr AND PT_PRESENT = 0 then Faults else Returns (ptab s (PTABIDX vaddr)))"

definition SET_PTE :: "u32 \<Rightarrow> u32 \<Rightarrow> 'a paging_scheme \<Rightarrow> 'a paging_scheme outcome" where
  "SET_PTE vaddr v s =
     (if GET_PDE s vaddr AND PT_PRESENT = 0 then Faults
      else Returns (s\<lparr>ptab := (ptab s)(PTABIDX vaddr := v)\<rparr>))"

text \<open>Zeroing the page table that maps \<open>vaddr\<close> (\<^verbatim>\<open>memset\<close> on its page in the window).\<close>

definition clear_ptab :: "u32 \<Rightarrow> 'a paging_scheme \<Rightarrow> 'a paging_scheme" where
  "clear_ptab vaddr s = s\<lparr>ptab := (\<lambda>k. if drop_bit 10 k = PDEIDX vaddr then 0 else ptab s k)\<rparr>"

definition kpage_initialize :: "'a paging_scheme \<Rightarrow> 'a paging_scheme outcome" where
  "kpage_initialize s = for_each [0..<1024] (\<lambda>i. SET_PTE (PTOB (of_nat i)) 0) s"

text \<open>
  A page table needs a frame of its own. The code does not check that it got one; a table at
  frame \<^verbatim>\<open>INVALID_PFRAME\<close> lies outside physical memory, and zeroing it is a fault.
\<close>

definition kpage_map :: "u32 \<Rightarrow> u32 \<Rightarrow> u32 \<Rightarrow> 'a paging_scheme \<Rightarrow> 'a paging_scheme outcome" where
  "kpage_map vaddress frame flags s =
     bind_outcome
       (if GET_PDE s vaddress AND PT_PRESENT = 0 then
          bind_outcome (kpframe_alloc 1 PFT_PTAB s) (\<lambda>(pdfn, s).
            if pdfn = INVALID_PFRAME then Faults
            else
              let s = (if USERSPACE vaddress
                       then SET_PDE vaddress (PTOB pdfn OR PT_PRESENT OR PT_WRITABLE OR PT_USER) s
                       else SET_PDE vaddress (PTOB pdfn OR PT_PRESENT OR PT_WRITABLE) s)
              in Returns (clear_ptab vaddress s))
        else Returns s)
       (SET_PTE vaddress (PTOB frame OR flags))"

definition kpage_unmap :: "u32 \<Rightarrow> 'a paging_scheme \<Rightarrow> 'a paging_scheme outcome" where
  "kpage_unmap vaddress s = SET_PTE vaddress 0 s"

definition kpage_virt2phys :: "'a paging_scheme \<Rightarrow> u32 \<Rightarrow> u32 outcome" where
  "kpage_virt2phys s vaddress =
     bind_outcome (GET_PTE s vaddress) (\<lambda>pte. Returns ((pte AND PT_PFNMASK) + PGOFF vaddress))"

definition kpage_virt2frame :: "'a paging_scheme \<Rightarrow> u32 \<Rightarrow> u32 outcome" where
  "kpage_virt2frame s vaddress =
     bind_outcome (GET_PTE s vaddress) (\<lambda>pte. Returns (BTOP (pte AND PT_PFNMASK)))"

definition kpage_get_flags :: "'a paging_scheme \<Rightarrow> u32 \<Rightarrow> u32 outcome" where
  "kpage_get_flags s vaddress =
     bind_outcome (GET_PTE s vaddress) (\<lambda>pte. Returns (pte AND PT_FLAGMASK))"

definition kpage_set_flags :: "u32 \<Rightarrow> u32 \<Rightarrow> 'a paging_scheme \<Rightarrow> 'a paging_scheme outcome" where
  "kpage_set_flags vaddress flags s =
     bind_outcome (GET_PTE s vaddress) (\<lambda>pte.
       SET_PTE vaddress ((pte AND PT_PFNMASK) OR flags) s)"

definition kpage_is_mapped :: "'a paging_scheme \<Rightarrow> u32 \<Rightarrow> int" where
  "kpage_is_mapped s vaddress =
     (if GET_PDE s vaddress AND PT_PRESENT = 0 then 0
      else if ptab s (PTABIDX vaddress) AND PT_PRESENT = 0 then 0
      else 1)"

definition kpage_is_directory_mapped :: "'a paging_scheme \<Rightarrow> u32 \<Rightarrow> int" where
  "kpage_is_directory_mapped s vaddress = (if GET_PDE s vaddress AND PT_PRESENT \<noteq> 0 then 1 else 0)"

definition kpage_unguard :: "u32 \<Rightarrow> 'a paging_scheme \<Rightarrow> 'a paging_scheme outcome" where
  "kpage_unguard vaddress s =
     bind_outcome (GET_PTE s vaddress) (\<lambda>pte. SET_PTE vaddress ((pte AND NOT PT_GUARD) OR PT_USER) s)"

definition kpage_clear_dirty :: "u32 \<Rightarrow> 'a paging_scheme \<Rightarrow> 'a paging_scheme outcome" where
  "kpage_clear_dirty vaddress s =
     bind_outcome (GET_PTE s vaddress) (\<lambda>pte. SET_PTE vaddress (pte AND NOT PT_DIRTY) s)"

text \<open>The loop of \<^verbatim>\<open>mem_access\<close>; \<open>addr\<close> and \<open>next\<close> advance, \<open>vaddress\<close> does not.\<close>

partial_function (option) mem_access_loop ::
  "'a paging_scheme \<Rightarrow> u32 \<Rightarrow> u32 \<Rightarrow> int \<Rightarrow> u32 \<Rightarrow> u32 \<Rightarrow> int option" where
  "mem_access_loop s vaddress acc sz addr nxt =
     (if GET_PDE s vaddress AND PT_PRESENT = 0 then Some 0
      else if ptab s (PTABIDX vaddress) AND acc \<noteq> acc then Some 0
      else
        let sz = sz - uint (nxt - addr) in
        if sz \<le> 0 then Some 1
        else mem_access_loop s vaddress acc sz nxt (nxt + PAGESIZE))"

definition mem_access :: "'a paging_scheme \<Rightarrow> u32 \<Rightarrow> int \<Rightarrow> u32 \<Rightarrow> int outcome" where
  "mem_access s vaddress sz acc =
     (case mem_access_loop s vaddress acc sz vaddress ((vaddress AND NOT PAGESIZE) + PAGESIZE) of
        None \<Rightarrow> Diverges
      | Some r \<Rightarrow> Returns r)"

text \<open>
  \<^verbatim>\<open>str_access\<close> on the memory contents \<open>mem\<close>: the inner loop runs to the end of the string
  (\<open>None\<close>) or to the start of the next page.
\<close>

function str_scan :: "(u32 \<Rightarrow> u8) \<Rightarrow> u32 \<Rightarrow> u32 option" where
  "str_scan mem p =
     (if mem p = 0 then None
      else if PGOFF (p + 1) = 0 then Some (p + 1)
      else str_scan mem (p + 1))"
  by pat_completeness auto
termination
proof (relation "measure (\<lambda>(mem, p). 4096 - unat (PGOFF p))", goal_cases)
  case (2 mem p)
  then have "unat (PGOFF (p + 1)) \<noteq> 0" by (simp add: unat_eq_0)
  then have "unat (PGOFF (p + 1)) = Suc (unat (PGOFF p))" "unat (PGOFF p) < 4096"
    unfolding unat_PGOFF_Suc by (simp_all add: mod_Suc unat_PGOFF split: if_splits)
  then show ?case by simp
qed simp

declare str_scan.simps [simp del]

partial_function (option) str_access_loop :: "'a paging_scheme \<Rightarrow> (u32 \<Rightarrow> u8) \<Rightarrow> u32 \<Rightarrow> u32 \<Rightarrow> int option" where
  "str_access_loop s mem p acc =
     (if GET_PDE s p AND PT_PRESENT = 0 then Some 0
      else if ptab s (PTABIDX p) AND acc \<noteq> acc then Some 0
      else case str_scan mem p of
        None \<Rightarrow> Some 1
      | Some q \<Rightarrow> str_access_loop s mem q acc)"

definition str_access :: "'a paging_scheme \<Rightarrow> (u32 \<Rightarrow> u8) \<Rightarrow> u32 \<Rightarrow> u32 \<Rightarrow> int outcome" where
  "str_access s mem p acc =
     (case str_access_loop s mem p acc of None \<Rightarrow> Diverges | Some r \<Rightarrow> Returns r)"

record pdirstat =
  st_present :: int
  st_user :: int
  st_kernel :: int
  st_readonly :: int
  st_readwrite :: int
  st_accessed :: int
  st_dirty :: int

text \<open>The counters that one present page table entry raises.\<close>

definition pdir_stat_count :: "u32 \<Rightarrow> pdirstat \<Rightarrow> pdirstat" where
  "pdir_stat_count pte buf =
     (let buf = buf\<lparr>st_present := st_present buf + 1\<rparr>;
          buf = (if pte AND PT_WRITABLE \<noteq> 0 then buf\<lparr>st_readwrite := st_readwrite buf + 1\<rparr>
                 else buf\<lparr>st_readonly := st_readonly buf + 1\<rparr>);
          buf = (if pte AND PT_USER \<noteq> 0 then buf\<lparr>st_user := st_user buf + 1\<rparr>
                 else buf\<lparr>st_kernel := st_kernel buf + 1\<rparr>);
          buf = (if pte AND PT_ACCESSED \<noteq> 0 then buf\<lparr>st_accessed := st_accessed buf + 1\<rparr> else buf)
      in if pte AND PT_DIRTY \<noteq> 0 then buf\<lparr>st_dirty := st_dirty buf + 1\<rparr> else buf)"

partial_function (option) pdir_stat_loop ::
  "'a paging_scheme \<Rightarrow> u32 \<Rightarrow> u32 \<Rightarrow> pdirstat \<Rightarrow> pdirstat option" where
  "pdir_stat_loop s vaddress end buf =
     (if vaddress < end then
        if GET_PDE s vaddress AND PT_PRESENT = 0 then
          pdir_stat_loop s ((vaddress + 0x400000) AND NOT (0x400000 - 1)) end buf
        else
          pdir_stat_loop s (vaddress + PAGESIZE) end
            (if ptab s (PTABIDX vaddress) AND PT_PRESENT \<noteq> 0
             then pdir_stat_count (ptab s (PTABIDX vaddress)) buf else buf)
      else Some buf)"

definition pdir_stat :: "'a paging_scheme \<Rightarrow> u32 \<Rightarrow> u32 \<Rightarrow> pdirstat outcome" where
  "pdir_stat s addr len =
     (case pdir_stat_loop s addr (addr + len) \<lparr>st_present = 0, st_user = 0, st_kernel = 0,
        st_readonly = 0, st_readwrite = 0, st_accessed = 0, st_dirty = 0\<rparr> of
        None \<Rightarrow> Diverges
      | Some buf \<Rightarrow> Returns buf)"

section \<open>Operations of pframe.c that use the page tables\<close>

partial_function (option) kpframe_set_tag_loop ::
  "u32 \<Rightarrow> u32 \<Rightarrow> u8 \<Rightarrow> 'a paging_scheme \<Rightarrow> 'a paging_scheme outcome option" where
  "kpframe_set_tag_loop p end tag s =
     (if p < end then
        case bind_outcome (kpage_virt2phys s p) (\<lambda>phys. PFRAME_SET_TAG (unat (BTOP phys)) tag s) of
          Returns s \<Rightarrow>
            kpframe_set_tag_loop (p + PAGESIZE) end tag
              (if tag = PFT_FREE then s\<lparr>freeCount := freeCount s + 1\<rparr>
               else s\<lparr>freeCount := freeCount s - 1\<rparr>)
        | Panics m \<Rightarrow> Some (Panics m)
        | Diverges \<Rightarrow> Some Diverges
        | Faults \<Rightarrow> Some Faults
      else Some (Returns s))"

definition kpframe_set_tag :: "u32 \<Rightarrow> u32 \<Rightarrow> u8 \<Rightarrow> 'a paging_scheme \<Rightarrow> 'a paging_scheme outcome" where
  "kpframe_set_tag vaddress len tag s =
     (case kpframe_set_tag_loop vaddress (vaddress + len) tag s of
        None \<Rightarrow> Diverges
      | Some r \<Rightarrow> r)"

definition kpframe_get_tag :: "'a paging_scheme \<Rightarrow> u32 \<Rightarrow> u8 outcome" where
  "kpframe_get_tag s vaddress =
     bind_outcome (kpage_virt2phys s vaddress) (\<lambda>phys. PFRAME_GET_TAG s (unat (push_bit 12 phys)))"

text \<open>The boot information that \<^verbatim>\<open>kpframe_initialize\<close> reads from the system page.\<close>

record mementry =
  me_addr :: "64 word"
  me_size :: "64 word"
  me_type :: u32

record bootinfo =
  heapstart :: u32
  heapend :: u32
  memend :: u32
  initrd_size :: u32
  memmap :: "mementry list"

text \<open>Tagging the frames \<open>first..<until\<close>.\<close>

definition set_tags :: "nat \<Rightarrow> nat \<Rightarrow> u8 \<Rightarrow> 'a paging_scheme \<Rightarrow> 'a paging_scheme outcome" where
  "set_tags first until tag s = for_each [first..<until] (\<lambda>i. PFRAME_SET_TAG i tag) s"

text \<open>The body of the loop over the memory map.\<close>

definition add_mementry :: "mementry \<Rightarrow> 'a paging_scheme \<Rightarrow> 'a paging_scheme outcome" where
  "add_mementry e s =
     (let first = (ucast (me_addr e) :: u32) div PAGESIZE;
          until = first + (ucast (me_size e) :: u32) div PAGESIZE
      in if first \<ge> frameCount s then Returns s
         else
           let until = (if until > frameCount s then frameCount s else until) in
           if me_type e = 1 then
             bind_outcome (set_tags (unat first) (unat until) PFT_FREE s) (\<lambda>s.
               Returns (s\<lparr>useableCount := useableCount s + (until - first)\<rparr>))
           else if me_type e = 2 then set_tags (unat first) (unat until) PFT_RESERVED s
           else Returns s)"

text \<open>
  The page table at physical address \<open>heap\<close> becomes the one that maps \<^verbatim>\<open>PFDBBASE\<close>, with the
  database's pages in its first entries; the boot loader maps this memory at its own address.
\<close>

definition map_pfdb :: "u32 \<Rightarrow> nat \<Rightarrow> 'a paging_scheme \<Rightarrow> 'a paging_scheme" where
  "map_pfdb heap pfdbpages s =
     (let s = SET_PDE PFDBBASE (heap OR PT_PRESENT OR PT_WRITABLE) s;
          s = clear_ptab PFDBBASE s
      in s\<lparr>ptab := fold (\<lambda>i pt. pt(PTABIDX PFDBBASE + of_nat i :=
             (heap + PAGESIZE * (of_nat i + 1)) OR PT_PRESENT OR PT_WRITABLE)) [0..<pfdbpages] (ptab s)\<rparr>)"

text \<open>The final loop: count the free frames.\<close>

definition count_free :: "'a paging_scheme \<Rightarrow> 'a paging_scheme outcome" where
  "count_free s =
     for_each [0..<unat (frameCount s)] (\<lambda>i s. bind_outcome (PFRAME_GET_TAG s i) (\<lambda>tag.
       Returns (if tag = PFT_FREE then s\<lparr>freeCount := freeCount s + 1\<rparr> else s))) s"

text \<open>\<open>self\<close> is the address of the thread control block of the running thread.\<close>

definition kpframe_initialize :: "bootinfo \<Rightarrow> u32 \<Rightarrow> 'a paging_scheme \<Rightarrow> 'a paging_scheme outcome" where
  "kpframe_initialize b self s =
     (let heap = heapend b;
          pfdbpages = PAGES ((memend b div PAGESIZE) * 2)
      in if (pfdbpages + 2) * PAGESIZE + heap \<ge> memend b
         then Panics ''not enough memory for page table database''
         else
           let s = map_pfdb heap (unat pfdbpages) s;
               heap = heap + PAGESIZE + pfdbpages * PAGESIZE;
               s = s\<lparr>frameCount := memend b div PAGESIZE, useableCount := 0, freeCount := 0,
                     frameArray := replicate (unat pfdbpages * 2048) 0\<rparr>
           in
           bind_outcome (set_tags 0 (unat (frameCount s)) PFT_BAD s) (\<lambda>s.
           bind_outcome (for_each (memmap b) add_mementry s) (\<lambda>s.
           bind_outcome (PFRAME_SET_TAG 0 PFT_RESERVED s) (\<lambda>s.
           let s = s\<lparr>useableCount := useableCount s - 1\<rparr> in
           bind_outcome (set_tags (unat (heapstart b div PAGESIZE)) (unat (heap div PAGESIZE)) PFT_PTAB s) (\<lambda>s.
           bind_outcome (set_tags 16 32 PFT_DMA s) (\<lambda>s.
           bind_outcome (kpframe_set_tag PFDBBASE (pfdbpages * PAGESIZE) PFT_PFDB s) (\<lambda>s.
           bind_outcome (kpframe_set_tag SYSPAGE_ADDRESS PAGESIZE PFT_SYS s) (\<lambda>s.
           bind_outcome (kpframe_set_tag self 0x2000 PFT_TCB s) (\<lambda>s.
           bind_outcome (kpframe_set_tag INITRD_ADDRESS (initrd_size b) PFT_BOOT s) (\<lambda>s.
             count_free s))))))))))"

declare mem_access_loop.simps [code] str_access_loop.simps [code]
declare pdir_stat_loop.simps [code] kpframe_set_tag_loop.simps [code]

section \<open>Abstraction\<close>

text \<open>The page table entry of an address, if there is a page table for it.\<close>

definition pte_at :: "'a paging_scheme \<Rightarrow> u32 \<Rightarrow> u32 option" where
  "pte_at s v = (if GET_PDE s v AND PT_PRESENT = 0 then None else Some (ptab s (PTABIDX v)))"

text \<open>
  What mapping a page makes of the entries: the page gets its entry, and if its page table is
  new, the other pages of the table get empty ones.
\<close>

definition mapped :: "u32 \<Rightarrow> u32 \<Rightarrow> (u32 \<Rightarrow> u32 option) \<Rightarrow> u32 \<Rightarrow> u32 option" where
  "mapped v pte m = (\<lambda>v'. if PTABIDX v' = PTABIDX v then Some pte
                       else if m v = None \<and> PDEIDX v' = PDEIDX v then Some 0 else m v')"

text \<open>A page whose entry has all the bits of \<open>acc\<close>.\<close>

definition accessible :: "'a paging_scheme \<Rightarrow> u32 \<Rightarrow> u32 \<Rightarrow> bool" where
  "accessible s acc v \<longleftrightarrow> (\<exists>pte. pte_at s v = Some pte \<and> pte AND acc = acc)"

text \<open>One page table, for the first 4 MB, with two pages mapped; three frames are free.\<close>

definition paging_example :: paging where
  "paging_example = \<lparr>freeCount = 3, useableCount = 6, frameCount = 8, frameArray = [3, 8, 0x10, 0x10, 7, 1, 1, 1, 0],
     pdir = (\<lambda>i. if i = 0 then 0x1007 else 0),
     ptab = (\<lambda>k. if k = 2 then 0x2007 else if k = 3 then 0x3005 else 0)\<rparr>"

section \<open>Single frames\<close>

lemma free_run_one: "free_run s k 1 \<longleftrightarrow> k \<in> free_frames s"
  by (auto simp: free_run_def free_frames_def)

lemma kpframe_alloc_one:
  assumes ok: "pframe_ok s" and tag: "tag \<noteq> PFT_FREE"
    and free: "freeCount s \<noteq> 0" "free_frames s \<noteq> {}"
  shows "\<exists>i s'. kpframe_alloc 1 tag s = Returns (i, s') \<and> i \<noteq> INVALID_PFRAME \<and> unat i \<in> free_frames s
           \<and> retagged s (unat i) 1 tag s' \<and> freeCount s' = freeCount s - 1
           \<and> pframe_db.more s' = pframe_db.more s"
proof -
  obtain i s' where A: "kpframe_alloc 1 tag s = Returns (i, s')"
     "if i = INVALID_PFRAME
      then s' = s \<and> (freeCount s < 1 \<or> (\<forall>k. \<not> free_run s k 1))
      else free_run s (unat i) 1 \<and> (\<forall>k < unat i. \<not> free_run s k 1)
           \<and> retagged s (unat i) 1 tag s' \<and> freeCount s' = freeCount s - 1
           \<and> 1 \<le> freeCount s \<and> pframe_db.more s' = pframe_db.more s"
    using kpframe_alloc_law [OF ok, of 1 tag, unfolded unsigned_1] tag by auto
  have "\<not> (freeCount s < 1 \<or> (\<forall>k. \<not> free_run s k 1))"
    using free unfolding free_run_one by (simp add: ex_in_conv not_less)
  with A show ?thesis by (auto simp: free_run_one [unfolded One_nat_def] split: if_splits)
qed

lemma retagged_one:
  assumes "pframe_ok s" "k \<in> free_frames s" "retagged s k 1 tag s'" "tag \<noteq> PFT_FREE"
  shows "pframe_ok s'" "free_frames s' = free_frames s - {k}"
proof -
  have lim: "k + 1 \<le> unat (frameCount s)" using assms(2) by (simp add: free_frames_def)
  show "pframe_ok s'" using retagged_ok [OF assms(1,3) lim] .
  show "free_frames s' = free_frames s - {k}"
    using retagged_free_frames [OF assms(1,3) lim] assms(4) by auto
qed

section \<open>Page table entries\<close>

lemma PDEIDX_PTABIDX: "PDEIDX v = drop_bit 10 (PTABIDX v)"
  by (simp add: PDEIDX_def PTABIDX_def)

lemma paging_fields_eq:
  assumes "pframe_db.more s' = pframe_db.more s"
  shows "pdir s' = pdir s" "ptab s' = ptab s" "paging.more s' = paging.more s"
  using assms by (cases s; cases s'; simp)+

lemma pte_at_GET_PTE: "GET_PTE s v = (case pte_at s v of None \<Rightarrow> Faults | Some pte \<Rightarrow> Returns pte)"
  by (simp add: GET_PTE_def pte_at_def)

lemma is_mapped_pte_at:
  "kpage_is_mapped s v = (case pte_at s v of None \<Rightarrow> 0 | Some pte \<Rightarrow> if pte AND PT_PRESENT = 0 then 0 else 1)"
  by (simp add: kpage_is_mapped_def pte_at_def)

lemma SET_PTE_Returns:
  assumes "pte_at s v \<noteq> None"
  shows "SET_PTE v pte s = Returns (s\<lparr>ptab := (ptab s)(PTABIDX v := pte)\<rparr>)"
  using assms by (simp add: SET_PTE_def pte_at_def split: if_splits)

lemma pte_at_SET_PTE:
  assumes "SET_PTE v pte s = Returns s'"
  shows "pte_at s' = (\<lambda>v'. if PTABIDX v' = PTABIDX v then Some pte else pte_at s v')"
  using assms
  by (auto simp: SET_PTE_def pte_at_def GET_PDE_def fun_eq_iff PDEIDX_PTABIDX split: if_splits)

lemma present_bit:
  fixes x :: u32
  shows "(x OR 3) AND 1 \<noteq> 0" "(x OR 7) AND 1 \<noteq> 0"
proof -
  have "bit ((x OR 3) AND 1) 0" "bit ((x OR 7) AND 1) 0" by (simp_all add: bit_simps)
  then show "(x OR 3) AND 1 \<noteq> 0" "(x OR 7) AND 1 \<noteq> 0" by force+
qed

lemma pte_at_new_table:
  assumes "pte AND PT_PRESENT \<noteq> 0"
  shows "pte_at (clear_ptab v (SET_PDE v pte s)) =
    (\<lambda>v'. if PDEIDX v' = PDEIDX v then Some 0 else pte_at s v')"
  using assms by (auto simp: pte_at_def clear_ptab_def SET_PDE_def GET_PDE_def PDEIDX_PTABIDX)

section \<open>Mapping a page\<close>

lemma kpage_map_law:
  assumes ok: "pframe_ok s" and room: "pte_at s v \<noteq> None \<or> freeCount s \<noteq> 0 \<and> free_frames s \<noteq> {}"
  shows "\<exists>s'. kpage_map v frame flags s = Returns s' \<and> pframe_ok s' \<and> paging.more s' = paging.more s
     \<and> pte_at s' = mapped v (PTOB frame OR flags) (pte_at s)
     \<and> (if pte_at s v \<noteq> None then pframe_db.truncate s' = pframe_db.truncate s
        else \<exists>k\<in>free_frames s. retagged s k 1 PFT_PTAB s' \<and> freeCount s' = freeCount s - 1)"
proof (cases "pte_at s v")
  case (Some pte)
  define s' where "s' = s\<lparr>ptab := (ptab s)(PTABIDX v := PTOB frame OR flags)\<rparr>"
  have S: "SET_PTE v (PTOB frame OR flags) s = Returns s'"
    using Some by (simp add: SET_PTE_Returns s'_def)
  then have "kpage_map v frame flags s = Returns s'"
    using Some by (simp add: kpage_map_def pte_at_def split: if_splits)
  moreover have "pframe_ok s'" using ok by (simp add: s'_def pframe_ok_def frame_tag_def)
  moreover have "pte_at s' = mapped v (PTOB frame OR flags) (pte_at s)"
    using Some by (auto simp: pte_at_SET_PTE [OF S] mapped_def fun_eq_iff)
  ultimately show ?thesis using Some by (auto simp: s'_def pframe_db.defs)
next
  case None
  then have absent: "GET_PDE s v AND PT_PRESENT = 0" by (simp add: pte_at_def split: if_splits)
  obtain i s1 where A: "kpframe_alloc 1 PFT_PTAB s = Returns (i, s1)" "i \<noteq> INVALID_PFRAME"
    "unat i \<in> free_frames s" "retagged s (unat i) 1 PFT_PTAB s1" "freeCount s1 = freeCount s - 1"
    "pframe_db.more s1 = pframe_db.more s"
    using kpframe_alloc_one [OF ok, of PFT_PTAB] room None by auto
  define pte where "pte = (if USERSPACE v then PTOB i OR PT_PRESENT OR PT_WRITABLE OR PT_USER
                           else PTOB i OR PT_PRESENT OR PT_WRITABLE)"
  define s2 where "s2 = clear_ptab v (SET_PDE v pte s1)"
  have "pte AND PT_PRESENT \<noteq> 0" by (simp add: pte_def present_bit)
  then have "pte_at s2 = (\<lambda>v'. if PDEIDX v' = PDEIDX v then Some 0 else pte_at s1 v')"
    unfolding s2_def by (rule pte_at_new_table)
  moreover have "pte_at s1 = pte_at s"
    by (simp add: pte_at_def GET_PDE_def paging_fields_eq [OF A(6)] fun_eq_iff)
  ultimately have tab: "pte_at s2 = (\<lambda>v'. if PDEIDX v' = PDEIDX v then Some 0 else pte_at s v')" by (simp only:)
  define s3 where "s3 = s2\<lparr>ptab := (ptab s2)(PTABIDX v := PTOB frame OR flags)\<rparr>"
  have S: "SET_PTE v (PTOB frame OR flags) s2 = Returns s3"
    using tab by (simp add: SET_PTE_Returns s3_def)
  then have "kpage_map v frame flags s = Returns s3"
    using absent A by (cases "USERSPACE v") (simp_all add: kpage_map_def Let_def s2_def pte_def)
  moreover have "pte_at s3 = mapped v (PTOB frame OR flags) (pte_at s)"
    using None by (auto simp: pte_at_SET_PTE [OF S] tab mapped_def fun_eq_iff PDEIDX_PTABIDX)
  moreover have "retagged s (unat i) 1 PFT_PTAB s3" "freeCount s3 = freeCount s - 1"
    using A(4,5) by (auto simp: s3_def s2_def clear_ptab_def SET_PDE_def retagged_def frame_tag_def frame_extra_def)
  moreover then have "pframe_ok s3" using retagged_one(1) [OF ok A(3), of PFT_PTAB s3] by simp
  moreover have "paging.more s3 = paging.more s"
    using paging_fields_eq(3) [OF A(6)] by (simp add: s3_def s2_def clear_ptab_def SET_PDE_def)
  ultimately show ?thesis using None A(3) by auto
qed

lemma PTOB_low_bits: "PTOB frame AND PT_FLAGMASK = 0"
proof -
  have "PT_FLAGMASK AND PT_PFNMASK = 0" by (simp add: PT_FLAGMASK_def PT_PFNMASK_def)
  then have "\<not> bit (PT_FLAGMASK AND PT_PFNMASK) n" for n by simp
  then show ?thesis by (intro bit_word_eqI) (auto simp: bit_simps bit_PFNMASK PTOB_def)
qed

lemma flags_of_pte: "(PTOB frame OR flags) AND PT_FLAGMASK = flags AND PT_FLAGMASK"
  by (simp add: bit.conj_disj_distrib2 PTOB_low_bits)

lemma BTOP_PTOB:
  assumes "unat frame < 2 ^ 20"
  shows "BTOP (PTOB frame) = frame"
proof -
  have "unat (BTOP (PTOB frame)) = unat frame"
    using assms by (simp add: unat_BTOP unat_PTOB)
  then show ?thesis by (rule word_unat_eq_iff [THEN iffD2])
qed

lemma same_page_PGOFF: "PTABIDX v' = PTABIDX v \<Longrightarrow> PDEIDX v' = PDEIDX v"
  by (simp add: PDEIDX_PTABIDX)

section \<open>Access checks\<close>

lemma accessible_iff:
  "accessible s acc v \<longleftrightarrow> GET_PDE s v AND PT_PRESENT \<noteq> 0 \<and> ptab s (PTABIDX v) AND acc = acc"
  by (simp add: accessible_def pte_at_def)

lemma mem_access_loop_page:
  assumes "accessible s acc v" "nxt - addr = PAGESIZE"
  shows "mem_access_loop s v acc sz addr nxt = Some 1"
  using assms(2)
proof (induction "nat sz" arbitrary: sz addr nxt rule: less_induct)
  case less
  show ?case
  proof (cases "sz - 4096 \<le> 0")
    case True
    then show ?thesis
      using assms(1) less.prems by (subst mem_access_loop.simps) (simp add: accessible_iff)
  next
    case False
    then have "mem_access_loop s v acc (sz - 4096) nxt (nxt + PAGESIZE) = Some 1"
      by (intro less.hyps) auto
    then show ?thesis
      using assms(1) less.prems False by (subst mem_access_loop.simps) (simp add: accessible_iff)
  qed
qed

lemma mem_access_loop_first:
  "mem_access_loop s v acc sz addr nxt = Some (if accessible s acc v then 1 else 0)"
proof (cases "accessible s acc v")
  case True
  then show ?thesis
    using mem_access_loop_page [OF True, of "nxt + PAGESIZE" nxt]
    by (subst mem_access_loop.simps) (simp add: accessible_iff Let_def)
next
  case False
  then show ?thesis by (subst mem_access_loop.simps) (auto simp: accessible_iff)
qed

lemma same_page_Suc:
  assumes "PGOFF (p + 1) \<noteq> 0"
  shows "PTABIDX (p + 1) = PTABIDX p"
proof -
  have "unat (PGOFF (p + 1)) \<noteq> 0" using assms by (simp add: unat_eq_0)
  then have "Suc (unat p mod 4096) \<noteq> 4096" using unat_PGOFF_Suc [of p] by (auto simp: unat_PGOFF)
  moreover have "unat p < 2 ^ 32" by (rule unat_u32_bound)
  ultimately have "unat (p + 1) = unat p + 1" "(unat p + 1) div 4096 = unat p div 4096"
    by (auto simp: unat_word_ariths div_Suc mod_Suc intro!: mod_less)
  then have "unat (PTABIDX (p + 1)) = unat (PTABIDX p)" by (simp add: unat_PTABIDX)
  then show ?thesis by (rule word_unat_eq_iff [THEN iffD2])
qed

lemma str_scan_page:
  assumes "mem (p + of_nat n) = 0" "\<forall>k<n. mem (p + of_nat k) \<noteq> 0"
  shows "(str_scan mem p = None \<and> (\<forall>k\<le>n. PTABIDX (p + of_nat k) = PTABIDX p))
       \<or> (\<exists>m. str_scan mem p = Some (p + of_nat m) \<and> 0 < m \<and> m \<le> n
              \<and> (\<forall>k<m. PTABIDX (p + of_nat k) = PTABIDX p))"
  using assms
proof (induction n arbitrary: p)
  case 0
  then show ?case by (subst str_scan.simps) simp
next
  case (Suc n)
  have nz: "mem p \<noteq> 0" using Suc.prems(2) by force
  have shift: "p + 1 + of_nat k = p + of_nat (Suc k)" for k by simp
  show ?case
  proof (cases "PGOFF (p + 1) = 0")
    case True
    then have "str_scan mem p = Some (p + of_nat 1)" using nz by (subst str_scan.simps) simp
    then show ?thesis by (intro disjI2 exI [of _ 1]) auto
  next
    case False
    then have scan: "str_scan mem p = str_scan mem (p + 1)" and page: "PTABIDX (p + 1) = PTABIDX p"
      using nz same_page_Suc by (auto simp: str_scan.simps [of mem p])
    have all: "\<forall>k<Suc m. PTABIDX (p + of_nat k) = PTABIDX p"
      if "\<forall>k<m. PTABIDX (p + 1 + of_nat k) = PTABIDX (p + 1)" for m
      using that page unfolding shift by (auto simp: less_Suc_eq_0_disj)
    have "mem (p + 1 + of_nat n) = 0" "\<forall>k<n. mem (p + 1 + of_nat k) \<noteq> 0"
      using Suc.prems unfolding shift by auto
    from Suc.IH [OF this] show ?thesis
    proof (elim disjE exE conjE)
      assume "str_scan mem (p + 1) = None" "\<forall>k\<le>n. PTABIDX (p + 1 + of_nat k) = PTABIDX (p + 1)"
      with all [of "Suc n"] scan show ?thesis by (auto simp: less_Suc_eq_le)
    next
      fix m assume "str_scan mem (p + 1) = Some (p + 1 + of_nat m)" "0 < m" "m \<le> n"
        "\<forall>k<m. PTABIDX (p + 1 + of_nat k) = PTABIDX (p + 1)"
      with all [of m] scan show ?thesis by (intro disjI2 exI [of _ "Suc m"]) simp
    qed
  qed
qed

lemma accessible_page: "PTABIDX v' = PTABIDX v \<Longrightarrow> accessible s acc v' = accessible s acc v"
  by (simp add: accessible_def pte_at_def GET_PDE_def PDEIDX_PTABIDX)

lemma str_access_loop_correct:
  assumes "mem (p + of_nat n) = 0" "\<forall>k<n. mem (p + of_nat k) \<noteq> 0"
  shows "str_access_loop s mem p acc =
           Some (if \<forall>k\<le>n. accessible s acc (p + of_nat k) then 1 else 0)"
  using assms
proof (induction n arbitrary: p rule: less_induct)
  case (less n)
  show ?case
  proof (cases "accessible s acc p")
    case False
    then have "\<not> (\<forall>k\<le>n. accessible s acc (p + of_nat k))" by (auto intro!: exI [of _ 0])
    then show ?thesis using False by (subst str_access_loop.simps) (auto simp: accessible_iff)
  next
    case True
    then have step: "str_access_loop s mem p acc =
        (case str_scan mem p of None \<Rightarrow> Some 1 | Some q \<Rightarrow> str_access_loop s mem q acc)"
      by (subst str_access_loop.simps) (simp add: accessible_iff)
    from str_scan_page [OF less.prems] show ?thesis
    proof (elim disjE exE conjE)
      assume none: "str_scan mem p = None" "\<forall>k\<le>n. PTABIDX (p + of_nat k) = PTABIDX p"
      have "accessible s acc (p + of_nat k)" if "k \<le> n" for k
        using none(2) that True accessible_page [of "p + of_nat k" p s acc] by simp
      then show ?thesis using step none(1) by simp
    next
      fix m assume m: "str_scan mem p = Some (p + of_nat m)" "0 < m" "m \<le> n"
        "\<forall>k<m. PTABIDX (p + of_nat k) = PTABIDX p"
      have shift: "p + of_nat m + of_nat k = p + of_nat (m + k)" for k by simp
      have rec: "str_access_loop s mem (p + of_nat m) acc
          = Some (if \<forall>k\<le>n - m. accessible s acc (p + of_nat m + of_nat k) then 1 else 0)"
      proof (rule less.IH)
        show "n - m < n" using m by simp
        show "mem (p + of_nat m + of_nat (n - m)) = 0" using less.prems(1) m(3) by (simp only: shift le_add_diff_inverse)
        show "\<forall>k<n - m. mem (p + of_nat m + of_nat k) \<noteq> 0" using less.prems(2) by (simp add: shift del: of_nat_add)
      qed
      have iff: "(\<forall>k\<le>n - m. accessible s acc (p + of_nat (m + k)))
          = (\<forall>k\<le>n. accessible s acc (p + of_nat k))"
      proof
        assume R: "\<forall>k\<le>n - m. accessible s acc (p + of_nat (m + k))"
        show "\<forall>k\<le>n. accessible s acc (p + of_nat k)"
        proof (intro allI impI)
          fix k assume "k \<le> n"
          then show "accessible s acc (p + of_nat k)"
            using R [rule_format, of "k - m"] m(4) True accessible_page [of "p + of_nat k" p s acc]
            by (cases "k < m") (simp_all del: of_nat_add)
        qed
      next
        assume "\<forall>k\<le>n. accessible s acc (p + of_nat k)"
        then show "\<forall>k\<le>n - m. accessible s acc (p + of_nat (m + k))" using m(3) by (simp del: of_nat_add)
      qed
      show ?thesis unfolding step m(1) option.case rec shift iff ..
    qed
  qed
qed

section \<open>Properties\<close>

lemma paging_example_ok: "pframe_ok paging_example" "5 \<in> free_frames paging_example" "freeCount paging_example = 3"
  by (simp_all add: pframe_ok_def free_frames_def paging_example_def frame_tag_def low_byte_def)

text \<open>
  C21. Mapping a page returns if its page table exists or a frame is free for one. Afterwards
  every address of the page translates into the frame, with the given flags, and no other
  page that had a page table changes.
\<close>

theorem kpage_map_translates:
  assumes ok: "pframe_ok s" and room: "pte_at s v \<noteq> None \<or> freeCount s \<noteq> 0 \<and> free_frames s \<noteq> {}"
    and flags: "flags AND PT_PFNMASK = 0" and frame: "unat frame < 2 ^ 20"
  shows "\<exists>s'. kpage_map v frame flags s = Returns s' \<and> pframe_ok s'
     \<and> (\<forall>v'. PTABIDX v' = PTABIDX v \<longrightarrow> kpage_virt2phys s' v' = Returns (PTOB frame + PGOFF v')
            \<and> kpage_virt2frame s' v' = Returns frame \<and> kpage_get_flags s' v' = Returns (flags AND PT_FLAGMASK))
     \<and> (\<forall>v'. PTABIDX v' \<noteq> PTABIDX v \<and> pte_at s v' \<noteq> None \<longrightarrow> pte_at s' v' = pte_at s v')"
proof -
  obtain s' where M: "kpage_map v frame flags s = Returns s'" "pframe_ok s'"
    "pte_at s' = mapped v (PTOB frame OR flags) (pte_at s)"
    using kpage_map_law [OF ok room, of frame flags] by blast
  have "pte_at s' v' = pte_at s v'" if "PTABIDX v' \<noteq> PTABIDX v" "pte_at s v' \<noteq> None" for v'
    using that unfolding M(3) mapped_def by (auto simp: pte_at_def GET_PDE_def split: if_splits)
  then show ?thesis
    using M by (auto simp: kpage_virt2phys_def kpage_virt2frame_def kpage_get_flags_def pte_at_GET_PTE mapped_def
        PFNMASK_of_pte [OF flags] BTOP_PTOB [OF frame] flags_of_pte)
qed

theorem kpage_map_translates_witness:
  "pte_at paging_example 0x400123 = None \<and> (\<exists>s'. kpage_map 0x400123 2 3 paging_example = Returns s'
     \<and> kpage_virt2phys s' 0x400ABC = Returns 0x2ABC \<and> pte_at s' 0x2000 = Some 0x2007)"
proof -
  have absent: "pte_at paging_example 0x400123 = None"
    by (simp add: pte_at_def GET_PDE_def PDEIDX_def paging_example_def drop_bit_eq_div)
  have there: "pte_at paging_example 0x2000 = Some 0x2007"
    by (simp add: pte_at_def GET_PDE_def PDEIDX_def PTABIDX_def paging_example_def drop_bit_eq_div)
  have "PTOB 2 + PGOFF 0x400ABC = 0x2ABC" by (simp add: PTOB_def PGOFF_def push_bit_eq_mult)
  moreover have "PTABIDX 0x400ABC = PTABIDX 0x400123" "PTABIDX 0x2000 \<noteq> PTABIDX 0x400123"
    by (simp_all add: PTABIDX_def drop_bit_eq_div)
  ultimately show ?thesis
    using kpage_map_translates [OF paging_example_ok(1), of "0x400123" 3 2] absent there
      paging_example_ok(2,3) by (force simp: PT_PFNMASK_def)
qed

text \<open>
  Changing the flags of a page keeps the frame it is mapped to, and unmapping it takes its
  present bit away; in both cases every other page keeps its entry.
\<close>

theorem page_flags_and_unmap:
  assumes pte: "pte_at s v = Some pte" and flags: "flags AND PT_PFNMASK = 0"
  shows "(\<exists>s'. kpage_set_flags v flags s = Returns s'
           \<and> pte_at s' = (\<lambda>v'. if PTABIDX v' = PTABIDX v then Some (pte AND PT_PFNMASK OR flags) else pte_at s v')
           \<and> kpage_virt2frame s' v = kpage_virt2frame s v)
       \<and> (\<exists>s'. kpage_unmap v s = Returns s' \<and> kpage_is_mapped s' v = 0
           \<and> (\<forall>v'. PTABIDX v' \<noteq> PTABIDX v \<longrightarrow> pte_at s' v' = pte_at s v'))"
proof
  obtain s' where S: "SET_PTE v (pte AND PT_PFNMASK OR flags) s = Returns s'"
    using pte by (simp add: SET_PTE_Returns)
  have "(pte AND PT_PFNMASK OR flags) AND PT_PFNMASK = pte AND PT_PFNMASK"
    using flags by (simp add: bit.conj_disj_distrib2 and.assoc)
  then show "\<exists>s'. kpage_set_flags v flags s = Returns s'
           \<and> pte_at s' = (\<lambda>v'. if PTABIDX v' = PTABIDX v then Some (pte AND PT_PFNMASK OR flags) else pte_at s v')
           \<and> kpage_virt2frame s' v = kpage_virt2frame s v"
    using S pte by (auto simp: kpage_set_flags_def kpage_virt2frame_def pte_at_GET_PTE pte_at_SET_PTE [OF S])
next
  obtain s' where S: "SET_PTE v 0 s = Returns s'" using pte by (simp add: SET_PTE_Returns)
  then have "pte_at s' v = Some 0" by (simp add: pte_at_SET_PTE)
  then show "\<exists>s'. kpage_unmap v s = Returns s' \<and> kpage_is_mapped s' v = 0
           \<and> (\<forall>v'. PTABIDX v' \<noteq> PTABIDX v \<longrightarrow> pte_at s' v' = pte_at s v')"
    using S by (auto simp: kpage_unmap_def is_mapped_pte_at pte_at_SET_PTE [OF S])
qed

theorem page_flags_and_unmap_witness:
  "pte_at paging_example 0x2010 = Some 0x2007
   \<and> (\<exists>s'. kpage_set_flags 0x2010 5 paging_example = Returns s' \<and> pte_at s' 0x2FFF = Some 0x2005)"
proof -
  have pte: "pte_at paging_example 0x2010 = Some 0x2007"
    by (simp add: pte_at_def GET_PDE_def PDEIDX_def PTABIDX_def paging_example_def drop_bit_eq_div)
  moreover have "PTABIDX 0x2FFF = PTABIDX 0x2010" by (simp add: PTABIDX_def drop_bit_eq_div)
  ultimately show ?thesis
    using page_flags_and_unmap [OF pte, of 5] by (auto simp: PT_PFNMASK_def)
qed

text \<open>
  C39. The access check of a buffer looks at its first page only: for every size it returns
  whether the page of the start address has the access bits.
\<close>

theorem mem_access_first_page:
  "mem_access s vaddress sz acc = Returns (if accessible s acc vaddress then 1 else 0)"
  by (simp add: mem_access_def mem_access_loop_first)

text \<open>
  C29. The access check of a string returns, and says yes exactly when the page of every
  character up to and including the terminator has the access bits.
\<close>

theorem str_access_correct:
  assumes "mem (p + of_nat n) = 0" and "\<forall>k<n. mem (p + of_nat k) \<noteq> 0"
  shows "str_access s mem p acc = Returns (if \<forall>k\<le>n. accessible s acc (p + of_nat k) then 1 else 0)"
  unfolding str_access_def str_access_loop_correct [OF assms] by simp

theorem str_access_correct_witness:
  "str_access paging_example (\<lambda>a. if a < 0x3001 then 65 else 0) 0x2FFF 5 = Returns 1"
proof -
  have "accessible paging_example 5 (0x2FFF + of_nat k)" if "k \<le> 2" for k
  proof -
    have "k = 0 \<or> k = 1 \<or> k = 2" using that by auto
    then show ?thesis
      by (auto simp: accessible_def pte_at_def GET_PDE_def PDEIDX_def PTABIDX_def paging_example_def drop_bit_eq_div)
  qed
  moreover have "\<forall>k<(2::nat). (if 0x2FFF + of_nat k < (0x3001 :: u32) then 65 else 0 :: u8) \<noteq> 0"
  proof (intro allI impI)
    fix k :: nat assume "k < 2"
    then have "k = 0 \<or> k = 1" by auto
    then show "(if 0x2FFF + of_nat k < (0x3001 :: u32) then 65 else 0 :: u8) \<noteq> 0" by auto
  qed
  ultimately show ?thesis
    using str_access_correct [of "\<lambda>a. if a < 0x3001 then 65 else 0" "0x2FFF" 2 paging_example 5] by simp
qed

end
