(* ===== verification/Pframe_Init.thy ===== *)
theory Pframe_Init
  imports Pdir
begin

text \<open>
  The start of the frame database, \<^verbatim>\<open>kpframe_initialize\<close> of \<^verbatim>\<open>src/src/sys/kernel/pframe.c\<close>: when
  it returns, and what it leaves in the counter of free frames.
\<close>

section \<open>Notions\<close>

text \<open>What tagging a frame leaves alone.\<close>

definition db_shape :: "'a pframe_db_scheme \<Rightarrow> u32 \<times> u32 \<times> nat" where
  "db_shape s = (freeCount s, frameCount s, length (frameArray s))"

definition tab_shape :: "'a paging_scheme \<Rightarrow> (u32 \<Rightarrow> u32) \<times> (u32 \<Rightarrow> u32) \<times> u32 \<times> nat" where
  "tab_shape s = (pdir s, ptab s, frameCount s, length (frameArray s))"

text \<open>The page at \<open>v\<close> is mapped to a frame of the database.\<close>

definition tag_ok :: "'a paging_scheme \<Rightarrow> u32 \<Rightarrow> bool" where
  "tag_ok s v \<longleftrightarrow> (\<exists>phys. kpage_virt2phys s v = Returns phys \<and> unat (BTOP phys) < length (frameArray s))"

text \<open>The pages that are tagged by their virtual address, apart from the database itself.\<close>

definition boot_pages :: "bootinfo \<Rightarrow> u32 \<Rightarrow> u32 list" where
  "boot_pages b self = [SYSPAGE_ADDRESS, self, self + PAGESIZE]
     @ map (\<lambda>k. INITRD_ADDRESS + of_nat (k * 4096)) [0..<(unat (initrd_size b) + 4095) div 4096]"

definition boot_page_ok :: "bootinfo \<Rightarrow> 'a paging_scheme \<Rightarrow> u32 \<Rightarrow> bool" where
  "boot_page_ok b s a \<longleftrightarrow> PDEIDX a \<noteq> PDEIDX PFDBBASE
     \<and> (\<exists>phys. kpage_virt2phys s a = Returns phys \<and> unat (BTOP phys) < unat (memend b div PAGESIZE))"

text \<open>The number of pages of the database, and the state in which its frames get their tags.\<close>

definition pfdbpages :: "bootinfo \<Rightarrow> u32" where
  "pfdbpages b = PAGES ((memend b div PAGESIZE) * 2)"

definition fresh_db :: "bootinfo \<Rightarrow> 'a paging_scheme \<Rightarrow> 'a paging_scheme" where
  "fresh_db b s = (map_pfdb (heapend b) (unat (pfdbpages b)) s)\<lparr>frameCount := memend b div PAGESIZE,
     useableCount := 0, freeCount := 0, frameArray := replicate (unat (pfdbpages b) * 2048) 0\<rparr>"

text \<open>What the boot loader must leave for the initialization to return.\<close>

definition boot_ok :: "bootinfo \<Rightarrow> u32 \<Rightarrow> 'a paging_scheme \<Rightarrow> bool" where
  "boot_ok b self s \<longleftrightarrow>
     unat (heapend b) + (unat (pfdbpages b) + 2) * 4096 < unat (memend b)
     \<and> PGOFF (heapend b) = 0 \<and> 0x20000 \<le> unat (memend b)
     \<and> unat self + 0x3000 \<le> 2 ^ 32 \<and> unat (initrd_size b) \<le> 0x10000000
     \<and> (\<forall>a\<in>set (boot_pages b self). boot_page_ok b s a)"

text \<open>A machine with 64 frames.\<close>

definition boot_example :: bootinfo where
  "boot_example = \<lparr>heapstart = 0x2000, heapend = 0x4000, memend = 0x40000, initrd_size = 0x2000,
     memmap = [\<lparr>me_addr = 0, me_size = 0x30000, me_type = 1\<rparr>,
               \<lparr>me_addr = 0x30000, me_size = 0x4000, me_type = 2\<rparr>]\<rparr>"

definition boot_paging :: paging where
  "boot_paging = \<lparr>freeCount = 0, useableCount = 0, frameCount = 0, frameArray = [],
     pdir = (\<lambda>i. if i = PDEIDX SYSPAGE_ADDRESS then 0x00002003 else 0),
     ptab = (\<lambda>k. if k \<ge> PTABIDX SYSPAGE_ADDRESS then PTOB (k - PTABIDX SYSPAGE_ADDRESS + 8) OR 3 else 0)\<rparr>"

section \<open>Initialization\<close>

lemma for_each_keeps:
  assumes "\<And>i s s'. f i s = Returns s' \<Longrightarrow> Q s' = Q s" and "for_each is f s = Returns s'"
  shows "Q s' = Q s"
  using assms(2)
proof (induction "is" arbitrary: s)
  case (Cons i "is")
  then show ?case using assms(1) by (fastforce simp: bind_outcome_Returns_iff)
qed simp

text \<open>Tagging frames leaves the counters and the size of the database alone.\<close>

lemma PFRAME_SET_TAG_shape: "PFRAME_SET_TAG i tag s = Returns s' \<Longrightarrow> db_shape s' = db_shape s"
  by (auto simp: PFRAME_SET_TAG_def db_shape_def split: if_splits)

lemma set_tags_shape: "set_tags i n tag s = Returns s' \<Longrightarrow> db_shape s' = db_shape s"
  unfolding set_tags_def by (rule for_each_keeps [where Q = db_shape]) (rule PFRAME_SET_TAG_shape)

lemma add_mementry_shape: "add_mementry e s = Returns s' \<Longrightarrow> db_shape s' = db_shape s"
  by (auto simp: add_mementry_def Let_def bind_outcome_Returns_iff dest!: set_tags_shape split: if_splits)
     (auto simp: db_shape_def)

lemma pages_step:
  assumes "0 < (d :: nat)"
  shows "(d + 4095) div 4096 = Suc ((d - 4096 + 4095) div 4096)"
proof (cases "d \<le> 4096")
  case True
  then show ?thesis using assms by (simp add: div_nat_eqI)
next
  case False
  then have "d + 4095 = 4096 + (d - 4096 + 4095)" by simp
  then show ?thesis using div_add_self1 [of 4096 "d - 4096 + 4095"] by simp
qed

lemma kpframe_set_tag_loop_count:
  assumes "kpframe_set_tag_loop p e tag s = Some (Returns s')" "tag \<noteq> PFT_FREE" "unat e + 4096 \<le> 2 ^ 32"
  shows "db_shape s' = (freeCount s - of_nat ((unat e - unat p + 4095) div 4096), snd (db_shape s))"
  using assms(1)
proof (induction "unat e - unat p" arbitrary: p s rule: less_induct)
  case less
  show ?case
  proof (cases "p < e")
    case False
    then show ?thesis using less.prems
      by (subst (asm) kpframe_set_tag_loop.simps) (simp add: db_shape_def word_less_nat_alt)
  next
    case True
    then have lt: "unat p < unat e" by (simp add: word_less_nat_alt)
    then have nxt: "unat (p + PAGESIZE) = unat p + 4096" using assms(3) by (simp add: unat_plus_bounded)
    obtain s1 where S: "bind_outcome (kpage_virt2phys s p) (\<lambda>phys. PFRAME_SET_TAG (unat (BTOP phys)) tag s) = Returns s1"
      "kpframe_set_tag_loop (p + PAGESIZE) e tag (s1\<lparr>freeCount := freeCount s1 - 1\<rparr>) = Some (Returns s')"
      using less.prems True assms(2)
      by (subst (asm) kpframe_set_tag_loop.simps) (auto split: outcome.splits)
    then have shape: "db_shape s1 = db_shape s"
      by (auto simp: bind_outcome_Returns_iff dest: PFRAME_SET_TAG_shape)
    have "(unat e - unat p + 4095) div 4096 = Suc ((unat e - unat (p + PAGESIZE) + 4095) div 4096)"
      using lt nxt pages_step [of "unat e - unat p"] by simp
    then show ?thesis
      using less.hyps [OF _ S(2)] lt nxt shape by (simp add: db_shape_def)
  qed
qed

lemma kpframe_set_tag_count:
  assumes "kpframe_set_tag v len tag s = Returns s'" "tag \<noteq> PFT_FREE" "unat v + unat len + 4096 \<le> 2 ^ 32"
  shows "db_shape s' = (freeCount s - of_nat ((unat len + 4095) div 4096), snd (db_shape s))"
proof -
  have e: "unat (v + len) = unat v + unat len" using assms(3) by (intro unat_plus_bounded) simp
  show ?thesis
    using assms kpframe_set_tag_loop_count [of v "v + len" tag s s'] e
    by (auto simp: kpframe_set_tag_def split: option.splits)
qed

lemma count_free_law:
  assumes "unat (frameCount s) \<le> length (frameArray s)"
  shows "count_free s = Returns (s\<lparr>freeCount := freeCount s + of_nat (card (free_frames s))\<rparr>)"
proof -
  define F where "F k = {i. i < k \<and> frame_tag s i = PFT_FREE}" for k
  have F: "F (Suc k) = (if frame_tag s k = PFT_FREE then insert k (F k) else F k)" "finite (F k)" "k \<notin> F k" for k
    by (auto simp: F_def less_Suc_eq)
  let ?P = "\<lambda>k s'. s' = s\<lparr>freeCount := freeCount s + of_nat (card (F k))\<rparr>"
  have "\<exists>s'. count_free s = Returns s' \<and> ?P (unat (frameCount s)) s'"
    unfolding count_free_def
  proof (rule for_each_upt [where P = ?P])
    show "?P 0 s" by (simp add: F_def)
  next
    fix k s1 assume k: "k < unat (frameCount s)" and "?P k s1"
    then show "\<exists>s2. bind_outcome (PFRAME_GET_TAG s1 k) (\<lambda>tag.
         Returns (if tag = PFT_FREE then s1\<lparr>freeCount := freeCount s1 + 1\<rparr> else s1)) = Returns s2 \<and> ?P (Suc k) s2"
      using F assms by (simp add: PFRAME_GET_TAG_def frame_tag_def add.assoc add.commute)
  qed
  then show ?thesis by (simp add: F_def free_frames_def)
qed

lemma pfdb_pages_bound: "unat (PAGES ((mend div PAGESIZE) * 2)) \<le> 512" (is "unat (PAGES ?x) \<le> _")
  and pfdb_pages_enough: "unat (mend div PAGESIZE) \<le> unat (PAGES ((mend div PAGESIZE) * 2)) * 2048"
proof -
  have m: "unat (mend div PAGESIZE) < 2 ^ 20"
    using unat_u32_bound [of mend] by (simp add: unat_div)
  then have x: "unat ?x = unat (mend div PAGESIZE) * 2" by (simp add: unat_word_ariths unat_div)
  have "unat (?x + (PAGESIZE - 1)) = unat ?x + 4095" using x m by (subst unat_plus_bounded) auto
  then have p: "unat (PAGES ?x) = (unat (mend div PAGESIZE) * 2 + 4095) div 4096"
    unfolding PAGES_def using x by (simp add: drop_bit_eq_div unat_div)
  show "unat (PAGES ?x) \<le> 512" unfolding p using m by simp
  show "unat (mend div PAGESIZE) \<le> unat (PAGES ?x) * 2048" unfolding p by linarith
qed

lemma pfdbpages_bound: "unat (pfdbpages b) \<le> 512"
  and pfdbpages_enough: "unat (memend b div PAGESIZE) \<le> unat (pfdbpages b) * 2048"
  unfolding pfdbpages_def by (rule pfdb_pages_bound, rule pfdb_pages_enough)

lemma pfdbpages_bytes: "unat (pfdbpages b * PAGESIZE) = unat (pfdbpages b) * 4096"
  using pfdbpages_bound [of b] by (simp add: unat_word_ariths)

lemmas pfdb_facts = pfdbpages_bound pfdbpages_enough pfdbpages_bytes

text \<open>The steps of the initialization, as one chain of states.\<close>

lemma kpframe_initialize_steps:
  assumes "kpframe_initialize b self s = Returns s'"
  shows "\<exists>s1 s2 s3 s4 s5 s6 s7 s8 s9.
    set_tags 0 (unat (frameCount (fresh_db b s))) PFT_BAD (fresh_db b s) = Returns s1
    \<and> for_each (memmap b) add_mementry s1 = Returns s2
    \<and> PFRAME_SET_TAG 0 PFT_RESERVED s2 = Returns s3
    \<and> set_tags (unat (heapstart b div PAGESIZE))
       (unat ((heapend b + PAGESIZE + pfdbpages b * PAGESIZE) div PAGESIZE)) PFT_PTAB
       (s3\<lparr>useableCount := useableCount s3 - 1\<rparr>) = Returns s4
    \<and> set_tags 16 32 PFT_DMA s4 = Returns s5
    \<and> kpframe_set_tag PFDBBASE (pfdbpages b * PAGESIZE) PFT_PFDB s5 = Returns s6
    \<and> kpframe_set_tag SYSPAGE_ADDRESS PAGESIZE PFT_SYS s6 = Returns s7
    \<and> kpframe_set_tag self 0x2000 PFT_TCB s7 = Returns s8
    \<and> kpframe_set_tag INITRD_ADDRESS (initrd_size b) PFT_BOOT s8 = Returns s9
    \<and> count_free s9 = Returns s'"
  using assms
  unfolding kpframe_initialize_def Let_def pfdbpages_def [symmetric] fresh_db_def [symmetric]
  by (auto simp: bind_outcome_Returns_iff split: if_splits)

lemma kpframe_initialize_law:
  assumes init: "kpframe_initialize b self s = Returns s'"
    and self: "unat self + 0x3000 \<le> 2 ^ 32" and initrd: "unat (initrd_size b) \<le> 0x10000000"
  shows "frameCount s' = memend b div PAGESIZE \<and> unat (frameCount s') \<le> length (frameArray s')
     \<and> count_drift s' = of_nat (unat (pfdbpages b) + 3 + (unat (initrd_size b) + 4095) div 4096)"
proof -
  let ?s0 = "fresh_db b s" and ?k = "unat (pfdbpages b) + 3 + (unat (initrd_size b) + 4095) div 4096"
  have shape0: "db_shape ?s0 = (0, memend b div PAGESIZE, unat (pfdbpages b) * 2048)"
    by (simp add: fresh_db_def db_shape_def)
  obtain s1 s2 s3 s4 s5 s6 s7 s8 s9 where S:
    "set_tags 0 (unat (frameCount ?s0)) PFT_BAD ?s0 = Returns s1"
    "for_each (memmap b) add_mementry s1 = Returns s2"
    "PFRAME_SET_TAG 0 PFT_RESERVED s2 = Returns s3"
    "set_tags (unat (heapstart b div PAGESIZE))
       (unat ((heapend b + PAGESIZE + pfdbpages b * PAGESIZE) div PAGESIZE)) PFT_PTAB
       (s3\<lparr>useableCount := useableCount s3 - 1\<rparr>) = Returns s4"
    "set_tags 16 32 PFT_DMA s4 = Returns s5"
    "kpframe_set_tag PFDBBASE (pfdbpages b * PAGESIZE) PFT_PFDB s5 = Returns s6"
    "kpframe_set_tag SYSPAGE_ADDRESS PAGESIZE PFT_SYS s6 = Returns s7"
    "kpframe_set_tag self 0x2000 PFT_TCB s7 = Returns s8"
    "kpframe_set_tag INITRD_ADDRESS (initrd_size b) PFT_BOOT s8 = Returns s9" "count_free s9 = Returns s'"
    using kpframe_initialize_steps [OF init] by blast
  have "db_shape s2 = db_shape s1" by (rule for_each_keeps [OF _ S(2)]) (rule add_mementry_shape)
  then have "db_shape s5 = db_shape ?s0"
    using set_tags_shape [OF S(1)] PFRAME_SET_TAG_shape [OF S(3)] set_tags_shape [OF S(4)] set_tags_shape [OF S(5)]
    by (simp add: db_shape_def)
  then have "db_shape s9 = (- of_nat ?k, snd (db_shape ?s0))"
    using kpframe_set_tag_count [OF S(6)] kpframe_set_tag_count [OF S(7)] kpframe_set_tag_count [OF S(8)]
      kpframe_set_tag_count [OF S(9)] pfdb_facts [of b] self initrd shape0
    by (simp add: db_shape_def)
  then have s9: "freeCount s9 = - of_nat ?k" "frameCount s9 = memend b div PAGESIZE"
    "length (frameArray s9) = unat (pfdbpages b) * 2048"
    using shape0 by (simp_all add: db_shape_def)
  then have "s' = s9\<lparr>freeCount := freeCount s9 + of_nat (card (free_frames s9))\<rparr>"
    using count_free_law [of s9] S(10) pfdbpages_enough [of b] by simp
  moreover have "free_frames (s9\<lparr>freeCount := k\<rparr>) = free_frames s9" for k
    by (simp add: free_frames_def frame_tag_def)
  ultimately show ?thesis using s9 pfdbpages_enough [of b] unfolding count_drift_def by simp
qed

text \<open>Initialization returns when the pages it tags are mapped to frames that exist.\<close>

lemma for_each_total:
  assumes "\<And>i s. i \<in> set is \<Longrightarrow> I s \<Longrightarrow> \<exists>s'. f i s = Returns s' \<and> I s'" and "I s"
  shows "\<exists>s'. for_each is f s = Returns s' \<and> I s'"
  using assms
proof (induction "is" arbitrary: s)
  case (Cons i "is")
  then obtain s1 where "f i s = Returns s1" "I s1" by (meson list.set_intros(1))
  then show ?case using Cons.IH [of s1] Cons.prems(1) by simp
qed simp

lemma PFRAME_SET_TAG_total:
  "i < length (frameArray s) \<Longrightarrow> \<exists>s'. PFRAME_SET_TAG i tag s = Returns s' \<and> tab_shape s' = tab_shape s"
  by (simp add: PFRAME_SET_TAG_def tab_shape_def)

lemma set_tags_total:
  assumes "n \<le> length (frameArray s)"
  shows "\<exists>s'. set_tags i n tag s = Returns s' \<and> tab_shape s' = tab_shape s"
  unfolding set_tags_def
proof (rule for_each_total)
  fix k s1 assume "k \<in> set [i..<n]" "tab_shape s1 = tab_shape s"
  then show "\<exists>s2. PFRAME_SET_TAG k tag s1 = Returns s2 \<and> tab_shape s2 = tab_shape s"
    using PFRAME_SET_TAG_total [of k s1 tag] assms by (auto simp: tab_shape_def)
qed simp

lemma add_mementry_total:
  assumes "unat (frameCount s) \<le> length (frameArray s)"
  shows "\<exists>s'. add_mementry e s = Returns s' \<and> tab_shape s' = tab_shape s"
proof -
  define first until where "first = (ucast (me_addr e) :: u32) div PAGESIZE"
    and "until = (let u = first + (ucast (me_size e) :: u32) div PAGESIZE in
                   if u > frameCount s then frameCount s else u)"
  have "until \<le> frameCount s" by (auto simp: until_def Let_def not_less)
  then have lim: "unat until \<le> length (frameArray s)" using assms by (simp add: word_le_nat_alt)
  obtain s1 where "set_tags (unat first) (unat until) PFT_FREE s = Returns s1" "tab_shape s1 = tab_shape s"
    using set_tags_total [OF lim] by blast
  moreover obtain s2 where "set_tags (unat first) (unat until) PFT_RESERVED s = Returns s2" "tab_shape s2 = tab_shape s"
    using set_tags_total [OF lim] by blast
  ultimately show ?thesis
    unfolding add_mementry_def Let_def first_def [symmetric] until_def [unfolded Let_def, symmetric]
    by (auto simp: tab_shape_def)
qed

lemma tag_ok_shape: "tab_shape s' = tab_shape s \<Longrightarrow> tag_ok s' v = tag_ok s v"
  by (simp add: tag_ok_def tab_shape_def kpage_virt2phys_def GET_PTE_def GET_PDE_def)

lemma kpframe_set_tag_loop_total:
  assumes "unat e + 4096 \<le> 2 ^ 32" and "\<forall>k. unat p + k * 4096 < unat e \<longrightarrow> tag_ok s (p + of_nat (k * 4096))"
  shows "\<exists>s'. kpframe_set_tag_loop p e tag s = Some (Returns s') \<and> tab_shape s' = tab_shape s"
  using assms(2)
proof (induction "unat e - unat p" arbitrary: p s rule: less_induct)
  case less
  show ?case
  proof (cases "p < e")
    case False
    then show ?thesis by (subst kpframe_set_tag_loop.simps) simp
  next
    case True
    then have lt: "unat p < unat e" by (simp add: word_less_nat_alt)
    then have nxt: "unat (p + PAGESIZE) = unat p + 4096" using assms(1) by (simp add: unat_plus_bounded)
    have "tag_ok s p" using less.prems [rule_format, of 0] lt by simp
    then obtain phys s1 where S: "kpage_virt2phys s p = Returns phys"
      "PFRAME_SET_TAG (unat (BTOP phys)) tag s = Returns s1" "tab_shape s1 = tab_shape s"
      unfolding tag_ok_def using PFRAME_SET_TAG_total by blast
    define s2 where "s2 = (if tag = PFT_FREE then s1\<lparr>freeCount := freeCount s1 + 1\<rparr>
                           else s1\<lparr>freeCount := freeCount s1 - 1\<rparr>)"
    have shape: "tab_shape s2 = tab_shape s" using S(3) by (simp add: s2_def tab_shape_def)
    have "tag_ok s2 (p + PAGESIZE + of_nat (k * 4096))" if "unat (p + PAGESIZE) + k * 4096 < unat e" for k
      using less.prems [rule_format, of "Suc k"] that nxt tag_ok_shape [OF shape] by (simp add: algebra_simps)
    moreover have "unat e - unat (p + PAGESIZE) < unat e - unat p" using lt nxt by simp
    ultimately obtain s3 where "kpframe_set_tag_loop (p + PAGESIZE) e tag s2 = Some (Returns s3)" "tab_shape s3 = tab_shape s2"
      using less.hyps [of "p + PAGESIZE" s2] by blast
    then show ?thesis using True S shape by (subst kpframe_set_tag_loop.simps) (simp add: s2_def)
  qed
qed

lemma kpframe_set_tag_total:
  assumes "unat v + unat len + 4096 \<le> 2 ^ 32" and "\<forall>k. k * 4096 < unat len \<longrightarrow> tag_ok s (v + of_nat (k * 4096))"
  shows "\<exists>s'. kpframe_set_tag v len tag s = Returns s' \<and> tab_shape s' = tab_shape s"
proof -
  have e: "unat (v + len) = unat v + unat len" using assms(1) by (intro unat_plus_bounded) simp
  obtain s' where "kpframe_set_tag_loop v (v + len) tag s = Some (Returns s')" "tab_shape s' = tab_shape s"
    using kpframe_set_tag_loop_total [of "v + len" v s tag] e assms by auto
  then show ?thesis by (simp add: kpframe_set_tag_def)
qed

lemma unat_pfdb_index: "k < 512 \<Longrightarrow> unat (PTABIDX PFDBBASE + of_nat k) = 0x90800 + k"
  by (subst unat_plus_bounded) (auto simp: unat_PTABIDX unat_of_nat_u32)

lemma PTABIDX_pfdb: "k < 512 \<Longrightarrow> PTABIDX (PFDBBASE + of_nat (k * 4096)) = PTABIDX PFDBBASE + of_nat k"
  and PDEIDX_pfdb: "k < 512 \<Longrightarrow> drop_bit 10 (PTABIDX PFDBBASE + of_nat k) = PDEIDX PFDBBASE"
  and PGOFF_pfdb: "k < 512 \<Longrightarrow> PGOFF (PFDBBASE + of_nat (k * 4096)) = 0"
proof -
  assume k: "k < 512"
  have n: "unat (of_nat k :: u32) = k" "unat (of_nat (k * 4096) :: u32) = k * 4096"
    using k by (simp_all add: unat_of_nat_u32 del: of_nat_mult)
  have a: "unat (PFDBBASE + of_nat (k * 4096)) = 0x90800000 + k * 4096"
    using n(2) k by (subst unat_plus_bounded) (auto simp del: of_nat_mult)
  have b: "unat (PTABIDX PFDBBASE + of_nat k) = 0x90800 + k"
    using k by (rule unat_pfdb_index)
  show "PTABIDX (PFDBBASE + of_nat (k * 4096)) = PTABIDX PFDBBASE + of_nat k"
    unfolding word_unat_eq_iff b unat_PTABIDX a by simp
  show "drop_bit 10 (PTABIDX PFDBBASE + of_nat k) = PDEIDX PFDBBASE"
    unfolding word_unat_eq_iff unat_PDEIDX drop_bit_eq_div unat_div b using k by simp
  show "PGOFF (PFDBBASE + of_nat (k * 4096)) = 0"
    unfolding word_unat_eq_iff unat_PGOFF a by simp
qed

lemma fold_upd_other: "\<forall>i<n. f i \<noteq> x \<Longrightarrow> fold (\<lambda>i m. m(f i := g i)) [0..<n] m x = m x"
  by (induction n) auto

lemma fold_upd_at:
  "inj_on f {..<n} \<Longrightarrow> k < n \<Longrightarrow> fold (\<lambda>i m. m(f i := g i)) [0..<n] m (f k) = g k"
proof (induction n)
  case (Suc n)
  have "f k = f n \<Longrightarrow> k = n" using Suc.prems by (auto simp: inj_on_def)
  then show ?case using Suc by (cases "k = n") (auto simp: inj_on_def)
qed simp

lemma aligned_PTOB: "PGOFF h = 0 \<Longrightarrow> PTOB (BTOP h) = h"
proof -
  assume "PGOFF h = 0"
  then have "unat h mod 4096 = 0" using unat_PGOFF [of h] by simp
  then have "unat h div 4096 * 4096 = unat h" by auto
  then show ?thesis unfolding word_unat_eq_iff unat_PTOB unat_BTOP using unat_u32_bound [of h] by simp
qed

lemma PGOFF_add_pages:
  assumes "PGOFF h = 0" shows "PGOFF (h + PAGESIZE * k) = 0"
proof -
  have "4096 dvd unat h" using assms unat_PGOFF [of h] by (simp add: dvd_eq_mod_eq_0)
  then have "4096 dvd unat (h + PAGESIZE * k)"
    unfolding unat_word_ariths by (intro dvd_mod dvd_add) auto
  then show ?thesis unfolding word_unat_eq_iff unat_PGOFF by (simp add: dvd_eq_mod_eq_0)
qed

lemma virt2phys_map_pfdb_other:
  assumes "PDEIDX a \<noteq> PDEIDX PFDBBASE" "n \<le> 512"
  shows "kpage_virt2phys (map_pfdb heap n s) a = kpage_virt2phys s a"
proof -
  have "\<forall>i<n. PTABIDX PFDBBASE + of_nat i \<noteq> PTABIDX a"
  proof (intro allI impI notI)
    fix i assume "i < n" "PTABIDX PFDBBASE + of_nat i = PTABIDX a"
    then have "PDEIDX a = PDEIDX PFDBBASE"
      using PDEIDX_pfdb [of i] assms(2) by (simp add: PDEIDX_PTABIDX [of a])
    with assms(1) show False ..
  qed
  then show ?thesis
    using assms(1)
    by (simp add: kpage_virt2phys_def GET_PTE_def GET_PDE_def map_pfdb_def Let_def SET_PDE_def clear_ptab_def
        PDEIDX_PTABIDX fold_upd_other)
qed

lemma virt2phys_map_pfdb:
  assumes k: "k < n" "n \<le> 512" and al: "PGOFF heap = 0"
  shows "kpage_virt2phys (map_pfdb heap n s) (PFDBBASE + of_nat (k * 4096)) = Returns (heap + PAGESIZE * (of_nat k + 1))"
proof -
  have kk: "k < 512" using k by simp
  define h where "h = heap + PAGESIZE * (of_nat k + 1)"
  have h: "PTOB (BTOP h) = h" unfolding h_def by (intro aligned_PTOB PGOFF_add_pages al)
  have small: "(3 :: u32) AND PT_PFNMASK = 0" by (simp add: PT_PFNMASK_def)
  have pte: "(h OR 3) AND PT_PFNMASK = h" using PFNMASK_of_pte [OF small, of "BTOP h"] unfolding h .
  have inj: "inj_on (\<lambda>i. PTABIDX PFDBBASE + of_nat i :: u32) {..<n}"
  proof (rule inj_onI)
    fix x y assume xy: "x \<in> {..<n}" "y \<in> {..<n}"
      and "PTABIDX PFDBBASE + of_nat x = (PTABIDX PFDBBASE + of_nat y :: u32)"
    from this(3) have "unat (PTABIDX PFDBBASE + of_nat x) = unat (PTABIDX PFDBBASE + of_nat y)" by (rule arg_cong)
    then show "x = y" unfolding unat_pfdb_index [OF order_less_le_trans [OF xy(1) [unfolded lessThan_iff] k(2)]]
        unat_pfdb_index [OF order_less_le_trans [OF xy(2) [unfolded lessThan_iff] k(2)]] by simp
  qed
  have pde: "PDEIDX (PFDBBASE + of_nat (k * 4096)) = PDEIDX PFDBBASE"
    unfolding PDEIDX_PTABIDX [of "PFDBBASE + of_nat (k * 4096)"] PTABIDX_pfdb [OF kk] by (rule PDEIDX_pfdb [OF kk])
  have idx: "PTABIDX (PFDBBASE + of_nat (k * 4096)) = PTABIDX PFDBBASE + of_nat k"
    "PGOFF (PFDBBASE + of_nat (k * 4096)) = 0" by (rule PTABIDX_pfdb [OF kk], rule PGOFF_pfdb [OF kk])
  show ?thesis
    unfolding kpage_virt2phys_def GET_PTE_def GET_PDE_def pde idx map_pfdb_def Let_def SET_PDE_def clear_ptab_def
    using fold_upd_at [OF inj k(1), of "\<lambda>i. (heap + PAGESIZE * (of_nat i + 1)) OR PT_PRESENT OR PT_WRITABLE"] pte
    by (simp add: present_bit h_def)
qed

lemma tab_shape_len: "tab_shape s' = tab_shape s \<Longrightarrow> length (frameArray s') = length (frameArray s)"
  by (simp add: tab_shape_def)

lemma fresh_db_simps [simp]:
  "frameCount (fresh_db b s) = memend b div PAGESIZE"
  "length (frameArray (fresh_db b s)) = unat (pfdbpages b) * 2048"
  "kpage_virt2phys (fresh_db b s) = kpage_virt2phys (map_pfdb (heapend b) (unat (pfdbpages b)) s)"
  by (simp_all add: fresh_db_def kpage_virt2phys_def GET_PTE_def GET_PDE_def fun_eq_iff)

lemma fresh_db_pfdb_ok:
  assumes ok: "boot_ok b self s" and "k * 4096 < unat (pfdbpages b * PAGESIZE)"
  shows "tag_ok (fresh_db b s) (PFDBBASE + of_nat (k * 4096))"
proof -
  let ?n = "unat (pfdbpages b)"
  have k: "k < ?n" and n: "?n \<le> 512" using assms(2) pfdb_facts [of b] by simp_all
  have space: "unat (heapend b) + (?n + 2) * 4096 < unat (memend b)" using ok by (simp add: boot_ok_def)
  have "unat (PAGESIZE * (of_nat k + 1) :: u32) = 4096 * (k + 1)"
    using k n by (simp add: unat_word_ariths unat_of_nat_u32)
  then have heap: "unat (heapend b + PAGESIZE * (of_nat k + 1)) = unat (heapend b) + 4096 * (k + 1)"
    using k space unat_u32_bound [of "memend b"] by (subst unat_plus_bounded) auto
  have "4096 * (k + 1) \<le> 4096 * ?n" using k by simp
  then have "unat (BTOP (heapend b + PAGESIZE * (of_nat k + 1))) < unat (memend b div PAGESIZE)"
    using space unfolding unat_BTOP heap by (simp add: unat_div)
  then show ?thesis
    using virt2phys_map_pfdb [OF k n, of "heapend b" s] pfdbpages_enough [of b] ok
    by (simp add: tag_ok_def boot_ok_def del: of_nat_mult)
qed

lemma fresh_db_page_ok:
  assumes ok: "boot_ok b self s" and a: "a \<in> set (boot_pages b self)"
  shows "tag_ok (fresh_db b s) a"
proof -
  obtain phys where P: "PDEIDX a \<noteq> PDEIDX PFDBBASE" "kpage_virt2phys s a = Returns phys"
    "unat (BTOP phys) < unat (memend b div PAGESIZE)"
    using ok a by (auto simp: boot_ok_def boot_page_ok_def)
  then show ?thesis
    using virt2phys_map_pfdb_other [OF P(1) pfdbpages_bound [of b], of "heapend b" s] pfdbpages_enough [of b]
    by (simp add: tag_ok_def)
qed

lemma fresh_db_bounds:
  assumes ok: "boot_ok b self s"
  shows "\<not> (pfdbpages b + 2) * PAGESIZE + heapend b \<ge> memend b"
    and "unat ((heapend b + PAGESIZE + pfdbpages b * PAGESIZE) div PAGESIZE) \<le> length (frameArray (fresh_db b s))"
    and "32 \<le> length (frameArray (fresh_db b s))"
proof -
  have space: "unat (heapend b) + (unat (pfdbpages b) + 2) * 4096 < unat (memend b)"
    and mem: "0x20000 \<le> unat (memend b)" using ok by (auto simp: boot_ok_def)
  have "unat ((pfdbpages b + 2) * PAGESIZE) = (unat (pfdbpages b) + 2) * 4096"
    using pfdbpages_bound [of b] by (simp add: unat_word_ariths)
  then show "\<not> (pfdbpages b + 2) * PAGESIZE + heapend b \<ge> memend b"
    using space unat_u32_bound [of "memend b"] by (simp add: word_le_nat_alt unat_plus_bounded)
  have "unat (heapend b + PAGESIZE + pfdbpages b * PAGESIZE) \<le> unat (memend b)"
    using space pfdb_facts [of b] unat_u32_bound [of "memend b"] by (simp add: unat_plus_bounded)
  then have "unat ((heapend b + PAGESIZE + pfdbpages b * PAGESIZE) div PAGESIZE) \<le> unat (memend b div PAGESIZE)"
    by (simp add: unat_div div_le_mono)
  then show "unat ((heapend b + PAGESIZE + pfdbpages b * PAGESIZE) div PAGESIZE) \<le> length (frameArray (fresh_db b s))"
    using pfdbpages_enough [of b] by simp
  have "32 \<le> unat (memend b div PAGESIZE)" using mem by (simp add: unat_div)
  then show "32 \<le> length (frameArray (fresh_db b s))" using pfdbpages_enough [of b] by simp
qed

text \<open>The tags that are set by frame number, and then those that are set by address.\<close>

lemma frame_tags_total:
  assumes "unat (frameCount s0) \<le> length (frameArray s0)" "32 \<le> length (frameArray s0)"
    "unat h \<le> length (frameArray s0)"
  shows "\<exists>s1 s2 s3 s4 s5. set_tags 0 (unat (frameCount s0)) PFT_BAD s0 = Returns s1
    \<and> for_each es add_mementry s1 = Returns s2 \<and> PFRAME_SET_TAG 0 PFT_RESERVED s2 = Returns s3
    \<and> set_tags i (unat h) PFT_PTAB (s3\<lparr>useableCount := useableCount s3 - 1\<rparr>) = Returns s4
    \<and> set_tags 16 32 PFT_DMA s4 = Returns s5 \<and> tab_shape s5 = tab_shape s0"
proof -
  obtain s1 where S1: "set_tags 0 (unat (frameCount s0)) PFT_BAD s0 = Returns s1" "tab_shape s1 = tab_shape s0"
    using set_tags_total [OF assms(1)] by blast
  have "\<exists>s2. for_each es add_mementry s1 = Returns s2 \<and> tab_shape s2 = tab_shape s0"
  proof (rule for_each_total)
    fix e t assume "tab_shape t = tab_shape s0"
    then show "\<exists>t'. add_mementry e t = Returns t' \<and> tab_shape t' = tab_shape s0"
      using add_mementry_total [of t e] assms(1) by (simp add: tab_shape_def)
  qed (rule S1(2))
  then obtain s2 where S2: "for_each es add_mementry s1 = Returns s2" "tab_shape s2 = tab_shape s0" by blast
  have "0 < length (frameArray s2)" using tab_shape_len [OF S2(2)] assms(2) by linarith
  then obtain s3 where S3: "PFRAME_SET_TAG 0 PFT_RESERVED s2 = Returns s3" "tab_shape s3 = tab_shape s0"
    using PFRAME_SET_TAG_total [of 0 s2 PFT_RESERVED] S2(2) by auto
  let ?s = "s3\<lparr>useableCount := useableCount s3 - 1\<rparr>"
  have eq: "tab_shape ?s = tab_shape s0" using S3(2) by (simp add: tab_shape_def)
  obtain s4 where S4: "set_tags i (unat h) PFT_PTAB ?s = Returns s4" "tab_shape s4 = tab_shape s0"
    using set_tags_total [OF assms(3) [folded tab_shape_len [OF eq]]] eq by metis
  obtain s5 where "set_tags 16 32 PFT_DMA s4 = Returns s5" "tab_shape s5 = tab_shape s0"
    using set_tags_total [OF assms(2) [folded tab_shape_len [OF S4(2)]]] S4(2) by metis
  with S1 S2 S3 S4 show ?thesis by blast
qed

lemma address_tags_total:
  assumes ok: "boot_ok b self s" and s5: "tab_shape s5 = tab_shape (fresh_db b s)"
  shows "\<exists>s6 s7 s8 s9. kpframe_set_tag PFDBBASE (pfdbpages b * PAGESIZE) PFT_PFDB s5 = Returns s6
    \<and> kpframe_set_tag SYSPAGE_ADDRESS PAGESIZE PFT_SYS s6 = Returns s7
    \<and> kpframe_set_tag self 0x2000 PFT_TCB s7 = Returns s8
    \<and> kpframe_set_tag INITRD_ADDRESS (initrd_size b) PFT_BOOT s8 = Returns s9
    \<and> tab_shape s9 = tab_shape (fresh_db b s)"
proof -
  note page = fresh_db_page_ok [OF ok]
  have lim: "unat self + 0x3000 \<le> 2 ^ 32" "unat (initrd_size b) \<le> 0x10000000"
    using ok by (auto simp: boot_ok_def)
  obtain s6 where S6: "kpframe_set_tag PFDBBASE (pfdbpages b * PAGESIZE) PFT_PFDB s5 = Returns s6"
      "tab_shape s6 = tab_shape (fresh_db b s)"
    using kpframe_set_tag_total [of PFDBBASE "pfdbpages b * PAGESIZE" s5] fresh_db_pfdb_ok [OF ok]
      tag_ok_shape [OF s5] s5 pfdb_facts [of b] by fastforce
  obtain s7 where S7: "kpframe_set_tag SYSPAGE_ADDRESS PAGESIZE PFT_SYS s6 = Returns s7"
      "tab_shape s7 = tab_shape (fresh_db b s)"
    using kpframe_set_tag_total [of SYSPAGE_ADDRESS PAGESIZE s6] page [of SYSPAGE_ADDRESS] tag_ok_shape [OF S6(2)] S6(2)
    by (fastforce simp: boot_pages_def)
  have "tag_ok s7 (self + of_nat (k * 4096))" if "k * 4096 < unat (0x2000 :: u32)" for k
  proof -
    have "tag_ok s7 self" "tag_ok s7 (self + PAGESIZE)"
      unfolding tag_ok_shape [OF S7(2)] by (rule page, simp add: boot_pages_def)+
    moreover have "k = 0 \<or> k = 1" using that by auto
    ultimately show ?thesis by (elim disjE) simp_all
  qed
  then obtain s8 where S8: "kpframe_set_tag self 0x2000 PFT_TCB s7 = Returns s8" "tab_shape s8 = tab_shape (fresh_db b s)"
    using kpframe_set_tag_total [where v = self and len = "0x2000" and s = s7 and tag = PFT_TCB] lim S7(2) by auto
  have "tag_ok s8 (INITRD_ADDRESS + of_nat (k * 4096))" if "k * 4096 < unat (initrd_size b)" for k
  proof -
    have "k < (unat (initrd_size b) + 4095) div 4096" using that by linarith
    then have "INITRD_ADDRESS + of_nat (k * 4096) \<in> set (boot_pages b self)"
      unfolding boot_pages_def set_append set_map by (intro UnI2 imageI) simp
    then show ?thesis using page tag_ok_shape [OF S8(2)] by blast
  qed
  then obtain s9 where "kpframe_set_tag INITRD_ADDRESS (initrd_size b) PFT_BOOT s8 = Returns s9"
      "tab_shape s9 = tab_shape (fresh_db b s)"
    using kpframe_set_tag_total [where v = INITRD_ADDRESS and len = "initrd_size b" and s = s8 and tag = PFT_BOOT]
      lim S8(2) by auto
  with S6 S7 S8 show ?thesis by blast
qed

lemma kpframe_initialize_total:
  assumes ok: "boot_ok b self s"
  shows "\<exists>s'. kpframe_initialize b self s = Returns s'"
proof -
  note bounds = fresh_db_bounds [OF ok]
  have big: "unat (frameCount (fresh_db b s)) \<le> length (frameArray (fresh_db b s))"
    using pfdbpages_enough by simp
  obtain s1 s2 s3 s4 s5 where F: "set_tags 0 (unat (frameCount (fresh_db b s))) PFT_BAD (fresh_db b s) = Returns s1"
    "for_each (memmap b) add_mementry s1 = Returns s2" "PFRAME_SET_TAG 0 PFT_RESERVED s2 = Returns s3"
    "set_tags (unat (heapstart b div PAGESIZE))
       (unat ((heapend b + PAGESIZE + pfdbpages b * PAGESIZE) div PAGESIZE)) PFT_PTAB
       (s3\<lparr>useableCount := useableCount s3 - 1\<rparr>) = Returns s4"
    "set_tags 16 32 PFT_DMA s4 = Returns s5" "tab_shape s5 = tab_shape (fresh_db b s)"
    using frame_tags_total [OF big bounds(3,2)] by metis
  obtain s6 s7 s8 s9 where A: "kpframe_set_tag PFDBBASE (pfdbpages b * PAGESIZE) PFT_PFDB s5 = Returns s6"
    "kpframe_set_tag SYSPAGE_ADDRESS PAGESIZE PFT_SYS s6 = Returns s7"
    "kpframe_set_tag self 0x2000 PFT_TCB s7 = Returns s8"
    "kpframe_set_tag INITRD_ADDRESS (initrd_size b) PFT_BOOT s8 = Returns s9"
    "tab_shape s9 = tab_shape (fresh_db b s)"
    using address_tags_total [OF ok F(6)] by metis
  have "\<exists>s'. count_free s9 = Returns s'"
    using count_free_law [of s9] A(5) big by (simp add: tab_shape_def)
  then show ?thesis
    using bounds(1) F(1-5) A(1-4)
    unfolding kpframe_initialize_def Let_def pfdbpages_def [symmetric] fresh_db_def [symmetric] by simp
qed

lemma boot_example_ok: "boot_ok boot_example 0x90402000 boot_paging"
  by (simp add: boot_ok_def boot_example_def boot_pages_def boot_page_ok_def PAGES_def PGOFF_def PDEIDX_def
      PTABIDX_def kpage_virt2phys_def GET_PTE_def GET_PDE_def boot_paging_def BTOP_def PTOB_def PT_PFNMASK_def
      pfdbpages_def drop_bit_eq_div push_bit_eq_mult upt_rec)

section \<open>Properties\<close>

text \<open>
  C31. On a machine whose boot pages are mapped, the initialization of the frame database returns.
  It covers all frames of memory, but the counter of free frames comes out too low by the
  number of pages that were tagged by address before the free frames were counted.
\<close>

theorem kpframe_initialize_correct:
  assumes "boot_ok b self s"
  shows "\<exists>s'. kpframe_initialize b self s = Returns s' \<and> frameCount s' = memend b div PAGESIZE
     \<and> unat (frameCount s') \<le> length (frameArray s')
     \<and> freeCount s' = of_nat (card (free_frames s'))
         - of_nat (unat (pfdbpages b) + 3 + (unat (initrd_size b) + 4095) div 4096)"
proof -
  obtain s' where s': "kpframe_initialize b self s = Returns s'"
    using kpframe_initialize_total [OF assms] by blast
  have "unat self + 0x3000 \<le> 2 ^ 32" "unat (initrd_size b) \<le> 0x10000000"
    using assms by (auto simp: boot_ok_def)
  from kpframe_initialize_law [OF s' this] s' show ?thesis
    by (auto simp: count_drift_def algebra_simps)
qed

theorem kpframe_initialize_correct_witness:
  "\<exists>s'. kpframe_initialize boot_example 0x90402000 boot_paging = Returns s' \<and> frameCount s' = 64
     \<and> freeCount s' = of_nat (card (free_frames s')) - 6"
  using kpframe_initialize_correct [OF boot_example_ok]
  by (auto simp: boot_example_def pfdbpages_def PAGES_def drop_bit_eq_div)

end
