(* ===== verification/Linked.thy ===== *)
theory Linked
  imports Prelude
begin

text \<open>
  Linked lists through fields of the elements, as the kernel uses them for its ready queues,
  wait lists and object queues: a head and a tail pointer, a next and a previous pointer in
  each element, NULL at both ends. The lemmas say what the three ways of changing such a list
  do to the sequence of its elements.
\<close>

section \<open>Notions\<close>

text \<open>The first element of a list, or \<open>q\<close>; the last one, or \<open>p\<close>.\<close>

primrec first :: "'a list \<Rightarrow> 'a option \<Rightarrow> 'a option" where
  "first [] q = q"
| "first (x # xs) q = Some x"

primrec final :: "'a list \<Rightarrow> 'a option \<Rightarrow> 'a option" where
  "final [] p = p"
| "final (x # xs) p = final xs (Some x)"

text \<open>\<open>xs\<close> is linked in both directions; \<open>p\<close> is before its first element and \<open>q\<close> after its last.\<close>

primrec dseg :: "('a \<Rightarrow> 'a option) \<Rightarrow> ('a \<Rightarrow> 'a option) \<Rightarrow> 'a option \<Rightarrow> 'a list \<Rightarrow> 'a option \<Rightarrow> bool" where
  "dseg nx pv p [] q \<longleftrightarrow> True"
| "dseg nx pv p (x # xs) q \<longleftrightarrow> pv x = p \<and> nx x = first xs q \<and> dseg nx pv (Some x) xs q"

definition dll :: "('a \<Rightarrow> 'a option) \<Rightarrow> ('a \<Rightarrow> 'a option) \<Rightarrow> 'a option \<Rightarrow> 'a option \<Rightarrow> 'a list \<Rightarrow> bool" where
  "dll nx pv h t xs \<longleftrightarrow> distinct xs \<and> h = first xs None \<and> t = final xs None \<and> dseg nx pv None xs None"

text \<open>\<open>xs\<close> is linked in both directions into a ring with the head \<open>h\<close>.\<close>

definition ring :: "('a \<Rightarrow> 'a option) \<Rightarrow> ('a \<Rightarrow> 'a option) \<Rightarrow> 'a \<Rightarrow> 'a list \<Rightarrow> bool" where
  "ring nx pv h xs \<longleftrightarrow> distinct (h # xs) \<and> dseg nx pv (final xs (Some h)) (h # xs) (Some h)"

text \<open>Lists linked in one direction only.\<close>

primrec sseg :: "('a \<Rightarrow> 'a option) \<Rightarrow> 'a list \<Rightarrow> 'a option \<Rightarrow> bool" where
  "sseg nx [] q \<longleftrightarrow> True"
| "sseg nx (x # xs) q \<longleftrightarrow> nx x = first xs q \<and> sseg nx xs q"

definition sll :: "('a \<Rightarrow> 'a option) \<Rightarrow> 'a option \<Rightarrow> 'a option \<Rightarrow> 'a list \<Rightarrow> bool" where
  "sll nx h t xs \<longleftrightarrow> distinct xs \<and> h = first xs None \<and> t = final xs None \<and> sseg nx xs None"

text \<open>Setting the field of an element that may be NULL: nothing happens then.\<close>

definition put :: "'a option \<Rightarrow> 'b \<Rightarrow> ('a \<Rightarrow> 'b) \<Rightarrow> 'a \<Rightarrow> 'b" where
  "put p v f = (case p of None \<Rightarrow> f | Some x \<Rightarrow> f(x := v))"

section \<open>Segments\<close>

lemma put_simps [simp]: "put None v f = f" "put (Some x) v f = f(x := v)"
  by (simp_all add: put_def)

lemma comp_upd: "f \<circ> g(x := y) = (f \<circ> g)(x := f y)"
  by auto

lemma first_append [simp]: "first (xs @ ys) q = first xs (first ys q)"
  by (cases xs) simp_all

lemma final_append [simp]: "final (xs @ ys) p = final ys (final xs p)"
  by (induction xs arbitrary: p) simp_all

lemma first_None [simp]: "first xs None = None \<longleftrightarrow> xs = []"
  by (cases xs) simp_all

lemma final_Some: "\<exists>y. final xs (Some x) = Some y \<and> y \<in> set (x # xs)"
  by (induction xs arbitrary: x) auto

lemma final_None [simp]: "final xs None = None \<longleftrightarrow> xs = []"
  by (cases xs rule: rev_cases) simp_all

lemma dseg_append [simp]:
  "dseg nx pv p (xs @ ys) q \<longleftrightarrow> dseg nx pv p xs (first ys q) \<and> dseg nx pv (final xs p) ys q"
  by (induction xs arbitrary: p) auto

lemma dseg_other [simp]:
  "x \<notin> set xs \<Longrightarrow> dseg (nx(x := v)) pv p xs q = dseg nx pv p xs q"
  "x \<notin> set xs \<Longrightarrow> dseg nx (pv(x := v)) p xs q = dseg nx pv p xs q"
  by (induction xs arbitrary: p) auto

lemma dseg_cong:
  "(\<And>x. x \<in> set xs \<Longrightarrow> nx x = nx' x \<and> pv x = pv' x) \<Longrightarrow> dseg nx pv p xs q = dseg nx' pv' p xs q"
  by (induction xs arbitrary: p) auto

lemma dll_cong:
  "(\<And>x. x \<in> set xs \<Longrightarrow> nx x = nx' x \<and> pv x = pv' x) \<Longrightarrow> dll nx pv h t xs = dll nx' pv' h t xs"
  using dseg_cong [of xs nx nx' pv pv'] by (simp add: dll_def)

lemma dll_other [simp]:
  "x \<notin> set xs \<Longrightarrow> dll (nx(x := v)) pv h t xs = dll nx pv h t xs"
  "x \<notin> set xs \<Longrightarrow> dll nx (pv(x := v)) h t xs = dll nx pv h t xs"
  by (simp_all add: dll_def)

lemma dll_put_other [simp]:
  "(\<And>x. p = Some x \<Longrightarrow> x \<notin> set xs) \<Longrightarrow> dll (put p v nx) pv h t xs = dll nx pv h t xs"
  "(\<And>x. p = Some x \<Longrightarrow> x \<notin> set xs) \<Longrightarrow> dll nx (put p v pv) h t xs = dll nx pv h t xs"
  by (cases p; simp)+

lemma dll_Nil [simp]: "dll nx pv h t [] \<longleftrightarrow> h = None \<and> t = None"
  by (simp add: dll_def)

lemma dll_empty_iff:
  assumes "dll nx pv h t xs"
  shows "h = None \<longleftrightarrow> xs = []" "t = None \<longleftrightarrow> xs = []"
  using assms by (simp_all add: dll_def)

lemma dll_headD: "dll nx pv (Some x) t xs \<Longrightarrow> \<exists>ys. xs = x # ys"
  by (cases xs) (simp_all add: dll_def)

lemma dll_head: "dll nx pv h t xs \<Longrightarrow> h = first xs None"
  by (simp add: dll_def)

lemma dll_distinct: "dll nx pv h t xs \<Longrightarrow> distinct xs"
  by (simp add: dll_def)

lemma dll_next: "dll nx pv h t (xs @ x # ys) \<Longrightarrow> nx x = first ys None"
  by (simp add: dll_def)

section \<open>The three changes\<close>

lemma final_in: "final xs None = Some y \<Longrightarrow> y \<in> set xs"
  by (cases xs rule: rev_cases) auto

lemma dll_push_back:
  assumes d: "dll nx pv h t xs" and x: "x \<notin> set xs"
  shows "dll (put t (Some x) (nx(x := None))) (pv(x := t)) (if h = None then Some x else h) (Some x) (xs @ [x])"
proof (cases xs rule: rev_cases)
  case Nil
  then show ?thesis using d by (simp add: dll_def)
next
  case (snoc ys y)
  then have "x \<noteq> y" "x \<notin> set ys" "y \<notin> set ys" using x d by (auto simp: dll_def)
  then show ?thesis using d snoc by (cases ys) (auto simp: dll_def)
qed

lemma dll_push_front:
  assumes d: "dll nx pv h t xs" and x: "x \<notin> set xs"
  shows "dll (nx(x := h)) (put h (Some x) (pv(x := None))) (Some x) (if t = None then Some x else t) (x # xs)"
proof (cases xs)
  case Nil
  then show ?thesis using d by (simp add: dll_def)
next
  case (Cons y ys)
  then have "x \<noteq> y" "x \<notin> set ys" "y \<notin> set ys" using x d by (auto simp: dll_def)
  moreover have "final ys (Some y) \<noteq> None" using final_Some [of ys y] by auto
  ultimately show ?thesis using d Cons by (auto simp: dll_def)
qed

lemma dll_unlink:
  assumes d: "dll nx pv h t (xs @ x # ys)"
  shows "dll (put (pv x) (nx x) nx) (put (nx x) (pv x) pv) (if h = Some x then nx x else h)
    (if t = Some x then pv x else t) (xs @ ys)"
proof -
  have nx: "nx x = first ys None" and pv: "pv x = final xs None" using d by (auto simp: dll_def)
  have h: "h = first xs (Some x)" and t: "t = final ys (Some x)" and dis: "distinct (xs @ x # ys)"
    using d by (auto simp: dll_def)
  have hd: "(if h = Some x then nx x else h) = first (xs @ ys) None"
    using h nx dis by (cases xs) auto
  have tl: "(if t = Some x then pv x else t) = final (xs @ ys) None"
  proof (cases ys rule: rev_cases)
    case Nil
    then show ?thesis using t pv by simp
  next
    case (snoc zs z)
    then have "t = Some z" "z \<noteq> x" using t dis by auto
    then show ?thesis using snoc by simp
  qed
  have seg: "dseg nx pv None xs (Some x)" "dseg nx pv (Some x) ys None" using d by (auto simp: dll_def)
  have "dseg (put (pv x) (nx x) nx) (put (nx x) (pv x) pv) None xs (nx x)"
  proof (cases xs rule: rev_cases)
    case (snoc zs z)
    have "\<And>y. nx x = Some y \<Longrightarrow> y \<notin> set xs" using nx dis by (cases ys) auto
    moreover have "pv x = Some z" "z \<notin> set zs" using pv snoc dis by auto
    ultimately show ?thesis using seg(1) snoc by (cases "nx x") auto
  qed simp
  moreover have "dseg (put (pv x) (nx x) nx) (put (nx x) (pv x) pv) (pv x) ys None"
  proof (cases ys)
    case (Cons z zs)
    have "\<And>y. pv x = Some y \<Longrightarrow> y \<notin> set ys" using pv dis final_in [of xs] by auto
    moreover have "nx x = Some z" "z \<notin> set zs" using nx Cons dis by auto
    ultimately show ?thesis using seg(2) Cons by (cases "pv x") auto
  qed simp
  ultimately have "dseg (put (pv x) (nx x) nx) (put (nx x) (pv x) pv) None (xs @ ys) None"
    using nx pv by simp
  then show ?thesis using hd tl dis by (simp add: dll_def)
qed

lemma dll_remove:
  assumes d: "dll nx pv h t xs" and x: "x \<in> set xs"
  shows "dll (put (pv x) (nx x) nx) (put (nx x) (pv x) pv) (if h = Some x then nx x else h)
    (if t = Some x then pv x else t) (remove1 x xs)"
proof -
  obtain ys zs where s: "xs = ys @ x # zs" using x by (auto simp: in_set_conv_decomp)
  then have "remove1 x xs = ys @ zs" using d by (simp add: dll_def remove1_append)
  then show ?thesis using dll_unlink [of nx pv h t ys x zs] d s by simp
qed

lemma dll_neighbours:
  assumes "dll nx pv h t xs" "x \<in> set xs"
  shows "nx x = Some y \<Longrightarrow> y \<in> set xs" "pv x = Some y \<Longrightarrow> y \<in> set xs"
proof -
  obtain ys zs where s: "xs = ys @ x # zs" using assms(2) by (auto simp: in_set_conv_decomp)
  then have "nx x = first zs None" "pv x = final ys None" using assms(1) by (auto simp: dll_def)
  then show "nx x = Some y \<Longrightarrow> y \<in> set xs" "pv x = Some y \<Longrightarrow> y \<in> set xs"
    using s final_in [of ys] by (cases zs; auto)+
qed

lemma dll_no_loop:
  assumes "dll nx pv h t xs" "x \<in> set xs"
  shows "nx x \<noteq> Some x" "pv x \<noteq> Some x"
proof -
  obtain ys zs where s: "xs = ys @ x # zs" using assms(2) by (auto simp: in_set_conv_decomp)
  then have "nx x = first zs None" "pv x = final ys None" "x \<notin> set zs" "x \<notin> set ys" using assms(1) by (auto simp: dll_def)
  then show "nx x \<noteq> Some x" "pv x \<noteq> Some x" using final_in [of ys x] by (cases zs; auto)+
qed

lemma dll_pop:
  assumes "dll nx pv h t (x # xs)"
  shows "nx x = first xs None" "dll nx (put (nx x) None pv) (nx x) (if xs = [] then None else t) xs"
proof -
  show nx: "nx x = first xs None" using assms by (simp add: dll_def)
  show "dll nx (put (nx x) None pv) (nx x) (if xs = [] then None else t) xs"
  proof (cases xs)
    case (Cons y ys)
    have "final ys (Some y) \<noteq> None" using final_Some [of ys y] by auto
    then show ?thesis using assms nx Cons by (auto simp: dll_def)
  qed (use nx in simp)
qed

section \<open>Rings\<close>

lemma ring_Nil [simp]: "ring nx pv h [] \<longleftrightarrow> nx h = Some h \<and> pv h = Some h"
  by (auto simp: ring_def)

lemma ring_cong:
  "(\<And>x. x \<in> set (h # xs) \<Longrightarrow> nx x = nx' x \<and> pv x = pv' x) \<Longrightarrow> ring nx pv h xs = ring nx' pv' h xs"
  unfolding ring_def using dseg_cong [of "h # xs" nx nx' pv pv'] by blast

lemma ring_other [simp]:
  "x \<notin> set (h # xs) \<Longrightarrow> ring (nx(x := v)) pv h xs = ring nx pv h xs"
  "x \<notin> set (h # xs) \<Longrightarrow> ring nx (pv(x := v)) h xs = ring nx pv h xs"
  unfolding ring_def using dseg_other [of x "h # xs"] by blast+

lemma ring_last:
  assumes "ring nx pv h xs"
  obtains p where "pv h = Some p" "p \<in> set (h # xs)"
  using assms final_Some [of xs h] by (auto simp: ring_def)

lemma ring_push_back:
  assumes r: "ring nx pv h xs" and x: "x \<notin> set (h # xs)" and p: "pv h = Some p"
  shows "ring (nx(x := Some h, p := Some x)) (pv(x := Some p, h := Some x)) h (xs @ [x])"
proof (cases xs rule: rev_cases)
  case Nil
  then show ?thesis using r x p by (auto simp: ring_def)
next
  case (snoc zs z)
  then have "p = z" using r p by (simp add: ring_def)
  then show ?thesis using r x snoc by (auto simp: ring_def)
qed

lemma ring_neighbours:
  assumes "ring nx pv h (xs @ x # ys)"
  shows "nx x = first ys (Some h)" "pv x = final xs (Some h)"
  using assms by (simp_all add: ring_def)

lemma ring_unlink:
  assumes r: "ring nx pv h (xs @ x # ys)" and n: "nx x = Some n" "pv x = Some p"
  shows "ring (nx(p := Some n)) (pv(n := Some p)) h (xs @ ys)"
proof -
  have nb: "first ys (Some h) = Some n" "final xs (Some h) = Some p" using ring_neighbours [OF r] n by simp_all
  have dis: "distinct (h # xs @ x # ys)" using r by (simp add: ring_def)
  have seg: "dseg nx pv (final ys (Some x)) (h # xs) (Some x)" "dseg nx pv (Some x) ys (Some h)"
    using r by (auto simp: ring_def)
  have front: "dseg (nx(p := Some n)) (pv(n := Some p)) (final (xs @ ys) (Some h)) (h # xs) (Some n)"
  proof (cases xs rule: rev_cases)
    case Nil
    then show ?thesis using seg(1) nb dis by (cases ys) auto
  next
    case (snoc zs z)
    then have "p = z" "n \<notin> set xs" using nb dis by (cases ys; auto)+
    then show ?thesis using seg(1) snoc nb dis by (cases ys) auto
  qed
  have "dseg (nx(p := Some n)) (pv(n := Some p)) (Some p) ys (Some h)"
  proof (cases ys)
    case (Cons z zs)
    have "p \<in> set (h # xs)" using final_Some [of xs h] nb by auto
    then have "p \<notin> set ys" using dis by auto
    moreover have "n = z" "z \<notin> set zs" using nb Cons dis by auto
    ultimately show ?thesis using seg(2) Cons by auto
  qed simp
  then show ?thesis using front dis nb by (simp add: ring_def)
qed

section \<open>Lists linked in one direction\<close>

lemma sseg_append [simp]: "sseg nx (xs @ ys) q \<longleftrightarrow> sseg nx xs (first ys q) \<and> sseg nx ys q"
  by (induction xs) auto

lemma sseg_other [simp]: "x \<notin> set xs \<Longrightarrow> sseg (nx(x := v)) xs q = sseg nx xs q"
  by (induction xs) auto

lemma sll_Nil [simp]: "sll nx h t [] \<longleftrightarrow> h = None \<and> t = None"
  by (simp add: sll_def)

lemma sll_other [simp]: "x \<notin> set xs \<Longrightarrow> sll (nx(x := v)) h t xs = sll nx h t xs"
  by (simp add: sll_def)

lemma sll_push_back:
  assumes d: "sll nx h t xs" and x: "x \<notin> set xs"
  shows "sll (put t (Some x) (nx(x := None))) (if h = None then Some x else h) (Some x) (xs @ [x])"
proof (cases xs rule: rev_cases)
  case Nil
  then show ?thesis using d by (simp add: sll_def)
next
  case (snoc ys y)
  then have "x \<noteq> y" "x \<notin> set ys" "y \<notin> set ys" using x d by (auto simp: sll_def)
  then show ?thesis using d snoc by (cases ys) (auto simp: sll_def)
qed

lemma sll_pop:
  assumes "sll nx h t (x # xs)"
  shows "h = Some x" "sll nx (nx x) (if t = Some x then None else t) xs"
proof -
  show "h = Some x" using assms by (simp add: sll_def)
  show "sll nx (nx x) (if t = Some x then None else t) xs"
  proof (cases xs rule: rev_cases)
    case Nil
    then show ?thesis using assms by (simp add: sll_def)
  next
    case (snoc ys y)
    then have "t = Some y" "y \<noteq> x" using assms by (auto simp: sll_def)
    then show ?thesis using assms snoc by (auto simp: sll_def)
  qed
qed

section \<open>Queues\<close>

text \<open>
  What the users of a queue rely on: elements leave it in the order in which they entered. An
  element can only be put into the queue while it is not in it.
\<close>

locale fifo =
  fixes content :: "'s \<Rightarrow> 'a list \<Rightarrow> bool"
    and idle :: "'s \<Rightarrow> 'a \<Rightarrow> bool"
    and enter :: "'a \<Rightarrow> 's \<Rightarrow> 's"
    and leave :: "'s \<Rightarrow> 'a option \<times> 's"
  assumes enter_law: "content s q \<Longrightarrow> idle s x \<Longrightarrow> content (enter x s) (q @ [x])"
    and enter_idle: "idle s y \<Longrightarrow> x \<noteq> y \<Longrightarrow> idle (enter x s) y"
    and leave_empty: "content s [] \<Longrightarrow> leave s = (None, s)"
    and leave_law: "content s (x # q) \<Longrightarrow> fst (leave s) = Some x \<and> content (snd (leave s)) q"
begin

lemma enter_all:
  assumes "content s q" "distinct xs" "\<forall>x\<in>set xs. idle s x"
  shows "content (fold enter xs s) (q @ xs)"
  using assms
proof (induction xs arbitrary: s q)
  case (Cons x xs)
  have "content (enter x s) (q @ [x])" using Cons.prems by (simp add: enter_law)
  moreover have "\<forall>y\<in>set xs. idle (enter x s) y" using Cons.prems by (auto intro: enter_idle)
  ultimately show ?case using Cons.IH [of "enter x s" "q @ [x]"] Cons.prems by simp
qed simp

primrec leave_all :: "nat \<Rightarrow> 's \<Rightarrow> 'a option list" where
  "leave_all 0 s = []"
| "leave_all (Suc n) s = fst (leave s) # leave_all n (snd (leave s))"

lemma leave_all_content: "content s q \<Longrightarrow> leave_all (length q) s = map Some q"
proof (induction q arbitrary: s)
  case (Cons x q)
  then show ?case using leave_law [OF Cons.prems] by simp
qed simp

lemma in_order:
  assumes "content s []" "distinct xs" "\<forall>x\<in>set xs. idle s x"
  shows "leave_all (length xs) (fold enter xs s) = map Some xs"
  using enter_all [OF assms] leave_all_content by force

end

end
