(* ===== verification/Kmem.thy ===== *)
theory Kmem
  imports Pdir Rmap_Correct
begin

text \<open>
  Kernel memory in whole pages, \<^verbatim>\<open>src/src/sys/kernel/kmem.c\<close>: address ranges come from a resource
  map, page frames from the frame database, and the page tables tie them together.
\<close>

section \<open>Data\<close>

record kmem = paging +
  osvmap :: rmap
  kmodmap :: rmap

abbreviation (input) OSVMAP_ADDRESS :: u32 where "OSVMAP_ADDRESS \<equiv> 0x90404000"
abbreviation (input) KMODMAP_ADDRESS :: u32 where "KMODMAP_ADDRESS \<equiv> 0x90405000"
abbreviation (input) KHEAPBASE :: u32 where "KHEAPBASE \<equiv> 0x92000000"
abbreviation (input) KHEAPSIZE :: u32 where "KHEAPSIZE \<equiv> 0x6E000000"

text \<open>A page of memory holds 512 entries of a resource map.\<close>

definition OSVMAP_ENTRIES :: u32 where
  "OSVMAP_ENTRIES = PAGESIZE div 8"

definition KMODMAP_ENTRIES :: u32 where
  "KMODMAP_ENTRIES = PAGESIZE div 8"

section \<open>Operations\<close>

text \<open>
  The loop of the allocation functions: a fresh frame for each page. The frame number is not
  checked, so when no frame is left the page is mapped to \<^verbatim>\<open>INVALID_PFRAME\<close>.
\<close>

definition map_fresh :: "u32 \<Rightarrow> nat \<Rightarrow> u8 \<Rightarrow> 'a kmem_scheme \<Rightarrow> 'a kmem_scheme outcome" where
  "map_fresh vaddr pages tag s =
     for_each [0..<pages] (\<lambda>i s.
       bind_outcome (kpframe_alloc 1 tag s) (\<lambda>(index, s).
         kpage_map (vaddr + PTOB (of_nat i)) index (PT_WRITABLE OR PT_PRESENT) s)) s"

definition kmem_alloc :: "int \<Rightarrow> u8 \<Rightarrow> 'a kmem_scheme \<Rightarrow> (u32 \<times> 'a kmem_scheme) outcome" where
  "kmem_alloc pages tag s =
     (let tag = (if tag = 0 then PFT_KMEM else tag) in
      bind_outcome (krmap_alloc (osvmap s) (of_int pages)) (\<lambda>(off, m).
        let vaddr = PTOB off in
        bind_outcome (map_fresh vaddr (nat pages) tag (s\<lparr>osvmap := m\<rparr>)) (\<lambda>s.
          Returns (vaddr, s))))"

definition kmem_alloc_align :: "int \<Rightarrow> int \<Rightarrow> u8 \<Rightarrow> 'a kmem_scheme \<Rightarrow> (u32 \<times> 'a kmem_scheme) outcome" where
  "kmem_alloc_align pages align tag s =
     (let tag = (if tag = 0 then PFT_KMEM else tag) in
      bind_outcome (krmap_alloc_align (osvmap s) (of_int pages) (of_int align)) (\<lambda>(off, m).
        let vaddr = PTOB off in
        bind_outcome (map_fresh vaddr (nat pages) tag (s\<lparr>osvmap := m\<rparr>)) (\<lambda>s.
          Returns (vaddr, s))))"

text \<open>Pages backed by consecutive frames; \<open>None\<close> is the NULL result.\<close>

definition kmem_alloc_linear :: "int \<Rightarrow> u8 \<Rightarrow> 'a kmem_scheme \<Rightarrow> (u32 option \<times> 'a kmem_scheme) outcome" where
  "kmem_alloc_linear pages tag s =
     (let tag = (if tag = 0 then PFT_KMEM else tag) in
      bind_outcome (kpframe_alloc (of_int pages) tag s) (\<lambda>(index, s).
        if index = INVALID_PFRAME then Returns (None, s)
        else
          bind_outcome (krmap_alloc (osvmap s) (of_int pages)) (\<lambda>(off, m).
            let vaddr = PTOB off in
            bind_outcome
              (for_each [0..<nat pages] (\<lambda>i.
                 kpage_map (vaddr + PTOB (of_nat i)) (index + of_nat i) (PT_WRITABLE OR PT_PRESENT))
               (s\<lparr>osvmap := m\<rparr>)) (\<lambda>s.
              Returns (Some vaddr, s)))))"

text \<open>The loop of the free functions: give the frame back, then clear the entry.\<close>

definition unmap_frames :: "u32 \<Rightarrow> nat \<Rightarrow> 'a kmem_scheme \<Rightarrow> 'a kmem_scheme outcome" where
  "unmap_frames addr pages s =
     for_each [0..<pages] (\<lambda>i s.
       bind_outcome (kpage_virt2phys s (addr + PTOB (of_nat i))) (\<lambda>phys.
       bind_outcome (kpframe_free (BTOP phys) s) (\<lambda>s.
         kpage_unmap (addr + PTOB (of_nat i)) s))) s"

text \<open>The result of \<^verbatim>\<open>krmap_free\<close> is ignored.\<close>

definition kmem_free :: "u32 \<Rightarrow> int \<Rightarrow> 'a kmem_scheme \<Rightarrow> 'a kmem_scheme outcome" where
  "kmem_free addr pages s =
     bind_outcome (unmap_frames addr (nat pages) s) (\<lambda>s.
     bind_outcome (krmap_free (osvmap s) (BTOP addr) (of_int pages)) (\<lambda>(rc, m).
       Returns (s\<lparr>osvmap := m\<rparr>)))"

text \<open>The size argument of \<^verbatim>\<open>iomap\<close> and \<^verbatim>\<open>iounmap\<close> as the 32-bit word that \<^verbatim>\<open>PAGES\<close> makes of it.\<close>

definition iomap :: "u32 \<Rightarrow> u32 \<Rightarrow> 'a kmem_scheme \<Rightarrow> (u32 \<times> 'a kmem_scheme) outcome" where
  "iomap addr sz s =
     (let pages = PAGES sz in
      bind_outcome (krmap_alloc (osvmap s) pages) (\<lambda>(off, m).
        let vaddr = PTOB off in
        bind_outcome
          (for_each [0..<unat pages] (\<lambda>i.
             kpage_map (vaddr + PTOB (of_nat i)) (BTOP addr + of_nat i) (PT_WRITABLE OR PT_PRESENT))
           (s\<lparr>osvmap := m\<rparr>)) (\<lambda>s.
          Returns (vaddr, s))))"

definition iounmap :: "u32 \<Rightarrow> u32 \<Rightarrow> 'a kmem_scheme \<Rightarrow> 'a kmem_scheme outcome" where
  "iounmap addr sz s =
     (let pages = PAGES sz in
      bind_outcome (for_each [0..<unat pages] (\<lambda>i. kpage_unmap (addr + PTOB (of_nat i))) s) (\<lambda>s.
      bind_outcome (krmap_free (osvmap s) (BTOP addr) pages) (\<lambda>(rc, m).
        Returns (s\<lparr>osvmap := m\<rparr>))))"

text \<open>The page contents that \<^verbatim>\<open>kmem_alloc_module\<close> clears are not part of this state.\<close>

definition kmem_alloc_module :: "int \<Rightarrow> 'a kmem_scheme \<Rightarrow> (u32 \<times> 'a kmem_scheme) outcome" where
  "kmem_alloc_module pages s =
     bind_outcome (krmap_alloc (kmodmap s) (of_int pages)) (\<lambda>(off, m).
       let vaddr = PTOB off in
       bind_outcome (map_fresh vaddr (nat pages) PFT_KMOD (s\<lparr>kmodmap := m\<rparr>)) (\<lambda>s.
         Returns (vaddr, s)))"

definition free_module_mem :: "u32 \<Rightarrow> int \<Rightarrow> 'a kmem_scheme \<Rightarrow> 'a kmem_scheme outcome" where
  "free_module_mem addr pages s =
     bind_outcome (unmap_frames addr (nat pages) s) (\<lambda>s.
     bind_outcome (krmap_free (kmodmap s) (BTOP addr) (of_int pages)) (\<lambda>(rc, m).
       Returns (s\<lparr>kmodmap := m\<rparr>)))"

definition kmem_initialize :: "'a kmem_scheme \<Rightarrow> 'a kmem_scheme outcome" where
  "kmem_initialize s =
     bind_outcome (kpframe_alloc 1 PFT_SYS s) (\<lambda>(pfn, s).
     bind_outcome (kpage_map OSVMAP_ADDRESS pfn (PT_WRITABLE OR PT_PRESENT) s) (\<lambda>s.
     case krmap_initialize (Some (osvmap s)) OSVMAP_ENTRIES of
       (rc, None) \<Rightarrow> Faults
     | (rc, Some m) \<Rightarrow>
         if rc \<noteq> 0 then Panics ''Error initializing kernel heap map''
         else
           bind_outcome (krmap_free m (BTOP KHEAPBASE) (BTOP KHEAPSIZE)) (\<lambda>(_, m).
           let s = s\<lparr>osvmap := m\<rparr> in
           bind_outcome (kpframe_alloc 1 PFT_SYS s) (\<lambda>(pfn, s).
           bind_outcome (kpage_map KMODMAP_ADDRESS pfn (PT_WRITABLE OR PT_PRESENT) s) (\<lambda>s.
           case krmap_initialize (Some (kmodmap s)) KMODMAP_ENTRIES of
             (rc, None) \<Rightarrow> Faults
           | (rc, Some m) \<Rightarrow>
               if rc \<noteq> 0 then Panics ''Error initializing kernel modules heap map''
               else Returns (s\<lparr>kmodmap := m\<rparr>))))))"

section \<open>Notions\<close>

text \<open>
  From \<open>s\<close> to \<open>s'\<close> the free frames \<open>F\<close> were taken, and at most \<open>n\<close> frames in all; frames that were
  not free keep their tags.
\<close>

definition took :: "'a pframe_db_scheme \<Rightarrow> nat set \<Rightarrow> nat \<Rightarrow> 'b pframe_db_scheme \<Rightarrow> bool" where
  "took s F n s' \<longleftrightarrow> pframe_ok s' \<and> frameCount s' = frameCount s \<and> length (frameArray s') = length (frameArray s)
     \<and> F \<subseteq> free_frames s \<and> free_frames s' \<subseteq> free_frames s - F
     \<and> card (free_frames s) \<le> card (free_frames s') + n \<and> unat (freeCount s) \<le> unat (freeCount s') + n
     \<and> (\<forall>k < unat (frameCount s). k \<notin> free_frames s \<longrightarrow> frame_tag s' k = frame_tag s k)
     \<and> (\<forall>k < length (frameArray s). frame_extra s' k = frame_extra s k)"

text \<open>The pages from \<open>vaddr\<close> on are mapped to the frames \<open>fs\<close>, and pages outside a range are kept.\<close>

definition pages_mapped :: "u32 \<Rightarrow> nat list \<Rightarrow> u32 \<Rightarrow> (u32 \<Rightarrow> u32 option) \<Rightarrow> bool" where
  "pages_mapped vaddr fs flags m \<longleftrightarrow>
     (\<forall>i < length fs. m (vaddr + PTOB (of_nat i)) = Some (PTOB (of_nat (fs ! i)) OR flags))"

definition others_kept :: "u32 \<Rightarrow> nat \<Rightarrow> (u32 \<Rightarrow> u32 option) \<Rightarrow> (u32 \<Rightarrow> u32 option) \<Rightarrow> bool" where
  "others_kept vaddr n m m' \<longleftrightarrow>
     (\<forall>v. (\<forall>i<n. PTABIDX v \<noteq> PTABIDX (vaddr + PTOB (of_nat i))) \<longrightarrow> m v \<noteq> None \<longrightarrow> m' v = m v)"

text \<open>The pages \<open>vaddr, vaddr + 4096, \<dots>\<close> have empty entries, all other entries are as in \<open>m\<close>.\<close>

definition pages_cleared :: "u32 \<Rightarrow> nat \<Rightarrow> (u32 \<Rightarrow> u32 option) \<Rightarrow> u32 \<Rightarrow> u32 option" where
  "pages_cleared vaddr n m =
     (\<lambda>v. if \<exists>i<n. PTABIDX v = PTABIDX (vaddr + PTOB (of_nat i)) then Some 0 else m v)"

text \<open>The frame database has the same frames with the same extra bytes.\<close>

definition extras_kept :: "'a pframe_db_scheme \<Rightarrow> 'b pframe_db_scheme \<Rightarrow> bool" where
  "extras_kept s s' \<longleftrightarrow> frameCount s' = frameCount s \<and> length (frameArray s') = length (frameArray s)
     \<and> (\<forall>k < length (frameArray s). frame_extra s' k = frame_extra s k)"

text \<open>A well-formed frame database and a well-formed heap map.\<close>

definition kmem_ok :: "'a kmem_scheme \<Rightarrow> bool" where
  "kmem_ok s \<longleftrightarrow> pframe_ok s \<and> rmap_inv (osvmap s)"

text \<open>Room for \<open>n\<close> pages: address space, a map entry, and frames for the pages and their tables.\<close>

definition kmem_room :: "nat \<Rightarrow> 'a kmem_scheme \<Rightarrow> bool" where
  "kmem_room n s \<longleftrightarrow> (\<exists>q. range_is (rmap_page (osvmap s)) q n False) \<and> 1 \<le> rmap_spare (osvmap s)
     \<and> 2 * n \<le> card (free_frames s) \<and> 2 * n \<le> unat (freeCount s)"

text \<open>Two small memories, a running one and one at boot.\<close>

definition kmem_example :: kmem where
  "kmem_example = \<lparr>freeCount = 3, useableCount = 6, frameCount = 8, frameArray = [3, 8, 0x10, 0x10, 7, 1, 1, 1, 0],
     pdir = (\<lambda>i. if i = 0 then 0x1007 else 0),
     ptab = (\<lambda>k. if k = 2 then 0x2007 else if k = 3 then 0x3005 else 0),
     osvmap = rmap_example, kmodmap = rmap_example\<rparr>"

definition kmem_boot :: kmem where
  "kmem_boot = \<lparr>freeCount = 4, useableCount = 6, frameCount = 7, frameArray = [3, 8, 1, 1, 1, 1, 7, 0],
     pdir = (\<lambda>i. if i = PDEIDX OSVMAP_ADDRESS then 0x1003 else 0), ptab = (\<lambda>k. 0),
     osvmap = replicate 512 rmap_zero, kmodmap = replicate 512 rmap_zero\<rparr>"

section \<open>Taking frames\<close>

lemma took_refl: "pframe_ok s \<Longrightarrow> took s {} 0 s"
  by (simp add: took_def)

lemma took_trans:
  assumes "took s F n s1" "took s1 G m s2"
  shows "took s (F \<union> G) (n + m) s2"
proof -
  have "card (free_frames s1) \<le> card (free_frames s2) + m" "card (free_frames s) \<le> card (free_frames s1) + n"
    "unat (freeCount s1) \<le> unat (freeCount s2) + m" "unat (freeCount s) \<le> unat (freeCount s1) + n"
    using assms by (simp_all add: took_def)
  moreover have "k \<notin> free_frames s1" if "k \<notin> free_frames s" for k
    using assms(1) that by (auto simp: took_def)
  ultimately show ?thesis using assms by (auto simp: took_def)
qed

lemma took_more: "took s F n s1 \<Longrightarrow> n \<le> m \<Longrightarrow> took s F m s1"
  by (simp add: took_def)

lemma retagged_took:
  assumes ok: "pframe_ok s" and f: "f \<in> free_frames s" and re: "retagged s f 1 tag s'" and tag: "tag \<noteq> PFT_FREE"
    and count: "freeCount s' = freeCount s - 1"
  shows "took s {f} 1 s'" "frame_tag s' f = tag"
proof -
  note R = retagged_one [OF ok f re tag]
  have fl: "f < unat (frameCount s)" using f by (simp add: free_frames_def)
  have len: "k < unat (frameCount s) \<Longrightarrow> k < length (frameArray s)" for k using ok by (simp add: pframe_ok_def)
  show "frame_tag s' f = tag" using retagged_tag [OF re len [OF fl]] by simp
  have same: "frame_tag s' k = frame_tag s k" if "k < unat (frameCount s)" "k \<notin> free_frames s" for k
  proof -
    have "k \<noteq> f" using that f by auto
    then show ?thesis using retagged_tag [OF re len [OF that(1)]] by simp
  qed
  have "unat (freeCount s) \<le> unat (freeCount s') + 1"
  proof (cases "freeCount s = 0")
    case False
    then have "1 \<le> unat (freeCount s)" by (simp add: Suc_le_eq unat_gt_0)
    then show ?thesis using count by (simp add: unat_minus_le)
  qed simp
  moreover have "card (free_frames s) \<le> card (free_frames s') + 1"
    using R(2) f card_Suc_Diff1 [of "free_frames s" f] by simp
  ultimately show "took s {f} 1 s'"
    using R re f same unfolding took_def retagged_def by auto
qed

lemma pte_at_table: "PDEIDX v' = PDEIDX v \<Longrightarrow> pte_at s v' = None \<longleftrightarrow> pte_at s v = None"
  by (simp add: pte_at_def GET_PDE_def)

lemma mapped_other:
  "PTABIDX v' \<noteq> PTABIDX v \<Longrightarrow> pte_at s v' \<noteq> None \<Longrightarrow> mapped v pte (pte_at s) v' = pte_at s v'"
  using pte_at_table [of v' v s] by (auto simp: mapped_def)

lemma map_fresh_step:
  assumes ok: "pframe_ok s" and tag: "tag \<noteq> PFT_FREE"
    and room: "2 \<le> card (free_frames s)" "2 \<le> unat (freeCount s)"
  shows "\<exists>f s'. bind_outcome (kpframe_alloc 1 tag s) (\<lambda>(index, s). kpage_map v index flags s) = Returns s'
     \<and> took s {f} 2 s' \<and> frame_tag s' f = tag \<and> paging.more s' = paging.more s
     \<and> pte_at s' = mapped v (PTOB (of_nat f) OR flags) (pte_at s)"
proof -
  have "free_frames s \<noteq> {}" "freeCount s \<noteq> 0" using room by auto
  then obtain i s1 where A: "kpframe_alloc 1 tag s = Returns (i, s1)" "unat i \<in> free_frames s"
    "retagged s (unat i) 1 tag s1" "freeCount s1 = freeCount s - 1" "pframe_db.more s1 = pframe_db.more s"
    using kpframe_alloc_one [OF ok tag] by blast
  have T1: "took s {unat i} 1 s1" "frame_tag s1 (unat i) = tag"
    using retagged_took [OF ok A(2,3) tag A(4)] by blast+
  have ok1: "pframe_ok s1" and out: "unat i \<notin> free_frames s1" and lim: "unat i < unat (frameCount s1)"
    using T1 A(2) by (auto simp: took_def free_frames_def)
  have pte1: "pte_at s1 = pte_at s"
    by (simp add: pte_at_def GET_PDE_def paging_fields_eq [OF A(5)] fun_eq_iff)
  have "free_frames s1 \<noteq> {}" "freeCount s1 \<noteq> 0" using room T1 by (auto simp: took_def)
  then obtain s2 where M: "kpage_map v i flags s1 = Returns s2" "pframe_ok s2" "paging.more s2 = paging.more s1"
    "pte_at s2 = mapped v (PTOB i OR flags) (pte_at s1)"
    "if pte_at s1 v \<noteq> None then pframe_db.truncate s2 = pframe_db.truncate s1
     else \<exists>k\<in>free_frames s1. retagged s1 k 1 PFT_PTAB s2 \<and> freeCount s2 = freeCount s1 - 1"
    using kpage_map_law [OF ok1, of v i flags] by blast
  have "took s1 {} 1 s2 \<and> frame_tag s2 (unat i) = tag"
  proof (cases "pte_at s1 v \<noteq> None")
    case True
    then have "frameArray s2 = frameArray s1" "freeCount s2 = freeCount s1" "frameCount s2 = frameCount s1"
      using M(5) by (simp_all add: pframe_db.defs)
    then show ?thesis using M(2) T1(2) by (simp add: took_def free_frames_def frame_tag_def frame_extra_def)
  next
    case False
    then obtain k where K: "k \<in> free_frames s1" "retagged s1 k 1 PFT_PTAB s2" "freeCount s2 = freeCount s1 - 1"
      using M(5) by auto
    have T2: "took s1 {k} 1 s2" using retagged_took [OF ok1 K(1,2) _ K(3)] by simp
    then have "frame_tag s2 (unat i) = tag" using out lim T1(2) by (simp add: took_def)
    moreover have "took s1 {} 1 s2" using T2 by (auto simp: took_def)
    ultimately show ?thesis by simp
  qed
  moreover from this have "took s {unat i} 2 s2"
    using took_trans [OF T1(1), of "{}" 1 s2] by (simp add: numeral_2_eq_2)
  ultimately show ?thesis
    using A M(1,3,4) pte1 paging_fields_eq(3) [OF A(5)]
    by (intro exI [of _ "unat i"] exI [of _ s2]) simp
qed

section \<open>Runs of pages\<close>

text \<open>The pages of an allocated range have consecutive page numbers, without wrap-around.\<close>

lemma page_number:
  assumes "unat off + n \<le> 1048576" "i < n"
  shows "unat (PTABIDX (PTOB off + PTOB (of_nat i))) = unat off + i"
proof -
  have i: "unat (of_nat i :: u32) = i" using assms by (simp add: unat_of_nat_u32)
  have "unat (PTOB off + PTOB (of_nat i)) = (unat off + i) * 4096"
    using assms i by (subst unat_plus_bounded) (auto simp: unat_PTOB)
  then show ?thesis by (simp add: unat_PTABIDX)
qed

lemma page_number_neq:
  assumes "unat off + n \<le> 1048576" "i < n" "j < n" "i \<noteq> j"
  shows "PTABIDX (PTOB off + PTOB (of_nat i)) \<noteq> PTABIDX (PTOB off + PTOB (of_nat j))"
  using page_number [OF assms(1,2)] page_number [OF assms(1,3)] assms(4) by (metis add_left_cancel)

lemma map_fresh_law:
  assumes ok: "pframe_ok s" and tag: "tag \<noteq> PFT_FREE" and range: "unat off + n \<le> 1048576"
    and room: "2 * n \<le> card (free_frames s)" "2 * n \<le> unat (freeCount s)"
  shows "\<exists>fs s'. map_fresh (PTOB off) n tag s = Returns s' \<and> length fs = n \<and> distinct fs
     \<and> took s (set fs) (2 * n) s' \<and> (\<forall>f\<in>set fs. frame_tag s' f = tag) \<and> paging.more s' = paging.more s
     \<and> pages_mapped (PTOB off) fs (PT_WRITABLE OR PT_PRESENT) (pte_at s')
     \<and> others_kept (PTOB off) n (pte_at s) (pte_at s')"
proof -
  let ?v = "\<lambda>i. PTOB off + PTOB (of_nat i)" and ?fl = "PT_WRITABLE OR PT_PRESENT"
  let ?P = "\<lambda>k s'. \<exists>fs. length fs = k \<and> distinct fs \<and> took s (set fs) (2 * k) s'
     \<and> (\<forall>f\<in>set fs. frame_tag s' f = tag) \<and> paging.more s' = paging.more s
     \<and> pages_mapped (PTOB off) fs ?fl (pte_at s') \<and> others_kept (PTOB off) k (pte_at s) (pte_at s')"
  have "\<exists>s'. map_fresh (PTOB off) n tag s = Returns s' \<and> ?P n s'"
    unfolding map_fresh_def
  proof (rule for_each_upt [where P = ?P])
    show "?P 0 s" using took_refl [OF ok] by (simp add: pages_mapped_def others_kept_def)
  next
    fix k s1 assume k: "k < n" and "?P k s1"
    then obtain fs where P: "length fs = k" "distinct fs" "took s (set fs) (2 * k) s1"
      "\<forall>f\<in>set fs. frame_tag s1 f = tag" "paging.more s1 = paging.more s"
      "pages_mapped (PTOB off) fs ?fl (pte_at s1)" "others_kept (PTOB off) k (pte_at s) (pte_at s1)" by blast
    have "pframe_ok s1" "2 \<le> card (free_frames s1)" "2 \<le> unat (freeCount s1)"
      using P(3) room k by (auto simp: took_def)
    then obtain f s2 where S: "bind_outcome (kpframe_alloc 1 tag s1) (\<lambda>(index, s). kpage_map (?v k) index ?fl s) = Returns s2"
      "took s1 {f} 2 s2" "frame_tag s2 f = tag" "paging.more s2 = paging.more s1"
      "pte_at s2 = mapped (?v k) (PTOB (of_nat f) OR ?fl) (pte_at s1)"
      using map_fresh_step [OF _ tag, of s1 "?v k" ?fl] by blast
    have "took s (set (fs @ [f])) (2 * Suc k) s2"
      using took_trans [OF P(3) S(2)] by (simp add: algebra_simps)
    moreover have "f \<notin> set fs" using P(3) S(2) by (auto simp: took_def)
    moreover have "frame_tag s2 g = tag" if "g \<in> set fs" for g
    proof -
      have "g < unat (frameCount s1)" "g \<notin> free_frames s1" using that P(3) by (auto simp: took_def free_frames_def)
      then show ?thesis using S(2) P(4) that by (simp add: took_def)
    qed
    moreover have "pages_mapped (PTOB off) (fs @ [f]) ?fl (pte_at s2)"
      unfolding pages_mapped_def
    proof (intro allI impI)
      fix i assume i: "i < length (fs @ [f])"
      show "pte_at s2 (?v i) = Some (PTOB (of_nat ((fs @ [f]) ! i)) OR ?fl)"
      proof (cases "i = k")
        case True
        then show ?thesis using P(1) unfolding S(5) by (simp add: mapped_def nth_append)
      next
        case False
        then have "i < k" "PTABIDX (?v i) \<noteq> PTABIDX (?v k)"
          using i P(1) k page_number_neq [OF range, of i k] by auto
        then show ?thesis
          using P(1,6) mapped_other [of "?v i" "?v k" s1] unfolding S(5) by (simp add: pages_mapped_def nth_append)
      qed
    qed
    moreover have "others_kept (PTOB off) (Suc k) (pte_at s) (pte_at s2)"
      using P(7) mapped_other [of _ "?v k" s1] unfolding others_kept_def S(5) by (simp add: less_Suc_eq)
    ultimately show "\<exists>s2. bind_outcome (kpframe_alloc 1 tag s1) (\<lambda>(index, s). kpage_map (?v k) index ?fl s) = Returns s2
        \<and> ?P (Suc k) s2"
      using S(1,3,4) P(1,2,5) by (intro exI [of _ s2] conjI exI [of _ "fs @ [f]"]) auto
  qed
  then show ?thesis by blast
qed

section \<open>Giving frames back\<close>

lemma PGOFF_page: "PGOFF (PTOB off + PTOB k) = 0"
proof -
  have "4096 dvd unat (PTOB off + PTOB k)"
    unfolding unat_word_ariths unat_PTOB by (intro dvd_mod dvd_add) auto
  then show ?thesis unfolding word_unat_eq_iff unat_PGOFF by (simp add: dvd_eq_mod_eq_0)
qed

lemma unmap_step:
  assumes ok: "pframe_ok s" and pte: "pte_at s v = Some (PTOB (of_nat f) OR flags)" and v: "PGOFF v = 0"
    and f: "f < unat (frameCount s)" "f \<notin> free_frames s" and flags: "flags AND PT_PFNMASK = 0"
  shows "\<exists>s'. bind_outcome (kpage_virt2phys s v) (\<lambda>phys. bind_outcome (kpframe_free (BTOP phys) s) (kpage_unmap v)) = Returns s'
     \<and> pframe_ok s' \<and> extras_kept s s' \<and> free_frames s' = insert f (free_frames s)
     \<and> freeCount s' = freeCount s + 1 \<and> paging.more s' = paging.more s
     \<and> pte_at s' = (\<lambda>v'. if PTABIDX v' = PTABIDX v then Some 0 else pte_at s v')"
proof -
  have "unat (frameCount s) \<le> 2 ^ 20" using ok by (simp add: pframe_ok_def)
  then have fb: "unat (of_nat f :: u32) = f" "f < 2 ^ 20" using f(1) by (simp_all add: unat_of_nat_u32)
  then have phys: "kpage_virt2phys s v = Returns (PTOB (of_nat f))" "BTOP (PTOB (of_nat f)) = of_nat f"
    using pte v by (simp_all add: kpage_virt2phys_def pte_at_GET_PTE PFNMASK_of_pte [OF flags] BTOP_PTOB)
  have "(of_nat f :: u32) < frameCount s" using fb f(1) by (simp add: word_less_nat_alt)
  then obtain s1 where F: "kpframe_free (of_nat f) s = Returns s1" "retagged s f 1 PFT_FREE s1"
    "freeCount s1 = freeCount s + 1" "pframe_db.more s1 = pframe_db.more s"
    using kpframe_free_law [OF ok, of "of_nat f"] fb(1) by auto
  have lim: "f + 1 \<le> unat (frameCount s)" using f(1) by simp
  have pte1: "pte_at s1 = pte_at s"
    by (simp add: pte_at_def GET_PDE_def paging_fields_eq [OF F(4)] fun_eq_iff)
  then obtain s2 where S: "SET_PTE v 0 s1 = Returns s2" "s2 = s1\<lparr>ptab := (ptab s1)(PTABIDX v := 0)\<rparr>"
    using pte by (simp add: SET_PTE_Returns)
  have same: "free_frames s2 = free_frames s1" "pframe_ok s2 = pframe_ok s1"
    by (simp_all add: S(2) free_frames_def pframe_ok_def frame_tag_def)
  have "pframe_ok s2" using retagged_ok [OF ok F(2) lim] same by simp
  moreover have "free_frames s2 = insert f (free_frames s)"
    using retagged_free_frames [OF ok F(2) lim] same by auto
  moreover have "extras_kept s s2" using F(2) by (simp add: S(2) retagged_def extras_kept_def frame_extra_def)
  moreover have "pte_at s2 = (\<lambda>v'. if PTABIDX v' = PTABIDX v then Some 0 else pte_at s v')"
    using pte_at_SET_PTE [OF S(1)] unfolding pte1 .
  moreover have "freeCount s2 = freeCount s + 1" "paging.more s2 = paging.more s"
    using F(3) paging_fields_eq(3) [OF F(4)] by (simp_all add: S(2))
  ultimately show ?thesis
    using phys F(1) S(1) by (intro exI [of _ s2]) (simp add: kpage_unmap_def)
qed

lemma unmap_frames_law:
  assumes ok: "pframe_ok s" and range: "unat off + length fs \<le> 1048576" and dist: "distinct fs"
    and maps: "pages_mapped (PTOB off) fs flags (pte_at s)" and flags: "flags AND PT_PFNMASK = 0"
    and used: "\<forall>f\<in>set fs. f < unat (frameCount s) \<and> f \<notin> free_frames s"
  shows "\<exists>s'. unmap_frames (PTOB off) (length fs) s = Returns s' \<and> pframe_ok s' \<and> extras_kept s s'
     \<and> free_frames s' = free_frames s \<union> set fs \<and> freeCount s' = freeCount s + of_nat (length fs)
     \<and> paging.more s' = paging.more s \<and> pte_at s' = pages_cleared (PTOB off) (length fs) (pte_at s)"
proof -
  let ?v = "\<lambda>i. PTOB off + PTOB (of_nat i)"
  let ?P = "\<lambda>k s'. pframe_ok s' \<and> extras_kept s s' \<and> free_frames s' = free_frames s \<union> set (take k fs)
     \<and> freeCount s' = freeCount s + of_nat k \<and> paging.more s' = paging.more s
     \<and> pte_at s' = pages_cleared (PTOB off) k (pte_at s)"
  have "\<exists>s'. unmap_frames (PTOB off) (length fs) s = Returns s' \<and> ?P (length fs) s'"
    unfolding unmap_frames_def
  proof (rule for_each_upt [where P = ?P])
    show "?P 0 s" using ok by (simp add: pages_cleared_def extras_kept_def)
  next
    fix k s1 assume k: "k < length fs" and P: "?P k s1"
    have neq: "PTABIDX (?v k) \<noteq> PTABIDX (?v i)" if "i < k" for i
      using page_number_neq [OF range, of k i] that k by simp
    have "fs ! k \<notin> set (take k fs)" using dist k by (auto simp: in_set_conv_nth distinct_conv_nth)
    then have f: "fs ! k < unat (frameCount s1)" "fs ! k \<notin> free_frames s1"
      using P used k by (auto simp: extras_kept_def)
    have pte: "pte_at s1 (?v k) = Some (PTOB (of_nat (fs ! k)) OR flags)"
      using P maps k neq by (auto simp: pages_cleared_def pages_mapped_def)
    obtain s2 where S: "bind_outcome (kpage_virt2phys s1 (?v k)) (\<lambda>phys. bind_outcome (kpframe_free (BTOP phys) s1) (kpage_unmap (?v k))) = Returns s2"
      "pframe_ok s2" "extras_kept s1 s2" "free_frames s2 = insert (fs ! k) (free_frames s1)"
      "freeCount s2 = freeCount s1 + 1" "paging.more s2 = paging.more s1"
      "pte_at s2 = (\<lambda>v'. if PTABIDX v' = PTABIDX (?v k) then Some 0 else pte_at s1 v')"
      using unmap_step [OF _ pte PGOFF_page f flags] P by blast
    have "extras_kept s s2" using P S(3) by (simp add: extras_kept_def)
    then have "?P (Suc k) s2"
      using P S k by (auto simp: take_Suc_conv_app_nth pages_cleared_def less_Suc_eq fun_eq_iff)
    with S(1) show "\<exists>s2. bind_outcome (kpage_virt2phys s1 (?v k)) (\<lambda>phys. bind_outcome (kpframe_free (BTOP phys) s1) (kpage_unmap (?v k))) = Returns s2
        \<and> ?P (Suc k) s2" by blast
  qed
  then show ?thesis by auto
qed

section \<open>Allocation and release\<close>

lemma kmem_fields_eq:
  assumes "paging.more s' = paging.more s"
  shows "osvmap s' = osvmap s" "kmodmap s' = kmodmap s" "kmem.more s' = kmem.more s"
  using assms by (cases s; cases s'; simp)+

lemma osvmap_update [simp]:
  "free_frames (s\<lparr>osvmap := m\<rparr>) = free_frames s" "pframe_ok (s\<lparr>osvmap := m\<rparr>) = pframe_ok s"
  "pte_at (s\<lparr>osvmap := m\<rparr>) = pte_at s" "frame_tag (s\<lparr>osvmap := m\<rparr>) = frame_tag s"
  "frame_extra (s\<lparr>osvmap := m\<rparr>) = frame_extra s"
  by (simp_all add: free_frames_def pframe_ok_def frame_tag_def frame_extra_def pte_at_def GET_PDE_def fun_eq_iff)

lemma took_osvmap [simp]:
  "took (s\<lparr>osvmap := m\<rparr>) F n s' = took s F n s'"
  by (simp add: took_def)

lemma unat_of_int_u32: "0 \<le> p \<Longrightarrow> p < 2 ^ 32 \<Longrightarrow> unat (of_int p :: u32) = nat p"
  by (simp add: unat_eq_nat_uint uint_word_of_int)

lemma kmem_alloc_law:
  assumes ok: "kmem_ok s" and p: "0 < p" "p \<le> 0x100000" and tag: "tag \<noteq> PFT_FREE" and room: "kmem_room (nat p) s"
  shows "\<exists>off fs s'. kmem_alloc p tag s = Returns (PTOB off, s') \<and> kmem_ok s' \<and> unat off + nat p \<le> 1048576
     \<and> range_is (rmap_page (osvmap s)) (unat off) (nat p) False
     \<and> rmap_page (osvmap s') = range_set (rmap_page (osvmap s)) (unat off) (nat p) True
     \<and> length fs = nat p \<and> distinct fs \<and> took s (set fs) (2 * nat p) s'
     \<and> (\<forall>f\<in>set fs. frame_tag s' f = (if tag = 0 then PFT_KMEM else tag))
     \<and> pages_mapped (PTOB off) fs (PT_WRITABLE OR PT_PRESENT) (pte_at s')
     \<and> others_kept (PTOB off) (nat p) (pte_at s) (pte_at s') \<and> kmem.more s' = kmem.more s"
proof -
  let ?sz = "of_int p :: u32" and ?tag = "if tag = 0 then PFT_KMEM else tag"
  have sz: "unat ?sz = nat p" using p by (intro unat_of_int_u32) auto
  then have nz: "?sz \<noteq> 0" using p by (metis unat_0 zero_less_nat_eq less_irrefl)
  have inv: "rmap_inv (osvmap s)" and pf: "pframe_ok s" using ok by (auto simp: kmem_ok_def)
  have sp: "1 \<le> rmap_spare (osvmap s)" using room by (simp add: kmem_room_def)
  obtain off m where A: "krmap_alloc (osvmap s) ?sz = Returns (off, m)"
    using rm.alloc_total [OF inv nz sp, unfolded sz] room unfolding kmem_room_def by blast
  note D = rm.allocD [OF inv nz sp A, unfolded sz] and B = rm.alloc_bound [OF inv nz sp A, unfolded sz]
  obtain fs s' where M: "map_fresh (PTOB off) (nat p) ?tag (s\<lparr>osvmap := m\<rparr>) = Returns s'" "length fs = nat p" "distinct fs"
    "took s (set fs) (2 * nat p) s'" "\<forall>f\<in>set fs. frame_tag s' f = ?tag" "paging.more s' = paging.more (s\<lparr>osvmap := m\<rparr>)"
    "pages_mapped (PTOB off) fs (PT_WRITABLE OR PT_PRESENT) (pte_at s')"
    "others_kept (PTOB off) (nat p) (pte_at s) (pte_at s')"
  proof -
    have "?tag \<noteq> PFT_FREE" using tag by simp
    from map_fresh_law [OF _ this B, of "s\<lparr>osvmap := m\<rparr>"] pf room that show thesis
      unfolding kmem_room_def osvmap_update took_osvmap by simp blast
  qed
  have "kmem_alloc p tag s = Returns (PTOB off, s')" using A M(1) by (simp add: kmem_alloc_def)
  moreover have "osvmap s' = m" using kmem_fields_eq(1) [OF M(6)] by simp
  moreover from this have "kmem_ok s'" using D(1) M(4) by (simp add: kmem_ok_def took_def)
  moreover have "kmem.more s' = kmem.more s" using kmem_fields_eq(3) [OF M(6)] by simp
  ultimately show ?thesis using M D(2,3) B by blast
qed

lemma kmem_free_law:
  assumes ok: "kmem_ok s" and fs: "fs \<noteq> []" "distinct fs" and range: "unat off + length fs \<le> 1048576"
    and maps: "pages_mapped (PTOB off) fs flags (pte_at s)" and flags: "flags AND PT_PFNMASK = 0"
    and used: "\<forall>f\<in>set fs. f < unat (frameCount s) \<and> f \<notin> free_frames s"
    and busy: "range_is (rmap_page (osvmap s)) (unat off) (length fs) True" and sp: "2 \<le> rmap_spare (osvmap s)"
  shows "\<exists>s'. kmem_free (PTOB off) (int (length fs)) s = Returns s' \<and> kmem_ok s' \<and> extras_kept s s'
     \<and> free_frames s' = free_frames s \<union> set fs \<and> freeCount s' = freeCount s + of_nat (length fs)
     \<and> pte_at s' = pages_cleared (PTOB off) (length fs) (pte_at s)
     \<and> rmap_page (osvmap s') = range_set (rmap_page (osvmap s)) (unat off) (length fs) False
     \<and> kmem.more s' = kmem.more s"
proof -
  have inv: "rmap_inv (osvmap s)" and pf: "pframe_ok s" using ok by (auto simp: kmem_ok_def)
  obtain s1 where U: "unmap_frames (PTOB off) (length fs) s = Returns s1" "pframe_ok s1" "extras_kept s s1"
    "free_frames s1 = free_frames s \<union> set fs" "freeCount s1 = freeCount s + of_nat (length fs)"
    "paging.more s1 = paging.more s" "pte_at s1 = pages_cleared (PTOB off) (length fs) (pte_at s)"
    using unmap_frames_law [OF pf range fs(2) maps flags used] by blast
  have sz: "unat (of_int (int (length fs)) :: u32) = length fs" using range by (simp add: unat_of_nat_u32)
  then have nz: "(of_int (int (length fs)) :: u32) \<noteq> 0" using fs(1) by (metis unat_0 length_0_conv)
  have off: "BTOP (PTOB off) = off" using range fs(1) by (intro BTOP_PTOB) (cases fs, auto)
  obtain m where R: "krmap_free (osvmap s) off (of_int (int (length fs))) = Returns (None, m)" "rmap_inv m"
    "rmap_page m = range_set (rmap_page (osvmap s)) (unat off) (length fs) False"
    using rm.release_law [OF inv nz sp, of off] busy range unfolding sz by auto
  have "kmem_free (PTOB off) (int (length fs)) s = Returns (s1\<lparr>osvmap := m\<rparr>)"
    using U(1) R(1) off kmem_fields_eq(1) [OF U(6)] by (simp add: kmem_free_def)
  then show ?thesis using U R kmem_fields_eq(3) [OF U(6)] by (simp add: kmem_ok_def extras_kept_def)
qed

lemma kmem_example_ok: "kmem_ok kmem_example" "kmem_room 1 kmem_example"
proof -
  have "pframe_ok kmem_example" by (simp add: pframe_ok_def kmem_example_def frame_tag_def low_byte_def)
  then show "kmem_ok kmem_example" by (simp add: kmem_ok_def kmem_example_def rmap_example_inv)
  have sub: "{5, 6} \<subseteq> free_frames kmem_example"
    by (simp add: free_frames_def kmem_example_def frame_tag_def low_byte_def)
  have "2 \<le> card (free_frames kmem_example)" using card_mono [OF finite_free_frames sub] by simp
  moreover have "range_is (rmap_page rmap_example) 16 1 False" by (simp add: range_is_def rmap_example_page)
  moreover have "osvmap kmem_example = rmap_example" "freeCount kmem_example = 3"
    by (simp_all add: kmem_example_def)
  ultimately show "kmem_room 1 kmem_example"
    unfolding kmem_room_def by (simp add: rmap_example_spare) blast
qed

text \<open>
  C3. Allocating kernel pages returns a run of page addresses that were free in the map, each
  mapped writable to a frame of its own that was free and now carries the tag. The map, the
  frame database and all other mapped pages stay as they were.
\<close>

theorem kmem_alloc_correct:
  assumes "kmem_ok s" and "0 < p" and "p \<le> 0x100000" and "tag \<noteq> PFT_FREE" and "kmem_room (nat p) s"
  shows "\<exists>off fs s'. kmem_alloc p tag s = Returns (PTOB off, s') \<and> kmem_ok s' \<and> unat off + nat p \<le> 1048576
     \<and> range_is (rmap_page (osvmap s)) (unat off) (nat p) False
     \<and> rmap_page (osvmap s') = range_set (rmap_page (osvmap s)) (unat off) (nat p) True
     \<and> length fs = nat p \<and> distinct fs \<and> took s (set fs) (2 * nat p) s'
     \<and> (\<forall>f\<in>set fs. frame_tag s' f = (if tag = 0 then PFT_KMEM else tag))
     \<and> pages_mapped (PTOB off) fs (PT_WRITABLE OR PT_PRESENT) (pte_at s')
     \<and> others_kept (PTOB off) (nat p) (pte_at s) (pte_at s') \<and> kmem.more s' = kmem.more s"
  using assms by (rule kmem_alloc_law)

theorem kmem_alloc_correct_witness:
  "\<exists>off f s'. kmem_alloc 1 0 kmem_example = Returns (PTOB off, s') \<and> f \<in> free_frames kmem_example
     \<and> frame_tag s' f = PFT_KMEM \<and> pte_at s' (PTOB off) = Some (PTOB (of_nat f) OR 3)"
proof -
  obtain off fs s' where A: "kmem_alloc 1 0 kmem_example = Returns (PTOB off, s')" "length fs = nat 1"
    "took kmem_example (set fs) (2 * nat 1) s'" "\<forall>f\<in>set fs. frame_tag s' f = PFT_KMEM"
    "pages_mapped (PTOB off) fs (PT_WRITABLE OR PT_PRESENT) (pte_at s')"
    using kmem_alloc_correct [OF kmem_example_ok(1), of 1 0] kmem_example_ok(2) by auto
  then obtain f where "fs = [f]" by (auto simp: length_Suc_conv)
  then show ?thesis
    using A by (auto simp: took_def pages_mapped_def PTOB_def)
qed



text \<open>
  C30. Starting kernel memory, with four frames free and the two map pages at hand, returns a
  well-formed heap map in which exactly the pages of the kernel heap are free; both maps
  get a page of their own.
\<close>

theorem kmem_initialize_correct:
  assumes ok: "pframe_ok s" and room: "4 \<le> card (free_frames s)" "4 \<le> unat (freeCount s)"
    and maps: "512 \<le> length (osvmap s)" "512 \<le> length (kmodmap s)"
  shows "\<exists>s'. kmem_initialize s = Returns s' \<and> kmem_ok s' \<and> rmap_inv (kmodmap s')
     \<and> rmap_page (osvmap s') = range_set (range_set (\<lambda>_. None) 0 1048576 True) 0x92000 0x6E000 False
     \<and> rmap_page (kmodmap s') = range_set (\<lambda>_. None) 0 1048576 True
     \<and> kpage_is_mapped s' OSVMAP_ADDRESS = 1 \<and> kpage_is_mapped s' KMODMAP_ADDRESS = 1"
proof -
  have ent: "min (unat OSVMAP_ENTRIES) 65535 = 512" "16 \<le> OSVMAP_ENTRIES"
    "min (unat KMODMAP_ENTRIES) 65535 = 512" "16 \<le> KMODMAP_ENTRIES"
    by (simp_all add: OSVMAP_ENTRIES_def KMODMAP_ENTRIES_def)
  obtain f1 s1 where S1: "bind_outcome (kpframe_alloc 1 PFT_SYS s) (\<lambda>(pfn, s). kpage_map OSVMAP_ADDRESS pfn 3 s) = Returns s1"
    "took s {f1} 2 s1" "paging.more s1 = paging.more s" "pte_at s1 = mapped OSVMAP_ADDRESS (PTOB (of_nat f1) OR 3) (pte_at s)"
    using map_fresh_step [OF ok, of PFT_SYS OSVMAP_ADDRESS 3] room by auto
  obtain m where M: "krmap_initialize (Some (osvmap s1)) OSVMAP_ENTRIES = (0, Some m)" "rmap_inv m"
    "rmap_page m = range_set (\<lambda>_. None) 0 1048576 True" "rmap_spare m = 509"
    using krmap_initialize_law [OF ent(2), of "osvmap s1"] maps(1) kmem_fields_eq(1) [OF S1(3)] unfolding ent by auto
  have heap: "unat (BTOP KHEAPBASE) = 0x92000" "unat (BTOP KHEAPSIZE) = 0x6E000" "BTOP KHEAPSIZE \<noteq> 0"
    by (simp_all add: BTOP_def drop_bit_eq_div)
  obtain m1 where M1: "krmap_free m (BTOP KHEAPBASE) (BTOP KHEAPSIZE) = Returns (None, m1)" "rmap_inv m1"
    "rmap_page m1 = range_set (rmap_page m) 0x92000 0x6E000 False"
    using krmap_free_law [OF M(2) heap(3), of "BTOP KHEAPBASE"] M(3,4) unfolding heap
    by (auto simp: range_is_def range_set_def)
  let ?s = "s1\<lparr>osvmap := m1\<rparr>"
  have ok1: "pframe_ok ?s" "2 \<le> card (free_frames ?s)" "2 \<le> unat (freeCount ?s)" using S1(2) room by (auto simp: took_def)
  obtain f2 s2 where S2: "bind_outcome (kpframe_alloc 1 PFT_SYS ?s) (\<lambda>(pfn, s). kpage_map KMODMAP_ADDRESS pfn 3 s) = Returns s2"
    "took ?s {f2} 2 s2" "paging.more s2 = paging.more ?s" "pte_at s2 = mapped KMODMAP_ADDRESS (PTOB (of_nat f2) OR 3) (pte_at ?s)"
    using map_fresh_step [OF ok1(1) _ ok1(2,3), of PFT_SYS KMODMAP_ADDRESS 3] by auto
  obtain k where K: "krmap_initialize (Some (kmodmap s2)) KMODMAP_ENTRIES = (0, Some k)" "rmap_inv k"
    "rmap_page k = range_set (\<lambda>_. None) 0 1048576 True"
    using krmap_initialize_law [OF ent(4), of "kmodmap s2"] maps(2) kmem_fields_eq(2) [OF S2(3)] kmem_fields_eq(2) [OF S1(3)]
    unfolding ent by auto
  have run: "kmem_initialize s = Returns (s2\<lparr>kmodmap := k\<rparr>)"
    using S1(1) M(1) M1(1) S2(1) K(1)
    by (auto simp: kmem_initialize_def bind_outcome_Returns_iff)
  have "PTABIDX OSVMAP_ADDRESS \<noteq> PTABIDX KMODMAP_ADDRESS" by (simp add: PTABIDX_def drop_bit_eq_div)
  moreover have "pte_at ?s OSVMAP_ADDRESS = Some (PTOB (of_nat f1) OR 3)" using S1(4) by (simp add: mapped_def)
  ultimately have pte: "pte_at s2 OSVMAP_ADDRESS = Some (PTOB (of_nat f1) OR 3)"
    "pte_at s2 KMODMAP_ADDRESS = Some (PTOB (of_nat f2) OR 3)"
    using S2(4) mapped_other [of OSVMAP_ADDRESS KMODMAP_ADDRESS ?s] by (simp_all add: mapped_def)
  moreover have "pte_at (s2\<lparr>kmodmap := k\<rparr>) = pte_at s2" by (simp add: pte_at_def GET_PDE_def fun_eq_iff)
  ultimately have "kpage_is_mapped (s2\<lparr>kmodmap := k\<rparr>) OSVMAP_ADDRESS = 1" "kpage_is_mapped (s2\<lparr>kmodmap := k\<rparr>) KMODMAP_ADDRESS = 1"
    by (simp_all add: is_mapped_pte_at present_bit)
  moreover have "osvmap s2 = m1" using kmem_fields_eq(1) [OF S2(3)] by simp
  moreover have "pframe_ok s2" using S2(2) by (simp add: took_def)
  then have "pframe_ok (s2\<lparr>kmodmap := k\<rparr>)" by (simp add: pframe_ok_def frame_tag_def)
  ultimately show ?thesis using run M(3) M1(2,3) K(2,3) by (simp add: kmem_ok_def)
qed

theorem kmem_initialize_correct_witness:
  "\<exists>s'. kmem_initialize kmem_boot = Returns s' \<and> kmem_ok s'
     \<and> rmap_page (osvmap s') = range_set (range_set (\<lambda>_. None) 0 1048576 True) 0x92000 0x6E000 False"
proof -
  have "pframe_ok kmem_boot" by (simp add: pframe_ok_def kmem_boot_def frame_tag_def low_byte_def)
  moreover have sub: "{2, 3, 4, 5} \<subseteq> free_frames kmem_boot"
    by (simp add: free_frames_def kmem_boot_def frame_tag_def low_byte_def)
  have "4 \<le> card (free_frames kmem_boot)" using card_mono [OF finite_free_frames sub] by simp
  moreover have "4 \<le> unat (freeCount kmem_boot)" "512 \<le> length (osvmap kmem_boot)" "512 \<le> length (kmodmap kmem_boot)"
    by (simp_all add: kmem_boot_def)
  ultimately show ?thesis using kmem_initialize_correct [of kmem_boot] by blast
qed

end
