(* ===== verification/Kmalloc.thy ===== *)
theory Kmalloc
  imports Kmem
begin

text \<open>
  The kernel heap, \<^verbatim>\<open>src/src/sys/kernel/kmalloc.c\<close>: requests up to half a page come from buckets of
  chunks of one size each, larger ones from whole pages. The free chunks of a bucket form a
  list through their first word; the bucket number of a page, or its number of pages, is kept
  in the extra byte of its page frame.
\<close>

section \<open>Data\<close>

record bucket =
  b_mem :: u32
  b_elems :: u32
  b_pages :: u32
  b_size :: u32

text \<open>\<open>kdata\<close> is the word that memory holds at the start of a chunk.\<close>

record kheap = kmem +
  buckets :: "bucket list"
  kdata :: "u32 \<Rightarrow> u32"

abbreviation (input) PAGESHIFT :: nat where "PAGESHIFT \<equiv> 12"

text \<open>The table of the source, written by its runs of equal numbers.\<close>

definition logTable :: "nat list" where
  "logTable = replicate 16 4 @ replicate 16 5 @ replicate 32 6 @ replicate 64 7
     @ replicate 128 8 @ replicate 256 9 @ replicate 512 10 @ replicate 1024 11"

definition BUCKET :: "nat \<Rightarrow> nat" where
  "BUCKET n = logTable ! (n - 1)"

section \<open>Operations\<close>

text \<open>
  Cutting a new page at \<open>p\<close> into chunks: the loop runs over the multiples of the chunk size
  below the page size, and never ends for size 0.
\<close>

definition chunk_starts :: "u32 \<Rightarrow> u32 \<Rightarrow> u32 list" where
  "chunk_starts p sz = map (\<lambda>k. p + of_nat k * sz) [0..<(4096 + unat sz - 1) div unat sz]"

fun push_chunk :: "u32 \<Rightarrow> bucket \<times> (u32 \<Rightarrow> u32) \<Rightarrow> bucket \<times> (u32 \<Rightarrow> u32)" where
  "push_chunk a (b, mem) = (b\<lparr>b_mem := a\<rparr>, mem(a := b_mem b))"

definition split_page :: "u32 \<Rightarrow> bucket \<Rightarrow> (u32 \<Rightarrow> u32) \<Rightarrow> (bucket \<times> (u32 \<Rightarrow> u32)) outcome" where
  "split_page p b mem =
     (if b_size b = 0 then Diverges
      else Returns (fold push_chunk (chunk_starts p (b_size b)) (b, mem)))"

text \<open>A new page for an empty bucket.\<close>

definition kmalloc_refill :: "nat \<Rightarrow> 'a kheap_scheme \<Rightarrow> 'a kheap_scheme outcome" where
  "kmalloc_refill bucket s =
     bind_outcome (kmem_alloc 1 PFT_HEAP s) (\<lambda>(addr, s).
     bind_outcome (kpage_virt2phys s addr) (\<lambda>phys.
     bind_outcome (PFRAME_SET_EXTRA (unat (BTOP phys)) (of_nat bucket) s) (\<lambda>s.
     bind_outcome (split_page addr (buckets s ! bucket) (kdata s)) (\<lambda>(b, mem).
       Returns (s\<lparr>buckets := (buckets s)[bucket := b\<lparr>b_pages := b_pages b + 1\<rparr>], kdata := mem\<rparr>)))))"

text \<open>
  A size below 1 indexes the bucket table before its start. The tag is cut to a byte when it is
  passed on.
\<close>

definition kmalloc_tag :: "int \<Rightarrow> u32 \<Rightarrow> 'a kheap_scheme \<Rightarrow> (u32 \<times> 'a kheap_scheme) outcome" where
  "kmalloc_tag sz tag s =
     (if sz > 2048 then
        bind_outcome (kmem_alloc (uint (PAGES (of_int sz))) (if tag \<noteq> 0 then ucast tag else PFT_HEAP) s) (\<lambda>(addr, s).
          let bucket = uint (PAGES (of_int sz)) + 12 in
          if bucket > 255 then Panics ''Not enough space for extra information in physical frame''
          else
            bind_outcome (kpage_virt2phys s addr) (\<lambda>phys.
            bind_outcome (PFRAME_SET_EXTRA (unat (BTOP phys)) (of_int bucket) s) (\<lambda>s.
              Returns (addr, s))))
      else if sz < 1 then Faults
      else
        let bucket = BUCKET (nat sz) in
        bind_outcome (if b_mem (buckets s ! bucket) = 0 then kmalloc_refill bucket s else Returns s) (\<lambda>s.
          let addr = b_mem (buckets s ! bucket) in
          Returns (addr, s\<lparr>buckets := upd_at bucket (\<lambda>b. b\<lparr>b_mem := kdata s addr\<rparr>) (buckets s)\<rparr>)))"

definition krealloc_tag :: "u32 \<Rightarrow> int \<Rightarrow> u32 \<Rightarrow> 'a kheap_scheme \<Rightarrow> (u32 \<times> 'a kheap_scheme) outcome" where
  "krealloc_tag addr newsize tag s = Panics ''krealloc_tag not implemented''"

definition kfree :: "u32 \<Rightarrow> 'a kheap_scheme \<Rightarrow> 'a kheap_scheme outcome" where
  "kfree addr s =
     (if addr = 0 then Returns s
      else
        bind_outcome (kpage_virt2phys s addr) (\<lambda>phys.
        bind_outcome (PFRAME_GET_EXTRA s (unat (BTOP phys))) (\<lambda>bucket.
          if bucket \<ge> 12 then kmem_free addr (uint bucket - 12) s
          else
            let bucket = unat bucket in
            Returns (s\<lparr>kdata := (kdata s)(addr := b_mem (buckets s ! bucket)),
                       buckets := upd_at bucket (\<lambda>b. b\<lparr>b_mem := addr\<rparr>) (buckets s)\<rparr>))))"

definition init_malloc :: "'a kheap_scheme \<Rightarrow> 'a kheap_scheme" where
  "init_malloc s = s\<lparr>buckets := fold (\<lambda>i. upd_at i (\<lambda>b. b\<lparr>b_size := push_bit i 1\<rparr>)) [0..<12] (buckets s)\<rparr>"

definition kmalloc :: "int \<Rightarrow> 'a kheap_scheme \<Rightarrow> (u32 \<times> 'a kheap_scheme) outcome" where
  "kmalloc sz s = kmalloc_tag sz 0 s"

definition krealloc :: "u32 \<Rightarrow> int \<Rightarrow> 'a kheap_scheme \<Rightarrow> (u32 \<times> 'a kheap_scheme) outcome" where
  "krealloc addr newsize s = krealloc_tag addr newsize 0 s"

section \<open>Notions\<close>

text \<open>The free chunks of a list that starts at \<open>p\<close>, linked through their first words.\<close>

primrec chain :: "(u32 \<Rightarrow> u32) \<Rightarrow> u32 \<Rightarrow> u32 list \<Rightarrow> bool" where
  "chain m p [] \<longleftrightarrow> p = 0"
| "chain m p (a # as) \<longleftrightarrow> p = a \<and> a \<noteq> 0 \<and> chain m (m a) as"

text \<open>
  The chunk at \<open>a\<close> belongs to bucket \<open>b\<close>: it is aligned to its size, its page is in use, and the
  frame of the page is in use and carries the bucket number.
\<close>

definition chunk_ok :: "'a kheap_scheme \<Rightarrow> nat \<Rightarrow> u32 \<Rightarrow> bool" where
  "chunk_ok s b a \<longleftrightarrow> a \<noteq> 0 \<and> 2 ^ b dvd unat a \<and> rmap_page (osvmap s) (unat (BTOP a)) = Some True
     \<and> (\<exists>pte. pte_at s a = Some pte \<and> unat (BTOP pte) < unat (frameCount s)
          \<and> unat (BTOP pte) \<notin> free_frames s \<and> frame_extra s (unat (BTOP pte)) = of_nat b)"

text \<open>The heap is well-formed, with the free chunks \<open>F b\<close> in bucket \<open>b\<close>.\<close>

definition heap_inv :: "'a kheap_scheme \<Rightarrow> (nat \<Rightarrow> u32 list) \<Rightarrow> bool" where
  "heap_inv s F \<longleftrightarrow> kmem_ok s \<and> length (buckets s) = 12 \<and> rmap_page (osvmap s) 0 = Some True
     \<and> (\<forall>b<12. b_size (buckets s ! b) = 2 ^ b \<and> chain (kdata s) (b_mem (buckets s ! b)) (F b)
              \<and> distinct (F b) \<and> (\<forall>a\<in>set (F b). chunk_ok s b a))"

text \<open>
  From \<open>s\<close> to \<open>s'\<close> nothing changed but \<open>n\<close> pages from page \<open>off\<close> on, which were free, and frames
  that were free.
\<close>

definition only_pages :: "'a kmem_scheme \<Rightarrow> u32 \<Rightarrow> nat \<Rightarrow> 'a kmem_scheme \<Rightarrow> bool" where
  "only_pages s off n s' \<longleftrightarrow> unat off + n \<le> 1048576 \<and> range_is (rmap_page (osvmap s)) (unat off) n False
     \<and> (\<forall>p. p < unat off \<or> unat off + n \<le> p \<longrightarrow> rmap_page (osvmap s') p = rmap_page (osvmap s) p)
     \<and> others_kept (PTOB off) n (pte_at s) (pte_at s') \<and> frameCount s' = frameCount s \<and> free_frames s' \<subseteq> free_frames s
     \<and> (\<forall>k < unat (frameCount s). k \<notin> free_frames s \<longrightarrow> frame_extra s' k = frame_extra s k)
     \<and> kmem.more s' = kmem.more s"

text \<open>The heap with the free chunks \<open>F\<close> and the chunks \<open>L\<close>, pairs of bucket and address, in use.\<close>

definition heap_live :: "'a kheap_scheme \<Rightarrow> (nat \<Rightarrow> u32 list) \<Rightarrow> (nat \<times> u32) set \<Rightarrow> bool" where
  "heap_live s F L \<longleftrightarrow> heap_inv s F \<and> (\<forall>(b, a)\<in>L. b < 12 \<and> chunk_ok s b a \<and> a \<notin> set (F b))"

definition chunk_bytes :: "nat \<times> u32 \<Rightarrow> nat set" where
  "chunk_bytes c = {unat (snd c)..<unat (snd c) + 2 ^ fst c}"

definition kheap_example :: kheap where
  "kheap_example = kmem.extend kmem_example
     (kheap.fields (map (\<lambda>i. \<lparr>b_mem = 0, b_elems = 0, b_pages = 0, b_size = 2 ^ i\<rparr>) [0..<12]) (\<lambda>_. 0))"

section \<open>The bucket table\<close>

lemma nth_replicate_append: "(replicate n x @ xs) ! i = (if i < n then x else xs ! (i - n))"
  by (simp add: nth_append)

lemma BUCKET_law:
  assumes "1 \<le> n" "n \<le> 2048"
  shows "4 \<le> BUCKET n" "BUCKET n < 12" "n \<le> 2 ^ BUCKET n" "BUCKET n = 4 \<or> 2 ^ (BUCKET n - 1) < n"
proof -
  have T: "BUCKET n = (if n \<le> 16 then 4 else if n \<le> 32 then 5 else if n \<le> 64 then 6 else if n \<le> 128 then 7
      else if n \<le> 256 then 8 else if n \<le> 512 then 9 else if n \<le> 1024 then 10 else 11)"
  proof -
    obtain i where i: "n = Suc i" "i < 2048" using assms by (cases n) auto
    have "replicate 1024 (11 :: nat) ! (i - 16 - 16 - 32 - 64 - 128 - 256 - 512) = 11" if "\<not> i < 1024"
      using i(2) that by (intro nth_replicate) simp
    then show ?thesis
      unfolding BUCKET_def logTable_def nth_replicate_append i(1) diff_Suc_1 Suc_le_eq
      by (intro if_cong refl) (simp_all add: less_diff_conv2 not_less)
  qed
  show "4 \<le> BUCKET n" "BUCKET n < 12" "n \<le> 2 ^ BUCKET n" "BUCKET n = 4 \<or> 2 ^ (BUCKET n - 1) < n"
    unfolding T using assms by simp_all
qed

section \<open>Chains and chunks\<close>

lemma chain_upd [simp]: "a \<notin> set as \<Longrightarrow> chain (m(a := x)) p as = chain m p as"
  by (induction as arbitrary: p) auto

lemma chain_cong: "(\<And>a. a \<in> set as \<Longrightarrow> m a = m' a) \<Longrightarrow> chain m p as = chain m' p as"
  by (induction as arbitrary: p) auto

lemma PFNMASK_PTOB: "pte AND PT_PFNMASK = PTOB (BTOP pte)"
  by (rule bit_word_eqI) (auto simp: bit_simps bit_PFNMASK PTOB_def BTOP_def)

lemma BTOP_phys: "BTOP ((pte AND PT_PFNMASK) + PGOFF a) = BTOP pte"
proof -
  have b: "unat pte div 4096 * 4096 \<le> 2 ^ 32 - 4096" using unat_u32_bound [of pte] by simp
  have "unat (PTOB (BTOP pte) + PGOFF a) = unat pte div 4096 * 4096 + unat a mod 4096"
    using b by (subst unat_plus_bounded) (auto simp: unat_PTOB unat_BTOP unat_PGOFF)
  then show ?thesis unfolding PFNMASK_PTOB word_unat_eq_iff unat_BTOP by simp
qed

lemma BTOP_pte: "unat f < 2 ^ 20 \<Longrightarrow> BTOP (PTOB f OR 3) = f"
proof -
  assume f: "unat f < 2 ^ 20"
  have "BTOP (PTOB f OR 3) = BTOP (PTOB f) OR BTOP 3" by (simp add: BTOP_def)
  then show ?thesis using BTOP_PTOB [OF f] by (simp add: BTOP_def drop_bit_eq_div)
qed

lemma BTOP_eq_PTABIDX: "BTOP a = PTABIDX a"
  by (simp add: BTOP_def PTABIDX_def)

lemma split_fold:
  assumes "chain mem (b_mem b) as" "distinct xs" "0 \<notin> set xs" "set xs \<inter> set as = {}"
  shows "\<exists>mem' p. fold push_chunk xs (b, mem) = (b\<lparr>b_mem := p\<rparr>, mem')
     \<and> chain mem' p (rev xs @ as) \<and> (\<forall>y. y \<notin> set xs \<longrightarrow> mem' y = mem y)"
  using assms
proof (induction xs arbitrary: b mem as)
  case Nil
  then show ?case by (auto intro!: exI [of _ "b_mem b"])
next
  case (Cons x xs)
  have "chain (mem(x := b_mem b)) (b_mem (b\<lparr>b_mem := x\<rparr>)) (x # as)" "distinct xs" "0 \<notin> set xs" "set xs \<inter> set (x # as) = {}"
    using Cons.prems by auto
  from Cons.IH [OF this] obtain mem' p where "fold push_chunk xs (b\<lparr>b_mem := x\<rparr>, mem(x := b_mem b))
       = (b\<lparr>b_mem := x\<rparr>\<lparr>b_mem := p\<rparr>, mem')"
     "chain mem' p (rev xs @ x # as)" "\<forall>y. y \<notin> set xs \<longrightarrow> mem' y = (mem(x := b_mem b)) y"
    by blast
  then show ?case by (auto intro!: exI [of _ mem'] exI [of _ p])
qed

section \<open>A new page\<close>

lemma unat_power_u32: "b < 32 \<Longrightarrow> unat ((2 :: u32) ^ b) = 2 ^ b"
  using unat_of_nat_u32 [of "2 ^ b"] power_strict_increasing [of b 32 "2 :: nat"] by simp

lemma chunk_start_value:
  assumes off: "unat off < 2 ^ 20" and b: "b < 12" and k: "k < 2 ^ (12 - b)"
  shows "unat (PTOB off + of_nat k * 2 ^ b) = unat off * 4096 + k * 2 ^ b" "k * 2 ^ b < 4096"
proof -
  have "(2::nat) ^ b * 2 ^ (12 - b) = 4096" using b by (simp add: power_add [symmetric])
  then show kb: "k * 2 ^ b < 4096" using k by (metis mult.commute mult_less_mono1 zero_less_power zero_less_numeral)
  have "k < 2 ^ 12" using k b by (meson diff_le_self less_le_trans one_le_numeral power_increasing)
  then have kw: "unat (of_nat k :: u32) = k" by (simp add: unat_of_nat_u32)
  have "unat ((2 :: u32) ^ b) = 2 ^ b" using b by (simp add: unat_power_u32)
  then have "unat (of_nat k * 2 ^ b :: u32) = k * 2 ^ b" using kb kw by (simp add: unat_word_ariths)
  then show "unat (PTOB off + of_nat k * 2 ^ b) = unat off * 4096 + k * 2 ^ b"
    using off kb by (subst unat_plus_bounded) (auto simp: unat_PTOB)
qed

lemma chunk_starts_law:
  assumes off: "unat off < 2 ^ 20" "0 < unat off" and b: "b < 12"
  shows "distinct (chunk_starts (PTOB off) (2 ^ b))" "0 \<notin> set (chunk_starts (PTOB off) (2 ^ b))"
    "chunk_starts (PTOB off) (2 ^ b) \<noteq> []"
    "a \<in> set (chunk_starts (PTOB off) (2 ^ b)) \<Longrightarrow> 2 ^ b dvd unat a \<and> BTOP a = off"
proof -
  let ?n = "2 ^ (12 - b) :: nat"
  have sz: "unat ((2 :: u32) ^ b) = 2 ^ b" using b by (simp add: unat_power_u32)
  have "(2::nat) ^ b * 2 ^ (12 - b) = 4096" using b by (simp add: power_add [symmetric])
  then have "4096 + 2 ^ b - 1 = (2 ^ b - 1) + ?n * 2 ^ b" by (simp add: mult.commute)
  then have "(4096 + 2 ^ b - 1) div 2 ^ b = ((2 ^ b - 1) + ?n * 2 ^ b) div 2 ^ b" by (rule arg_cong)
  also have "\<dots> = ?n + (2 ^ b - 1) div 2 ^ b" by (rule div_mult_self1) simp
  finally have "(4096 + 2 ^ b - 1) div 2 ^ b = ?n" by simp
  then have eq: "chunk_starts (PTOB off) (2 ^ b) = map (\<lambda>k. PTOB off + of_nat k * 2 ^ b) [0..<?n]"
    by (simp add: chunk_starts_def sz)
  note v = chunk_start_value [OF off(1) b]
  show "distinct (chunk_starts (PTOB off) (2 ^ b))"
    unfolding eq distinct_map
  proof (intro conjI inj_onI)
    fix k l assume kl: "k \<in> set [0..<?n]" "l \<in> set [0..<?n]" "PTOB off + of_nat k * 2 ^ b = PTOB off + of_nat l * 2 ^ b"
    from kl(3) have "unat (PTOB off + of_nat k * 2 ^ b) = unat (PTOB off + of_nat l * 2 ^ b)" by (rule arg_cong)
    moreover have "k < ?n" "l < ?n" using kl(1,2) by simp_all
    ultimately show "k = l" unfolding v(1) [OF \<open>k < ?n\<close>] v(1) [OF \<open>l < ?n\<close>] by simp
  qed simp
  show "0 \<notin> set (chunk_starts (PTOB off) (2 ^ b))"
  proof
    assume "0 \<in> set (chunk_starts (PTOB off) (2 ^ b))"
    then obtain k where k: "k < ?n" "0 = PTOB off + of_nat k * 2 ^ b" unfolding eq set_map by auto
    from k(2) have "unat (0 :: u32) = unat (PTOB off + of_nat k * 2 ^ b)" by (rule arg_cong)
    then show False using off(2) unfolding v(1) [OF k(1)] by simp
  qed
  show "chunk_starts (PTOB off) (2 ^ b) \<noteq> []" unfolding eq by simp
  assume "a \<in> set (chunk_starts (PTOB off) (2 ^ b))"
  then obtain k where k: "k < ?n" "a = PTOB off + of_nat k * 2 ^ b" unfolding eq by auto
  have "2 ^ b dvd (4096 :: nat)" using b by (simp add: le_imp_power_dvd [of b 12 2, simplified])
  then have "2 ^ b dvd unat a" using v(1) [OF k(1)] k(2) by (simp add: dvd_mult)
  moreover have "unat (BTOP a) = unat off" using v [OF k(1)] k(2) by (simp add: unat_BTOP)
  ultimately show "2 ^ b dvd unat a \<and> BTOP a = off" by (simp add: word_unat_eq_iff)
qed

lemma kheap_fields_eq:
  assumes "kmem.more s' = kmem.more s"
  shows "buckets s' = buckets s" "kdata s' = kdata s" "kheap.more s' = kheap.more s"
  using assms by (cases s; cases s'; simp)+

lemma heap_update [simp]:
  "free_frames (s\<lparr>buckets := bs\<rparr>) = free_frames s" "pframe_ok (s\<lparr>buckets := bs\<rparr>) = pframe_ok s"
  "pte_at (s\<lparr>buckets := bs\<rparr>) = pte_at s" "frame_extra (s\<lparr>buckets := bs\<rparr>) = frame_extra s"
  "free_frames (s\<lparr>kdata := m\<rparr>) = free_frames s" "pframe_ok (s\<lparr>kdata := m\<rparr>) = pframe_ok s"
  "pte_at (s\<lparr>kdata := m\<rparr>) = pte_at s" "frame_extra (s\<lparr>kdata := m\<rparr>) = frame_extra s"
  by (simp_all add: free_frames_def pframe_ok_def frame_tag_def frame_extra_def pte_at_def GET_PDE_def fun_eq_iff)

lemma heap_update_ok [simp]:
  "kmem_ok (s\<lparr>buckets := bs\<rparr>) = kmem_ok s" "kmem_ok (s\<lparr>kdata := m\<rparr>) = kmem_ok s"
  "chunk_ok (s\<lparr>buckets := bs\<rparr>) b a = chunk_ok s b a" "chunk_ok (s\<lparr>kdata := m\<rparr>) b a = chunk_ok s b a"
  by (simp_all add: kmem_ok_def chunk_ok_def)

lemma pte_at_same: "PTABIDX a = PTABIDX v \<Longrightarrow> pte_at s a = pte_at s v"
  using same_page_PGOFF [of a v] by (simp add: pte_at_def GET_PDE_def)

lemma virt2phys_frame:
  "pte_at s a = Some pte \<Longrightarrow> \<exists>phys. kpage_virt2phys s a = Returns phys \<and> BTOP phys = BTOP pte"
  by (simp add: kpage_virt2phys_def pte_at_GET_PTE BTOP_phys)

text \<open>Setting the extra byte of a frame.\<close>

lemma PFRAME_SET_EXTRA_law:
  assumes "f < unat (frameCount s)" "pframe_ok s"
  shows "\<exists>s'. PFRAME_SET_EXTRA f v s = Returns s' \<and> pframe_ok s' \<and> frameCount s' = frameCount s
    \<and> free_frames s' = free_frames s \<and> (\<forall>k. frame_extra s' k = (if k = f then v else frame_extra s k))
    \<and> pframe_db.more s' = pframe_db.more s"
proof -
  have f: "f < length (frameArray s)" using assms by (simp add: pframe_ok_def)
  define s' where "s' = s\<lparr>frameArray := (frameArray s)[f := with_high_byte (frameArray s ! f) v]\<rparr>"
  have tag: "frame_tag s' k = frame_tag s k" for k
    using f by (cases "k = f") (simp_all add: s'_def frame_tag_def)
  have ex: "frame_extra s' k = (if k = f then v else frame_extra s k)" for k
    using f by (simp add: s'_def frame_extra_def)
  have "PFRAME_SET_EXTRA f v s = Returns s'" using f by (simp add: PFRAME_SET_EXTRA_def s'_def)
  moreover have "frameCount s' = frameCount s" "length (frameArray s') = length (frameArray s)"
    "pframe_db.more s' = pframe_db.more s" by (simp_all add: s'_def)
  ultimately show ?thesis using assms(2) tag ex by (simp add: pframe_ok_def free_frames_def)
qed

text \<open>A chunk stays what it is when its page, its frame and the number of its frame are kept.\<close>

lemma chunk_ok_kept:
  assumes "chunk_ok s b a" "pte_at s' a = pte_at s a" "frameCount s' = frameCount s"
    "rmap_page (osvmap s') (unat (BTOP a)) = rmap_page (osvmap s) (unat (BTOP a))"
    "free_frames s' \<subseteq> free_frames s"
    "\<And>k. k < unat (frameCount s) \<Longrightarrow> k \<notin> free_frames s \<Longrightarrow> frame_extra s' k = frame_extra s k"
  shows "chunk_ok s' b a"
  using assms by (auto simp: chunk_ok_def)

lemma only_pages_chunk:
  assumes "only_pages s off n s'" and c: "chunk_ok s b a"
  shows "chunk_ok s' b a" "unat (BTOP a) < unat off \<or> unat off + n \<le> unat (BTOP a)"
proof -
  note P = assms(1) [unfolded only_pages_def]
  show ne: "unat (BTOP a) < unat off \<or> unat off + n \<le> unat (BTOP a)"
  proof (rule ccontr)
    assume "\<not> ?thesis"
    then have "rmap_page (osvmap s) (unat (BTOP a)) = Some False" using P by (simp add: range_is_def)
    then show False using c by (simp add: chunk_ok_def)
  qed
  have "PTABIDX a \<noteq> PTABIDX (PTOB off + PTOB (of_nat i))" if "i < n" for i
  proof
    assume "PTABIDX a = PTABIDX (PTOB off + PTOB (of_nat i))"
    then have "unat (BTOP a) = unat off + i" using page_number [OF conjunct1 [OF P] that] by (simp add: BTOP_eq_PTABIDX)
    then show False using that ne by linarith
  qed
  then have "pte_at s' a = pte_at s a" using P c by (auto simp: others_kept_def chunk_ok_def)
  moreover have "rmap_page (osvmap s') (unat (BTOP a)) = rmap_page (osvmap s) (unat (BTOP a))" using P ne by blast
  ultimately show "chunk_ok s' b a" using P by (intro chunk_ok_kept [OF c]) simp_all
qed

text \<open>Whole pages whose first frame gets the number \<open>v\<close>.\<close>

lemma new_pages:
  assumes ok: "kmem_ok s" and p: "0 < p" "p \<le> 0x100000" and tag: "tag \<noteq> PFT_FREE" and room: "kmem_room (nat p) s"
  shows "\<exists>off fs s1 s2 phys. kmem_alloc p tag s = Returns (PTOB off, s1)
     \<and> kpage_virt2phys s1 (PTOB off) = Returns phys
     \<and> PFRAME_SET_EXTRA (unat (BTOP phys)) v s1 = Returns s2 \<and> only_pages s off (nat p) s2 \<and> kmem_ok s2
     \<and> rmap_page (osvmap s2) = range_set (rmap_page (osvmap s)) (unat off) (nat p) True
     \<and> length fs = nat p \<and> distinct fs \<and> set fs \<subseteq> free_frames s
     \<and> (\<forall>f\<in>set fs. f < unat (frameCount s2) \<and> f \<notin> free_frames s2)
     \<and> frame_extra s2 (fs ! 0) = v \<and> pages_mapped (PTOB off) fs 3 (pte_at s2)"
proof -
  obtain off fs s1 where A: "kmem_alloc p tag s = Returns (PTOB off, s1)" "kmem_ok s1" "unat off + nat p \<le> 1048576"
     "range_is (rmap_page (osvmap s)) (unat off) (nat p) False"
     "rmap_page (osvmap s1) = range_set (rmap_page (osvmap s)) (unat off) (nat p) True"
     "length fs = nat p" "distinct fs" "took s (set fs) (2 * nat p) s1"
     "pages_mapped (PTOB off) fs (PT_WRITABLE OR PT_PRESENT) (pte_at s1)"
     "others_kept (PTOB off) (nat p) (pte_at s) (pte_at s1)" "kmem.more s1 = kmem.more s"
    using kmem_alloc_law [OF ok p tag room] by blast
  have maps: "pages_mapped (PTOB off) fs 3 (pte_at s1)" using A(9) by simp
  define f where "f = fs ! 0"
  have "pte_at s1 (PTOB off + PTOB (of_nat 0)) = Some (PTOB (of_nat f) OR 3)"
    using maps A(6) p unfolding pages_mapped_def f_def by (metis zero_less_nat_eq)
  then have pte: "pte_at s1 (PTOB off) = Some (PTOB (of_nat f) OR 3)" by (simp add: PTOB_def)
  have used: "\<forall>f\<in>set fs. f < unat (frameCount s1) \<and> f \<notin> free_frames s1" "set fs \<subseteq> free_frames s"
    using A(8) by (auto simp: took_def free_frames_def)
  moreover have "f \<in> set fs" using A(6) p by (simp add: f_def)
  ultimately have f: "f \<in> free_frames s" "f < unat (frameCount s1)" by auto
  have pf: "pframe_ok s1" and inv: "rmap_inv (osvmap s1)" using A(2) by (simp_all add: kmem_ok_def)
  have fw: "unat (of_nat f :: u32) = f" "f < 2 ^ 20" using f(2) pf by (simp_all add: pframe_ok_def unat_of_nat_u32)
  obtain phys where V: "kpage_virt2phys s1 (PTOB off) = Returns phys" "BTOP phys = of_nat f"
    using virt2phys_frame [OF pte] BTOP_pte [of "of_nat f"] fw by auto
  obtain s2 where E: "PFRAME_SET_EXTRA f v s1 = Returns s2" "pframe_ok s2" "frameCount s2 = frameCount s1"
    "free_frames s2 = free_frames s1" "\<And>k. frame_extra s2 k = (if k = f then v else frame_extra s1 k)"
    "pframe_db.more s2 = pframe_db.more s1"
    using PFRAME_SET_EXTRA_law [OF f(2) pf] by blast
  have pt: "pte_at s2 = pte_at s1" by (simp add: pte_at_def GET_PDE_def paging_fields_eq [OF E(6)] fun_eq_iff)
  have km: "osvmap s2 = osvmap s1" "kmem.more s2 = kmem.more s1"
    using kmem_fields_eq [OF paging_fields_eq(3) [OF E(6)]] by simp_all
  have la: "unat (frameCount s) < length (frameArray s)" using ok by (simp add: kmem_ok_def pframe_ok_def)
  have "frame_extra s2 k = frame_extra s k" if "k < unat (frameCount s)" "k \<notin> free_frames s" for k
    using that A(8) f(1) la by (auto simp: E(5) took_def)
  then have "only_pages s off (nat p) s2"
    using A(3-5,8,10,11) by (auto simp: only_pages_def pt km E(3,4) took_def range_set_def)
  moreover have "kmem_ok s2" using E(2) inv by (simp add: kmem_ok_def km)
  moreover have "frame_extra s2 (fs ! 0) = v" by (simp add: E(5) f_def [symmetric])
  ultimately show ?thesis
    using A(1,5-7) V E(1) fw(1) used maps km(1)
    by (intro exI [of _ off] exI [of _ fs] exI [of _ s1] exI [of _ s2] exI [of _ phys]) (simp add: pt E(3,4))
qed

section \<open>Chunks do not overlap\<close>

lemma chunk_ok_bucket: "chunk_ok s b a \<Longrightarrow> chunk_ok s c x \<Longrightarrow> BTOP a = BTOP x \<Longrightarrow> b < 12 \<Longrightarrow> c < 12 \<Longrightarrow> b = c"
proof -
  assume a: "chunk_ok s b a" "chunk_ok s c x" "BTOP a = BTOP x" "b < 12" "c < 12"
  then have "pte_at s a = pte_at s x" using pte_at_same [of a x s] by (simp add: BTOP_eq_PTABIDX)
  then have "(of_nat b :: u8) = of_nat c" using a(1,2) by (auto simp: chunk_ok_def)
  then have "unat (of_nat b :: u8) = unat (of_nat c :: u8)" by simp
  then show ?thesis using a(4,5) by (simp add: unat_of_nat)
qed

lemma chunk_page: "chunk_ok s b a \<Longrightarrow> b < 12 \<Longrightarrow> unat a mod 4096 + 2 ^ b \<le> 4096"
proof -
  assume c: "chunk_ok s b a" "b < 12"
  have "2 ^ b dvd (4096 :: nat)" using c(2) by (simp add: le_imp_power_dvd [of b 12 2, simplified])
  moreover from this have "2 ^ b dvd unat a mod 4096" using c(1) by (simp add: chunk_ok_def dvd_mod)
  ultimately obtain k l where kl: "(4096 :: nat) = 2 ^ b * k" "unat a mod 4096 = 2 ^ b * l" by (auto simp: dvd_def)
  have "2 ^ b * l < 2 ^ b * k" using kl mod_less_divisor [of 4096 "unat a"] by simp
  then have "l + 1 \<le> k" by simp
  then have "2 ^ b * (l + 1) \<le> 2 ^ b * k" by (rule mult_le_mono2)
  then show ?thesis using kl by simp
qed

lemma same_page: "x mod 4096 + n \<le> 4096 \<Longrightarrow> x \<le> y \<Longrightarrow> y < x + n \<Longrightarrow> y div 4096 = x div (4096 :: nat)"
proof -
  assume a: "x mod 4096 + n \<le> 4096" "x \<le> y" "y < x + n"
  have "4096 * (x div 4096) + x mod 4096 = x" by (rule mult_div_mod_eq)
  then show ?thesis using a by (intro div_nat_eqI) (linarith, unfold mult_Suc_right, linarith)
qed

lemma chunks_disjoint:
  assumes c: "chunk_ok s b a" "chunk_ok s c x" "b < 12" "c < 12" and ne: "(b, a) \<noteq> (c, x)"
  shows "chunk_bytes (b, a) \<inter> chunk_bytes (c, x) = {}"
proof (cases "BTOP a = BTOP x")
  case True
  have bc: "b = c" using chunk_ok_bucket [OF c(1,2) True c(3,4)] .
  obtain k l where kl: "unat a = 2 ^ b * k" "unat x = 2 ^ b * l"
    using c(1,2) bc by (auto simp: chunk_ok_def dvd_def)
  have "k \<noteq> l" using ne bc kl by (metis word_unat_eq_iff)
  then have "k + 1 \<le> l \<or> l + 1 \<le> k" by arith
  then have "2 ^ b * (k + 1) \<le> 2 ^ b * l \<or> 2 ^ b * (l + 1) \<le> 2 ^ b * k" by (metis mult_le_mono2)
  then show ?thesis using kl bc by (auto simp: chunk_bytes_def)
next
  case False
  have "unat a div 4096 \<noteq> unat x div 4096" using False by (simp add: word_unat_eq_iff unat_BTOP)
  moreover have "y div 4096 = unat a div 4096" if "y \<in> chunk_bytes (b, a)" for y
    using that by (intro same_page [OF chunk_page [OF c(1,3)]]) (simp_all add: chunk_bytes_def)
  moreover have "y div 4096 = unat x div 4096" if "y \<in> chunk_bytes (c, x)" for y
    using that by (intro same_page [OF chunk_page [OF c(2,4)]]) (simp_all add: chunk_bytes_def)
  ultimately show ?thesis by (metis disjoint_iff)
qed

section \<open>Allocation from a bucket\<close>

lemma new_chunk:
  assumes off: "unat off < 2 ^ 20" and a: "a \<noteq> 0" "2 ^ b dvd unat a" "BTOP a = off" and ok: "kmem_ok s"
    and rm: "rmap_page (osvmap s) (unat off) = Some True" and fs: "length fs = 1"
    "\<forall>f\<in>set fs. f < unat (frameCount s) \<and> f \<notin> free_frames s" "frame_extra s (fs ! 0) = of_nat b"
    and maps: "pages_mapped (PTOB off) fs 3 (pte_at s)"
  shows "chunk_ok s b a"
proof -
  obtain f where f: "fs = [f]" using fs(1) by (auto simp: length_Suc_conv)
  have "unat (frameCount s) \<le> 2 ^ 20" using ok by (simp add: kmem_ok_def pframe_ok_def)
  then have "unat (of_nat f :: u32) = f" "f < 2 ^ 20" using fs(2) by (auto simp: f unat_of_nat_u32)
  then have fr: "unat (BTOP (PTOB (of_nat f) OR 3)) = f" using BTOP_pte [of "of_nat f"] by simp
  have "pte_at s (PTOB off) = Some (PTOB (of_nat f) OR 3)" using maps by (simp add: pages_mapped_def f PTOB_def)
  moreover have "PTABIDX a = PTABIDX (PTOB off)" using a(3) BTOP_PTOB [OF off] by (simp add: BTOP_eq_PTABIDX)
  ultimately have "pte_at s a = Some (PTOB (of_nat f) OR 3)" using pte_at_same [of a "PTOB off" s] by simp
  then show ?thesis using a rm fs fr by (simp add: chunk_ok_def f)
qed

lemma heap_refill:
  assumes inv: "heap_inv s F" and b: "b < 12" and empty: "F b = []" and room: "kmem_room 1 s"
  shows "\<exists>xs s'. kmalloc_refill b s = Returns s' \<and> xs \<noteq> [] \<and> heap_inv s' (F(b := xs))
     \<and> (\<forall>c a. chunk_ok s c a \<longrightarrow> chunk_ok s' c a \<and> a \<notin> set xs)"
proof -
  have ok: "kmem_ok s" "rmap_page (osvmap s) 0 = Some True" and len: "length (buckets s) = 12"
    and bk: "\<And>c. c < 12 \<Longrightarrow> b_size (buckets s ! c) = 2 ^ c \<and> chain (kdata s) (b_mem (buckets s ! c)) (F c)
              \<and> distinct (F c) \<and> (\<forall>a\<in>set (F c). chunk_ok s c a)"
    using inv by (auto simp: heap_inv_def)
  obtain off fs s1 s2 phys where N: "kmem_alloc 1 PFT_HEAP s = Returns (PTOB off, s1)"
    "kpage_virt2phys s1 (PTOB off) = Returns phys" "PFRAME_SET_EXTRA (unat (BTOP phys)) (of_nat b) s1 = Returns s2"
    "only_pages s off (nat 1) s2" "kmem_ok s2"
    "rmap_page (osvmap s2) = range_set (rmap_page (osvmap s)) (unat off) (nat 1) True" "length fs = nat 1"
    "\<forall>f\<in>set fs. f < unat (frameCount s2) \<and> f \<notin> free_frames s2" "frame_extra s2 (fs ! 0) = of_nat b"
    "pages_mapped (PTOB off) fs 3 (pte_at s2)"
    using new_pages [OF ok(1), of 1 PFT_HEAP "of_nat b"] room by auto
  have h2: "buckets s2 = buckets s" "kdata s2 = kdata s" using N(4) kheap_fields_eq [of s2 s] by (simp_all add: only_pages_def)
  have free: "rmap_page (osvmap s) (unat off) = Some False" and off: "unat off < 2 ^ 20"
    using N(4) by (auto simp: only_pages_def range_is_def)
  then have pos: "0 < unat off" using ok(2) by (cases "unat off") auto
  let ?xs = "chunk_starts (PTOB off) (2 ^ b)"
  note C = chunk_starts_law [OF off pos b]
  have new: "chunk_ok s2 b a" if "a \<in> set ?xs" for a
    using C(2) C(4) [OF that] that N(5-10) off
    by (intro new_chunk [of off a b s2 fs]) (auto simp: range_set_def)
  have old: "chunk_ok s2 c a" "a \<notin> set ?xs" if "chunk_ok s c a" for c a
  proof -
    show "chunk_ok s2 c a" using N(4) that by (rule only_pages_chunk)
    show "a \<notin> set ?xs" using C(4) [of a] that free by (auto simp: chunk_ok_def)
  qed
  let ?b = "buckets s ! b"
  have "chain (kdata s) (b_mem ?b) []" "set ?xs \<inter> set [] = {}" using bk [OF b] empty by simp_all
  then obtain mem' p where S: "fold push_chunk ?xs (?b, kdata s) = (?b\<lparr>b_mem := p\<rparr>, mem')"
     "chain mem' p (rev ?xs)" "\<forall>y. y \<notin> set ?xs \<longrightarrow> mem' y = kdata s y"
    using split_fold [OF _ C(1,2), of "kdata s" "?b" "[]"] by auto
  define s' where "s' = s2\<lparr>buckets := (buckets s)[b := ?b\<lparr>b_mem := p, b_pages := b_pages ?b + 1\<rparr>], kdata := mem'\<rparr>"
  have "kmalloc_refill b s = Returns s'"
    using N(1-3) S(1) bk [OF b] b by (simp add: kmalloc_refill_def h2 split_page_def s'_def)
  moreover have "chunk_ok s' c a" if "chunk_ok s c a" for c a using old(1) that by (simp add: s'_def)
  moreover have "heap_inv s' (F(b := rev ?xs))"
  proof -
    have "chain mem' (b_mem (buckets s ! c)) (F c)" if "c < 12" for c
      using chain_cong [of "F c" mem' "kdata s"] S(3) bk [OF that] old(2) by blast
    then show ?thesis
      using N(5,6) old(1) bk C(1) new S(2) len b ok(2)
      by (auto simp: heap_inv_def s'_def nth_list_update range_set_def)
  qed
  ultimately show ?thesis
    using C(3) old(2) by (intro exI [of _ "rev ?xs"] exI [of _ s']) auto
qed

lemma kmalloc_pop:
  assumes live: "heap_live s F L" and b: "b < 12" and F: "F b = a # as"
  shows "b_mem (buckets s ! b) = a"
    "heap_live (s\<lparr>buckets := upd_at b (\<lambda>x. x\<lparr>b_mem := kdata s a\<rparr>) (buckets s)\<rparr>) (F(b := as)) (insert (b, a) L)"
  using assms by (auto simp: heap_live_def heap_inv_def upd_at_def nth_list_update split: if_splits)

lemma kmalloc_small_law:
  assumes live: "heap_live s F L" and sz: "1 \<le> sz" "sz \<le> 2048"
    and room: "F (BUCKET (nat sz)) \<noteq> [] \<or> kmem_room 1 s"
  shows "\<exists>a s' F'. kmalloc_tag sz tag s = Returns (a, s') \<and> heap_live s' F' (insert (BUCKET (nat sz), a) L)
     \<and> (BUCKET (nat sz), a) \<notin> L \<and> (F (BUCKET (nat sz)) \<noteq> [] \<longrightarrow> a = hd (F (BUCKET (nat sz))))"
proof -
  define b where "b = BUCKET (nat sz)"
  have b: "b < 12" using BUCKET_law(2) [of "nat sz"] sz by (simp add: b_def)
  have inv: "heap_inv s F" using live by (simp add: heap_live_def)
  have "\<exists>s1 F1. (if b_mem (buckets s ! b) = 0 then kmalloc_refill b s else Returns s) = Returns s1
     \<and> heap_live s1 F1 L \<and> F1 b \<noteq> [] \<and> (F b \<noteq> [] \<longrightarrow> F1 = F)"
  proof (cases "F b")
    case Nil
    then have z: "b_mem (buckets s ! b) = 0" using inv b by (auto simp: heap_inv_def)
    obtain xs s' where R: "kmalloc_refill b s = Returns s'" "xs \<noteq> []" "heap_inv s' (F(b := xs))"
      "\<forall>c a. chunk_ok s c a \<longrightarrow> chunk_ok s' c a \<and> a \<notin> set xs"
      using heap_refill [OF inv b Nil] room Nil unfolding b_def by auto
    then have "heap_live s' (F(b := xs)) L" using live by (auto simp: heap_live_def split: if_splits)
    then show ?thesis using R(1,2) z Nil by (intro exI [of _ s'] exI [of _ "F(b := xs)"]) simp
  next
    case (Cons a as)
    then have "b_mem (buckets s ! b) = a" "a \<noteq> 0" using inv b by (auto simp: heap_inv_def)
    then show ?thesis using live Cons by auto
  qed
  then obtain s1 F1 where S: "(if b_mem (buckets s ! b) = 0 then kmalloc_refill b s else Returns s) = Returns s1"
    "heap_live s1 F1 L" "F1 b \<noteq> []" "F b \<noteq> [] \<longrightarrow> F1 = F" by blast
  obtain a as where a: "F1 b = a # as" using S(3) by (cases "F1 b") auto
  note P = kmalloc_pop [OF S(2) b a]
  have "(b, a) \<notin> L" using S(2) a by (auto simp: heap_live_def)
  moreover have "kmalloc_tag sz tag s = Returns (a, s1\<lparr>buckets := upd_at b (\<lambda>x. x\<lparr>b_mem := kdata s1 a\<rparr>) (buckets s1)\<rparr>)"
    using S(1) P(1) sz by (simp add: kmalloc_tag_def b_def [symmetric])
  ultimately show ?thesis using P(2) S(4) a unfolding b_def [symmetric]
    by (intro exI [of _ a]) (auto intro!: exI [of _ "F1(b := as)"])
qed

lemma kfree_dispatch:
  assumes "pframe_ok s" "pte_at s a = Some pte" "unat (BTOP pte) < unat (frameCount s)" "a \<noteq> 0"
  shows "kfree a s = (let v = frame_extra s (unat (BTOP pte)) in
     if v \<ge> 12 then kmem_free a (uint v - 12) s
     else Returns (s\<lparr>kdata := (kdata s)(a := b_mem (buckets s ! unat v)),
                     buckets := upd_at (unat v) (\<lambda>b. b\<lparr>b_mem := a\<rparr>) (buckets s)\<rparr>))"
proof -
  obtain phys where V: "kpage_virt2phys s a = Returns phys" "BTOP phys = BTOP pte"
    using virt2phys_frame [OF assms(2)] by blast
  have "unat (BTOP phys) < length (frameArray s)" using assms(1,3) V(2) by (simp add: pframe_ok_def)
  then show ?thesis using assms(4) V by (simp add: kfree_def PFRAME_GET_EXTRA_def frame_extra_def Let_def)
qed

lemma kfree_law:
  assumes live: "heap_live s F L" and a: "(b, a) \<in> L"
  shows "\<exists>s'. kfree a s = Returns s' \<and> heap_live s' (F(b := a # F b)) (L - {(b, a)})"
proof -
  have c: "chunk_ok s b a" "b < 12" "a \<notin> set (F b)" and inv: "heap_inv s F" using live a by (auto simp: heap_live_def)
  obtain pte where pte: "pte_at s a = Some pte" "unat (BTOP pte) < unat (frameCount s)" "a \<noteq> 0"
    "frame_extra s (unat (BTOP pte)) = of_nat b" using c(1) by (auto simp: chunk_ok_def)
  have pf: "pframe_ok s" using inv by (simp add: heap_inv_def kmem_ok_def)
  have "unat (of_nat b :: u8) = b" using c(2) by (simp add: unat_of_nat)
  then have nb: "\<not> (12 :: u8) \<le> of_nat b" "unat (of_nat b :: u8) = b" using c(2) by (simp_all add: word_le_nat_alt)
  define s' where "s' = s\<lparr>kdata := (kdata s)(a := b_mem (buckets s ! b)), buckets := upd_at b (\<lambda>x. x\<lparr>b_mem := a\<rparr>) (buckets s)\<rparr>"
  have "kfree a s = Returns s'" using kfree_dispatch [OF pf pte(1-3)] pte(4) nb by (simp add: s'_def Let_def)
  moreover have no: "a \<notin> set (F d)" if "d < 12" for d
  proof
    assume d: "a \<in> set (F d)"
    then have "chunk_ok s d a" using inv that by (auto simp: heap_inv_def)
    then have "b = d" using chunk_ok_bucket [OF c(1) _ _ c(2) that] by simp
    then show False using d c(3) by simp
  qed
  then have "heap_inv s' (F(b := a # F b))"
    using inv c pte(3) by (auto simp: heap_inv_def s'_def upd_at_def nth_list_update)
  ultimately show ?thesis using live by (auto simp: heap_live_def s'_def split: if_splits)
qed

section \<open>Whole pages\<close>

lemma only_pages_live:
  assumes live: "heap_live s F L" and P: "only_pages s off n s'" and ok: "kmem_ok s'" 
  shows "heap_live s' F L"
proof -
  have h: "buckets s' = buckets s" "kdata s' = kdata s" using P kheap_fields_eq [of s' s] by (simp_all add: only_pages_def)
  have z: "rmap_page (osvmap s) 0 = Some True" using live by (simp add: heap_live_def heap_inv_def)
  have z': "rmap_page (osvmap s') 0 = Some True"
  proof (cases "0 < unat off \<or> unat off + n \<le> 0")
    case True
    then show ?thesis using P z by (auto simp: only_pages_def)
  next
    case False
    then have "rmap_page (osvmap s) 0 = Some False" using P by (auto simp: only_pages_def range_is_def)
    then show ?thesis using z by simp
  qed
  have c: "chunk_ok s' b a" if "chunk_ok s b a" for b a using P that by (rule only_pages_chunk)
  have "heap_inv s' F" using live ok z' c by (simp add: heap_live_def heap_inv_def h)
  then show ?thesis using live c by (auto simp: heap_live_def)
qed

lemma unat_PAGES_int:
  assumes "0 \<le> sz" "sz < 2 ^ 31"
  shows "unat (PAGES (of_int sz)) = nat ((sz + 4095) div 4096)" "uint (PAGES (of_int sz)) = (sz + 4095) div 4096"
proof -
  have "unat (of_int sz + 4095 :: u32) = nat sz + 4095"
    using assms by (subst unat_plus_bounded) (auto simp: unat_of_int_u32)
  then show u: "unat (PAGES (of_int sz)) = nat ((sz + 4095) div 4096)"
    using assms by (simp add: PAGES_def drop_bit_eq_div unat_div nat_div_distrib)
  then show "uint (PAGES (of_int sz)) = (sz + 4095) div 4096" using assms by (simp add: uint_nat)
qed

lemma kfree_pages:
  assumes "kmem_ok s" and fs: "fs \<noteq> []" and maps: "pages_mapped (PTOB off) fs 3 (pte_at s)"
    and used: "\<forall>f\<in>set fs. f < unat (frameCount s) \<and> f \<notin> free_frames s"
    and extra: "frame_extra s (fs ! 0) = of_int (p + 12)" and p: "0 < p" "p + 12 \<le> 255" and nz: "PTOB off \<noteq> 0"
  shows "kfree (PTOB off) s = kmem_free (PTOB off) p s"
proof -
  have pf: "pframe_ok s" using assms(1) by (simp add: kmem_ok_def)
  have "pte_at s (PTOB off + PTOB (of_nat 0)) = Some (PTOB (of_nat (fs ! 0)) OR 3)"
    using maps fs unfolding pages_mapped_def by blast
  then have pte: "pte_at s (PTOB off) = Some (PTOB (of_nat (fs ! 0)) OR 3)" by (simp add: PTOB_def)
  have f: "fs ! 0 < unat (frameCount s)" "unat (frameCount s) \<le> 2 ^ 20" using used fs pf by (auto simp: pframe_ok_def)
  then have "unat (of_nat (fs ! 0) :: u32) = fs ! 0" by (simp add: unat_of_nat_u32)
  then have B: "unat (BTOP (PTOB (of_nat (fs ! 0)) OR 3)) = fs ! 0" using BTOP_pte [of "of_nat (fs ! 0)"] f by simp
  have v: "uint (of_int (p + 12) :: u8) = p + 12" using p by (simp add: uint_word_of_int del: of_int_add)
  then have "(12 :: u8) \<le> of_int (p + 12)" using p(1) unfolding word_le_def by simp
  then show ?thesis using kfree_dispatch [OF pf pte _ nz] f(1) extra v unfolding B by (simp add: Let_def del: of_int_add)
qed

lemma kmalloc_large_law:
  assumes live: "heap_live s F L" and sz: "2048 < sz" "sz \<le> 243 * 4096"
    and room: "kmem_room (nat ((sz + 4095) div 4096)) s"
  shows "\<exists>off s1. kmalloc sz s = Returns (PTOB off, s1) \<and> heap_live s1 F L \<and> only_pages s off (nat ((sz + 4095) div 4096)) s1
     \<and> (\<forall>i < nat ((sz + 4095) div 4096). \<exists>f. pte_at s1 (PTOB off + PTOB (of_nat i)) = Some (PTOB (of_nat f) OR 3))
     \<and> (2 \<le> rmap_spare (osvmap s1) \<longrightarrow> (\<exists>s2. kfree (PTOB off) s1 = Returns s2 \<and> heap_live s2 F L
          \<and> rmap_page (osvmap s2) = rmap_page (osvmap s)
          \<and> (\<forall>i < nat ((sz + 4095) div 4096). pte_at s2 (PTOB off + PTOB (of_nat i)) = Some 0)))"
proof -
  define p where "p = (sz + 4095) div 4096"
  have p: "0 < p" "p \<le> 0x100000" "p + 12 \<le> 255" using sz by (auto simp: p_def)
  have pg: "uint (PAGES (of_int sz)) = p" using unat_PAGES_int(2) [of sz] sz by (simp add: p_def)
  have ok: "kmem_ok s" using live by (simp add: heap_live_def heap_inv_def)
  obtain off fs s0 s1 phys where N: "kmem_alloc p PFT_HEAP s = Returns (PTOB off, s0)"
     "kpage_virt2phys s0 (PTOB off) = Returns phys" "PFRAME_SET_EXTRA (unat (BTOP phys)) (of_int (p + 12)) s0 = Returns s1"
     "only_pages s off (nat p) s1" "kmem_ok s1"
     "rmap_page (osvmap s1) = range_set (rmap_page (osvmap s)) (unat off) (nat p) True"
     "length fs = nat p" "distinct fs" "set fs \<subseteq> free_frames s"
     "\<forall>f\<in>set fs. f < unat (frameCount s1) \<and> f \<notin> free_frames s1"
     "frame_extra s1 (fs ! 0) = of_int (p + 12)" "pages_mapped (PTOB off) fs 3 (pte_at s1)"
    using new_pages [OF ok p(1,2), of PFT_HEAP "of_int (p + 12)"] room [folded p_def] by auto
  have M: "kmalloc sz s = Returns (PTOB off, s1)"
    using N(1-3) p(3) sz by (simp add: kmalloc_def kmalloc_tag_def pg)
  have L1: "heap_live s1 F L" using live N(4,5) by (rule only_pages_live)
  have maps: "\<exists>f. pte_at s1 (PTOB off + PTOB (of_nat i)) = Some (PTOB (of_nat f) OR 3)" if "i < nat p" for i
    using N(7,12) that by (auto simp: pages_mapped_def)
  have F: "\<exists>s2. kfree (PTOB off) s1 = Returns s2 \<and> heap_live s2 F L \<and> rmap_page (osvmap s2) = rmap_page (osvmap s)
          \<and> (\<forall>i < nat p. pte_at s2 (PTOB off + PTOB (of_nat i)) = Some 0)" if sp: "2 \<le> rmap_spare (osvmap s1)"
  proof -
    note P = N(4) [unfolded only_pages_def]
    have fs: "fs \<noteq> []" and n: "int (length fs) = p" using N(7) p(1) by auto
    have range: "unat off + length fs \<le> 1048576" using P N(7) by simp
    obtain s2 where S: "kmem_free (PTOB off) p s1 = Returns s2" "kmem_ok s2" "extras_kept s1 s2"
      "free_frames s2 = free_frames s1 \<union> set fs" "pte_at s2 = pages_cleared (PTOB off) (length fs) (pte_at s1)"
      "rmap_page (osvmap s2) = range_set (rmap_page (osvmap s1)) (unat off) (length fs) False" "kmem.more s2 = kmem.more s1"
      using kmem_free_law [OF N(5) fs N(8) range N(12) _ N(10) _ sp] N(6,7) unfolding n by (auto simp: PT_PFNMASK_def)
    have rm: "rmap_page (osvmap s2) = rmap_page (osvmap s)"
      using S(6) P N(6,7) by (simp add: range_set_same)
    have la: "unat (frameCount s1) < length (frameArray s1)" using N(5) by (simp add: kmem_ok_def pframe_ok_def)
    have "only_pages s off (nat p) s2"
      using P S(3,4,7) N(9) rm la N(7)
      by (auto simp: only_pages_def S(5) others_kept_def pages_cleared_def extras_kept_def)
    then have "heap_live s2 F L" using live S(2) by (auto intro: only_pages_live)
    moreover have "kfree (PTOB off) s1 = kmem_free (PTOB off) p s1"
    proof -
      have "rmap_page (osvmap s) (unat off) = Some False" using P p(1) by (auto simp: range_is_def)
      moreover have "rmap_page (osvmap s) 0 = Some True" using live by (simp add: heap_live_def heap_inv_def)
      ultimately have "unat off \<noteq> 0" by (metis option.inject)
      then have "unat (PTOB off) \<noteq> 0" using range fs by (cases fs) (auto simp: unat_PTOB)
      then have nz: "PTOB off \<noteq> 0" by auto
      show ?thesis using N(5) fs N(12,10,11) p(1,3) nz by (rule kfree_pages)
    qed
    ultimately show ?thesis using S(1,5) rm N(7) by (auto simp: pages_cleared_def)
  qed
  show ?thesis unfolding p_def [symmetric] using M L1 N(4) maps F by blast
qed

lemma kheap_example_live: "heap_live kheap_example (\<lambda>_. []) {}" "kmem_room 1 kheap_example"
proof -
  have e: "free_frames kheap_example = free_frames kmem_example" "pframe_ok kheap_example = pframe_ok kmem_example"
    "osvmap kheap_example = rmap_example" "osvmap kmem_example = rmap_example" "freeCount kheap_example = freeCount kmem_example"
    by (simp_all add: kheap_example_def kmem_example_def kmem.defs kheap.defs free_frames_def pframe_ok_def frame_tag_def)
  have b: "length (buckets kheap_example) = 12"
    "\<forall>b<12. buckets kheap_example ! b = \<lparr>b_mem = 0, b_elems = 0, b_pages = 0, b_size = 2 ^ b\<rparr>"
    by (simp_all add: kheap_example_def kmem.defs kheap.defs kmem_example_def)
  have "kmem_ok kheap_example" using kmem_example_ok(1) by (simp add: kmem_ok_def e)
  then show "heap_live kheap_example (\<lambda>_. []) {}"
    using b by (simp add: heap_live_def heap_inv_def e rmap_example_page)
  show "kmem_room 1 kheap_example" using kmem_example_ok(2) by (simp add: kmem_room_def e)
qed

text \<open>
  C8. A heap request of up to half a page returns a chunk of the smallest bucket it fits, aligned
  to the chunk size, that shares no byte with any chunk in use, and leaves the heap well-formed
  with this chunk in use as well. It needs a free chunk in the bucket or room for one more page.
\<close>

theorem kmalloc_correct:
  assumes "heap_live s F L" and "1 \<le> sz" and "sz \<le> 2048" and "F (BUCKET (nat sz)) \<noteq> [] \<or> kmem_room 1 s"
  shows "\<exists>a s' F'. kmalloc sz s = Returns (a, s') \<and> heap_live s' F' (insert (BUCKET (nat sz), a) L)
     \<and> nat sz \<le> 2 ^ BUCKET (nat sz) \<and> (BUCKET (nat sz) = 4 \<or> 2 ^ (BUCKET (nat sz) - 1) < nat sz)
     \<and> 2 ^ BUCKET (nat sz) dvd unat a
     \<and> (\<forall>c\<in>L. chunk_bytes (BUCKET (nat sz), a) \<inter> chunk_bytes c = {})"
proof -
  let ?b = "BUCKET (nat sz)"
  obtain a s' F' where K: "kmalloc sz s = Returns (a, s')" "heap_live s' F' (insert (?b, a) L)" "(?b, a) \<notin> L"
    using kmalloc_small_law [OF assms, of 0] unfolding kmalloc_def by blast
  have ok: "d < 12 \<and> chunk_ok s' d x" if "(d, x) \<in> insert (?b, a) L" for d x
    using K(2) that by (auto simp: heap_live_def)
  have "chunk_bytes (?b, a) \<inter> chunk_bytes c = {}" if "c \<in> L" for c
    using chunks_disjoint [of s' ?b a "fst c" "snd c"] ok [of ?b a] ok [of "fst c" "snd c"] that K(3) by auto
  moreover have "2 ^ ?b dvd unat a" using ok [of ?b a] by (simp add: chunk_ok_def)
  ultimately show ?thesis using K(1,2) BUCKET_law(3,4) [of "nat sz"] assms(2,3) by auto
qed

theorem kmalloc_correct_witness:
  "\<exists>a s' F'. kmalloc 100 kheap_example = Returns (a, s') \<and> heap_live s' F' {(BUCKET 100, a)}"
  using kmalloc_correct [OF kheap_example_live(1), of 100] kheap_example_live(2) by auto

text \<open>
  C11. Freeing a chunk in use puts it at the head of the free list of its own bucket, found from
  the page frame alone, and keeps the heap well-formed; the next request for that bucket
  returns the same chunk.
\<close>

theorem kfree_correct:
  assumes "heap_live s F L" and "(b, a) \<in> L"
  shows "\<exists>s'. kfree a s = Returns s' \<and> heap_live s' (F(b := a # F b)) (L - {(b, a)})
     \<and> (\<forall>sz. 1 \<le> sz \<and> sz \<le> 2048 \<and> BUCKET (nat sz) = b \<longrightarrow> (\<exists>s''. kmalloc sz s' = Returns (a, s'')))"
proof -
  obtain s' where K: "kfree a s = Returns s'" "heap_live s' (F(b := a # F b)) (L - {(b, a)})"
    using kfree_law [OF assms] by blast
  have "\<exists>s''. kmalloc sz s' = Returns (a, s'')" if "1 \<le> sz" "sz \<le> 2048" "BUCKET (nat sz) = b" for sz
    using kmalloc_small_law [OF K(2) that(1,2), of 0] that(3) by (auto simp: kmalloc_def)
  then show ?thesis using K by blast
qed

theorem kfree_correct_witness:
  "\<exists>a s' s''. kmalloc 100 kheap_example = Returns (a, s') \<and> kfree a s' = Returns s''
     \<and> (\<exists>s. kmalloc 100 s'' = Returns (a, s))"
proof -
  obtain a s' F' where K: "kmalloc 100 kheap_example = Returns (a, s')" "heap_live s' F' {(BUCKET 100, a)}"
    using kmalloc_small_law [OF kheap_example_live(1), of 100 0] kheap_example_live(2) by (auto simp: kmalloc_def)
  then obtain s'' where "kfree a s' = Returns s''"
    "\<forall>sz. 1 \<le> sz \<and> sz \<le> 2048 \<and> BUCKET (nat sz) = BUCKET 100 \<longrightarrow> (\<exists>s. kmalloc sz s'' = Returns (a, s))"
    using kfree_correct [OF K(2), of "BUCKET 100" a] by auto
  then show ?thesis using K(1) by (intro exI [of _ a] exI [of _ s'] exI [of _ s'']) auto
qed

text \<open>
  C13. A request of more than half a page and at most 243 pages gets whole pages at a page address,
  mapped writable, and touches neither the chunks in use nor the free chunks. Freeing it
  unmaps all its pages and gives back the address range.
\<close>

theorem kmalloc_large_roundtrip:
  assumes "heap_live s F L" and "2048 < sz" and "sz \<le> 243 * 4096" and "kmem_room (nat ((sz + 4095) div 4096)) s"
  shows "\<exists>off s1. kmalloc sz s = Returns (PTOB off, s1) \<and> heap_live s1 F L \<and> only_pages s off (nat ((sz + 4095) div 4096)) s1
     \<and> (\<forall>i < nat ((sz + 4095) div 4096). \<exists>f. pte_at s1 (PTOB off + PTOB (of_nat i)) = Some (PTOB (of_nat f) OR 3))
     \<and> (2 \<le> rmap_spare (osvmap s1) \<longrightarrow> (\<exists>s2. kfree (PTOB off) s1 = Returns s2 \<and> heap_live s2 F L
          \<and> rmap_page (osvmap s2) = rmap_page (osvmap s)
          \<and> (\<forall>i < nat ((sz + 4095) div 4096). pte_at s2 (PTOB off + PTOB (of_nat i)) = Some 0)))"
  using assms by (rule kmalloc_large_law)

theorem kmalloc_large_roundtrip_witness:
  "\<exists>off s1 s2. kmalloc 3000 kheap_example = Returns (PTOB off, s1) \<and> kfree (PTOB off) s1 = Returns s2
     \<and> rmap_page (osvmap s2) = rmap_page (osvmap kheap_example)"
proof -
  obtain off s1 where K: "kmalloc 3000 kheap_example = Returns (PTOB off, s1)"
    "2 \<le> rmap_spare (osvmap s1) \<longrightarrow> (\<exists>s2. kfree (PTOB off) s1 = Returns s2
       \<and> rmap_page (osvmap s2) = rmap_page (osvmap kheap_example))"
    using kmalloc_large_roundtrip [OF kheap_example_live(1), of 3000] kheap_example_live(2) by auto
  have "case kmalloc 3000 kheap_example of Returns (addr, s1) \<Rightarrow> 2 \<le> rmap_spare (osvmap s1) | _ \<Rightarrow> False"
    by code_simp
  then have "2 \<le> rmap_spare (osvmap s1)" using K(1) by simp
  then show ?thesis using K by blast
qed

end
