(* ===== verification/Dpc.thy ===== *)
theory Dpc
  imports Linked Kmalloc
begin

text \<open>
  Deferred procedure calls, the part of \<^verbatim>\<open>src/src/sys/kernel/sched.c\<close> that interrupt handlers use to
  have work done later: a queue of \<^verbatim>\<open>struct dpc\<close>, linked through the structures, and the loop that
  executes it. A procedure is a number; what calling it does to the system is a parameter.
\<close>

section \<open>Data\<close>

record dpc =
  d_proc :: "nat option"
  d_arg :: nat
  d_next :: "nat option"
  d_flags :: u32

record dpc_state = kheap +
  dpcs :: "nat \<Rightarrow> dpc"
  dpc_queue_head :: "nat option"
  dpc_queue_tail :: "nat option"
  in_dpc :: bool
  dpc_lost :: u32
  dpc_total :: u32

abbreviation (input) DPC_QUEUED :: u32 where "DPC_QUEUED \<equiv> 1"
abbreviation (input) DPC_EXECUTING :: u32 where "DPC_EXECUTING \<equiv> 2"

section \<open>Operations\<close>

definition upd_dpc :: "nat \<Rightarrow> (dpc \<Rightarrow> dpc) \<Rightarrow> 'a dpc_state_scheme \<Rightarrow> 'a dpc_state_scheme" where
  "upd_dpc d f s = s\<lparr>dpcs := (dpcs s)(d := f (dpcs s d))\<rparr>"

definition kdpc_create :: "nat \<Rightarrow> 'a dpc_state_scheme \<Rightarrow> 'a dpc_state_scheme" where
  "kdpc_create d s = upd_dpc d (\<lambda>x. x\<lparr>d_proc := None, d_arg := 0, d_next := None, d_flags := 0\<rparr>) s"

text \<open>The name of the procedure, which \<^verbatim>\<open>kdpc_queue_irq\<close> also stores, is for messages only.\<close>

definition kdpc_queue_irq :: "nat \<Rightarrow> nat \<Rightarrow> nat \<Rightarrow> 'a dpc_state_scheme \<Rightarrow> 'a dpc_state_scheme" where
  "kdpc_queue_irq d proc arg s =
     (if d_flags (dpcs s d) AND DPC_QUEUED \<noteq> 0 then s\<lparr>dpc_lost := dpc_lost s + 1\<rparr>
      else
        let s = upd_dpc d (\<lambda>x. x\<lparr>d_proc := Some proc, d_arg := arg, d_next := None\<rparr>) s;
            s = (case dpc_queue_tail s of None \<Rightarrow> s | Some t \<Rightarrow> upd_dpc t (\<lambda>x. x\<lparr>d_next := Some d\<rparr>) s);
            s = s\<lparr>dpc_queue_tail := Some d\<rparr>;
            s = (if dpc_queue_head s = None then s\<lparr>dpc_queue_head := Some d\<rparr> else s)
        in upd_dpc d (\<lambda>x. x\<lparr>d_flags := d_flags x OR DPC_QUEUED\<rparr>) s)"

text \<open>Interrupts are off while the queue is changed, so an operation is one step.\<close>

definition kdpc_queue :: "nat \<Rightarrow> nat \<Rightarrow> nat \<Rightarrow> 'a dpc_state_scheme \<Rightarrow> 'a dpc_state_scheme" where
  "kdpc_queue d proc arg s = kdpc_queue_irq d proc arg s"

definition kdpc_get_next :: "'a dpc_state_scheme \<Rightarrow> nat option \<times> 'a dpc_state_scheme" where
  "kdpc_get_next s =
     (case dpc_queue_head s of
        None \<Rightarrow> (None, s)
      | Some d \<Rightarrow>
          let s = s\<lparr>dpc_queue_head := d_next (dpcs s d)\<rparr>
          in (Some d, if dpc_queue_tail s = Some d then s\<lparr>dpc_queue_tail := None\<rparr> else s))"

text \<open>
  One round of the loop of \<^verbatim>\<open>kdpc_dispatch_queue\<close>: execute the deferred call \<open>d\<close>. A NULL procedure
  is a fault.
\<close>

definition kdpc_execute ::
    "(nat \<Rightarrow> nat \<Rightarrow> 'a dpc_state_scheme \<Rightarrow> 'a dpc_state_scheme outcome) \<Rightarrow> nat
     \<Rightarrow> 'a dpc_state_scheme \<Rightarrow> 'a dpc_state_scheme outcome" where
  "kdpc_execute call d s =
     (let proc = d_proc (dpcs s d); arg = d_arg (dpcs s d);
          s = upd_dpc d (\<lambda>x. x\<lparr>d_flags := d_flags x AND NOT DPC_QUEUED\<rparr>) s in
      if d_flags (dpcs s d) AND DPC_EXECUTING = 0 then
        let s = upd_dpc d (\<lambda>x. x\<lparr>d_flags := d_flags x OR DPC_EXECUTING\<rparr>) s in
        case proc of
          None \<Rightarrow> Faults
        | Some p \<Rightarrow>
            bind_outcome (call p arg s) (\<lambda>s.
            let s = upd_dpc d (\<lambda>x. x\<lparr>d_flags := d_flags x AND NOT DPC_EXECUTING\<rparr>) s in
            Returns (s\<lparr>dpc_total := dpc_total s + 1\<rparr>))
      else Returns s)"

text \<open>The loop may run forever when the procedures keep queueing calls: \<open>None\<close> then.\<close>

partial_function (option) kdpc_dispatch_loop ::
    "(nat \<Rightarrow> nat \<Rightarrow> 'a dpc_state_scheme \<Rightarrow> 'a dpc_state_scheme outcome)
     \<Rightarrow> 'a dpc_state_scheme \<Rightarrow> 'a dpc_state_scheme outcome option" where
  "kdpc_dispatch_loop call s =
     (case kdpc_get_next s of
        (None, s) \<Rightarrow> Some (Returns s)
      | (Some d, s) \<Rightarrow>
          (case kdpc_execute call d s of
             Returns s \<Rightarrow> kdpc_dispatch_loop call s
           | Panics m \<Rightarrow> Some (Panics m)
           | Diverges \<Rightarrow> Some Diverges
           | Faults \<Rightarrow> Some Faults))"

declare kdpc_dispatch_loop.simps [code]

definition kdpc_dispatch_queue ::
    "(nat \<Rightarrow> nat \<Rightarrow> 'a dpc_state_scheme \<Rightarrow> 'a dpc_state_scheme outcome)
     \<Rightarrow> 'a dpc_state_scheme \<Rightarrow> 'a dpc_state_scheme outcome" where
  "kdpc_dispatch_queue call s =
     (if in_dpc s then Panics ''sched: nested execution of dpc queue''
      else
        case kdpc_dispatch_loop call (s\<lparr>in_dpc := True\<rparr>) of
          None \<Rightarrow> Diverges
        | Some r \<Rightarrow> bind_outcome r (\<lambda>s. Returns (s\<lparr>in_dpc := False\<rparr>)))"

definition kdpc_check_queue ::
    "(nat \<Rightarrow> nat \<Rightarrow> 'a dpc_state_scheme \<Rightarrow> 'a dpc_state_scheme outcome)
     \<Rightarrow> 'a dpc_state_scheme \<Rightarrow> 'a dpc_state_scheme outcome" where
  "kdpc_check_queue call s =
     (if dpc_queue_head s \<noteq> None then kdpc_dispatch_queue call s else Returns s)"

section \<open>Notions\<close>

text \<open>The queue holds the deferred calls \<open>q\<close>, and they are marked as queued.\<close>

definition dpc_content :: "'a dpc_state_scheme \<Rightarrow> nat list \<Rightarrow> bool" where
  "dpc_content s q \<longleftrightarrow> sll (d_next \<circ> dpcs s) (dpc_queue_head s) (dpc_queue_tail s) q
     \<and> (\<forall>d\<in>set q. d_flags (dpcs s d) AND DPC_QUEUED \<noteq> 0)"

definition dpc_idle :: "'a dpc_state_scheme \<Rightarrow> nat \<Rightarrow> bool" where
  "dpc_idle s d \<longleftrightarrow> d_flags (dpcs s d) AND DPC_QUEUED = 0"

text \<open>The deferred calls \<open>q\<close> with what they are to call, none of them executing.\<close>

definition dpc_waiting :: "'a dpc_state_scheme \<Rightarrow> nat list \<Rightarrow> (nat \<Rightarrow> nat) \<Rightarrow> (nat \<Rightarrow> nat) \<Rightarrow> bool" where
  "dpc_waiting s q pf af \<longleftrightarrow> (\<forall>d\<in>set q. d_proc (dpcs s d) = Some (pf d) \<and> d_arg (dpcs s d) = af d
     \<and> d_flags (dpcs s d) AND DPC_EXECUTING = 0)"

text \<open>A procedure that leaves the queue alone and does \<open>f\<close> to the rest of the system.\<close>

definition acts_as :: "(nat \<Rightarrow> nat \<Rightarrow> 'a dpc_state_scheme \<Rightarrow> 'a dpc_state_scheme outcome) \<Rightarrow> (nat \<Rightarrow> nat \<Rightarrow> 'a \<Rightarrow> 'a) \<Rightarrow> bool" where
  "acts_as call f \<longleftrightarrow> (\<forall>p a s. \<exists>s'. call p a s = Returns s' \<and> dpc_state.truncate s' = dpc_state.truncate s
     \<and> dpc_state.more s' = f p a (dpc_state.more s))"

definition dpc_example :: "nat list dpc_state_scheme" where
  "dpc_example = dpc_state.extend (kheap.extend kheap_example
     (dpc_state.fields (\<lambda>_. \<lparr>d_proc = None, d_arg = 0, d_next = None, d_flags = 0\<rparr>) None None False 0 0)) []"

definition dpc_log :: "nat \<Rightarrow> nat \<Rightarrow> nat list dpc_state_scheme \<Rightarrow> nat list dpc_state_scheme outcome" where
  "dpc_log p a s = Returns (dpc_state.extend (dpc_state.truncate s) (dpc_state.more s @ [a]))"

section \<open>The queue\<close>

lemma upd_dpc_simps [simp]:
  "dpcs (upd_dpc d f s) = (dpcs s)(d := f (dpcs s d))" "dpc_queue_head (upd_dpc d f s) = dpc_queue_head s"
  "dpc_queue_tail (upd_dpc d f s) = dpc_queue_tail s" "in_dpc (upd_dpc d f s) = in_dpc s"
  "dpc_total (upd_dpc d f s) = dpc_total s" "dpc_lost (upd_dpc d f s) = dpc_lost s"
  "dpc_state.more (upd_dpc d f s) = dpc_state.more s"
  by (simp_all add: upd_dpc_def)

lemma dpc_bits:
  fixes x :: u32
  shows "(x OR 1) AND 1 = 1" "(x OR 1) AND 2 = x AND 2" "(x AND NOT 1) AND 2 = x AND 2" "(x AND NOT 1) AND 1 = 0"
    "((x OR 2) AND NOT 2) AND 1 = x AND 1" "((x OR 2) AND NOT 2) AND 2 = 0"
  by (rule bit_word_eqI; auto simp: bit_simps)+

lemmas dpc_bits_simps [simp] = dpc_bits [simplified]

lemma kdpc_queue_law:
  assumes c: "dpc_content s q" and i: "dpc_idle s d"
  shows "dpc_content (kdpc_queue d p a s) (q @ [d])"
    "dpcs (kdpc_queue d p a s) d = \<lparr>d_proc = Some p, d_arg = a, d_next = None, d_flags = d_flags (dpcs s d) OR 1\<rparr>"
    "e \<noteq> d \<Longrightarrow> dpcs (kdpc_queue d p a s) e = (dpcs s e)\<lparr>d_next := d_next (dpcs (kdpc_queue d p a s) e)\<rparr>"
proof -
  have d: "d \<notin> set q" using c i by (auto simp: dpc_content_def dpc_idle_def)
  have t: "dpc_queue_tail s \<noteq> Some d" using c d final_in [of q d] by (auto simp: dpc_content_def sll_def)
  let ?s = "kdpc_queue d p a s"
  have nx: "d_next \<circ> dpcs ?s = put (dpc_queue_tail s) (Some d) ((d_next \<circ> dpcs s)(d := None))"
    using t i by (cases "dpc_queue_tail s"; cases "dpc_queue_head s")
      (auto simp: kdpc_queue_def kdpc_queue_irq_def dpc_idle_def Let_def)
  have ht: "dpc_queue_head ?s = (if dpc_queue_head s = None then Some d else dpc_queue_head s)" "dpc_queue_tail ?s = Some d"
    using i by (cases "dpc_queue_tail s"; simp add: kdpc_queue_def kdpc_queue_irq_def dpc_idle_def Let_def)+
  show dd: "dpcs ?s d = \<lparr>d_proc = Some p, d_arg = a, d_next = None, d_flags = d_flags (dpcs s d) OR 1\<rparr>"
    using t i by (cases "dpc_queue_tail s"; cases "dpc_queue_head s")
      (auto simp: kdpc_queue_def kdpc_queue_irq_def dpc_idle_def Let_def)
  show ee: "e \<noteq> d \<Longrightarrow> dpcs ?s e = (dpcs s e)\<lparr>d_next := d_next (dpcs ?s e)\<rparr>" for e
    using t i by (cases "dpc_queue_tail s"; cases "dpc_queue_head s")
      (auto simp: kdpc_queue_def kdpc_queue_irq_def dpc_idle_def Let_def)
  have fl: "d_flags (dpcs ?s e) = d_flags (dpcs s e)" if "e \<noteq> d" for e using ee [OF that] by (metis dpc.select_convs(4) dpc.surjective dpc.update_convs(3))
  have "\<forall>e\<in>set q. d_flags (dpcs ?s e) AND 1 \<noteq> 0" using c d fl by (metis dpc_content_def)
  then show "dpc_content ?s (q @ [d])"
    using c sll_push_back [OF _ d] dd unfolding dpc_content_def nx ht by auto
qed

lemma kdpc_get_next_law:
  assumes "dpc_content s (d # q)"
  shows "\<exists>s'. kdpc_get_next s = (Some d, s') \<and> dpc_content s' q \<and> dpcs s' = dpcs s \<and> in_dpc s' = in_dpc s
     \<and> dpc_total s' = dpc_total s \<and> dpc_state.more s' = dpc_state.more s \<and> d \<notin> set q"
proof -
  have s: "sll (d_next \<circ> dpcs s) (dpc_queue_head s) (dpc_queue_tail s) (d # q)" using assms by (simp add: dpc_content_def)
  note P = sll_pop [OF s]
  have "d \<notin> set q" using s by (simp add: sll_def)
  then show ?thesis using P assms by (auto simp: kdpc_get_next_def dpc_content_def Let_def split: if_splits)
qed

interpretation dq: fifo dpc_content dpc_idle "\<lambda>d. kdpc_queue d (pf d) (af d)" kdpc_get_next for pf af
proof unfold_locales
  show "dpc_content s q \<Longrightarrow> dpc_idle s x \<Longrightarrow> dpc_content (kdpc_queue x (pf x) (af x) s) (q @ [x])" for s q x
    by (rule kdpc_queue_law)
  show "dpc_idle s y \<Longrightarrow> x \<noteq> y \<Longrightarrow> dpc_idle (kdpc_queue x (pf x) (af x) s) y" for s x y
    by (cases "dpc_queue_tail s"; cases "dpc_queue_head s") (auto simp: dpc_idle_def kdpc_queue_def kdpc_queue_irq_def Let_def)
  show "dpc_content s [] \<Longrightarrow> kdpc_get_next s = (None, s)" for s
    by (simp add: dpc_content_def kdpc_get_next_def)
  show "dpc_content s (x # q) \<Longrightarrow> fst (kdpc_get_next s) = Some x \<and> dpc_content (snd (kdpc_get_next s)) q" for s x q
    using kdpc_get_next_law by fastforce
qed

section \<open>Dispatching\<close>

lemma dpc_truncate_eq:
  assumes "dpc_state.truncate s' = dpc_state.truncate s"
  shows "dpcs s' = dpcs s" "dpc_queue_head s' = dpc_queue_head s" "dpc_queue_tail s' = dpc_queue_tail s"
    "in_dpc s' = in_dpc s" "dpc_total s' = dpc_total s"
  using assms by (simp_all add: dpc_state.defs)

lemma kdpc_execute_law:
  assumes call: "acts_as call f" and c: "dpc_content s q" "d \<notin> set q" and w: "dpc_waiting s (d # q) pf af"
  shows "\<exists>s'. kdpc_execute call d s = Returns s' \<and> dpc_content s' q \<and> dpc_waiting s' q pf af \<and> dpc_idle s' d
     \<and> dpc_state.more s' = f (pf d) (af d) (dpc_state.more s) \<and> dpc_total s' = dpc_total s + 1 \<and> in_dpc s' = in_dpc s
     \<and> (\<forall>e. e \<noteq> d \<longrightarrow> dpcs s' e = dpcs s e)"
proof -
  let ?s = "upd_dpc d (\<lambda>x. x\<lparr>d_flags := d_flags x OR DPC_EXECUTING\<rparr>) (upd_dpc d (\<lambda>x. x\<lparr>d_flags := d_flags x AND NOT DPC_QUEUED\<rparr>) s)"
  obtain s1 where S: "call (pf d) (af d) ?s = Returns s1" "dpc_state.truncate s1 = dpc_state.truncate ?s"
    "dpc_state.more s1 = f (pf d) (af d) (dpc_state.more ?s)"
    using call unfolding acts_as_def by blast
  note T = dpc_truncate_eq [OF S(2)]
  have nx: "d_next \<circ> (dpcs s)(d := (dpcs s d)\<lparr>d_flags := v\<rparr>) = d_next \<circ> dpcs s" for v by (auto simp: comp_upd)
  show ?thesis
    using S(1,3) c w by (auto simp: kdpc_execute_def Let_def T dpc_waiting_def dpc_content_def dpc_idle_def nx)
qed

lemma kdpc_loop_law:
  assumes call: "acts_as call f"
  shows "dpc_content s q \<Longrightarrow> dpc_waiting s q pf af \<Longrightarrow>
     \<exists>s'. kdpc_dispatch_loop call s = Some (Returns s') \<and> dpc_content s' [] \<and> (\<forall>d\<in>set q. dpc_idle s' d)
     \<and> dpc_state.more s' = fold (\<lambda>d. f (pf d) (af d)) q (dpc_state.more s)
     \<and> dpc_total s' = dpc_total s + of_nat (length q) \<and> (\<forall>e. e \<notin> set q \<longrightarrow> dpcs s' e = dpcs s e)"
proof (induction q arbitrary: s)
  case Nil
  then show ?case by (auto simp: kdpc_dispatch_loop.simps [of call s] kdpc_get_next_def dpc_content_def)
next
  case (Cons d q)
  obtain s1 where G: "kdpc_get_next s = (Some d, s1)" "dpc_content s1 q" "dpcs s1 = dpcs s" "dpc_total s1 = dpc_total s"
    "dpc_state.more s1 = dpc_state.more s" "d \<notin> set q"
    using kdpc_get_next_law [OF Cons.prems(1)] by blast
  have w: "dpc_waiting s1 (d # q) pf af" using Cons.prems(2) G(3) by (simp add: dpc_waiting_def)
  obtain s2 where E: "kdpc_execute call d s1 = Returns s2" "dpc_content s2 q" "dpc_waiting s2 q pf af" "dpc_idle s2 d"
    "dpc_state.more s2 = f (pf d) (af d) (dpc_state.more s1)" "dpc_total s2 = dpc_total s1 + 1"
    "\<forall>e. e \<noteq> d \<longrightarrow> dpcs s2 e = dpcs s1 e"
    using kdpc_execute_law [OF call G(2,6) w] by blast
  obtain s3 where L: "kdpc_dispatch_loop call s2 = Some (Returns s3)" "dpc_content s3 []" "\<forall>d\<in>set q. dpc_idle s3 d"
     "dpc_state.more s3 = fold (\<lambda>d. f (pf d) (af d)) q (dpc_state.more s2)"
     "dpc_total s3 = dpc_total s2 + of_nat (length q)" "\<forall>e. e \<notin> set q \<longrightarrow> dpcs s3 e = dpcs s2 e"
    using Cons.IH [OF E(2,3)] by blast
  have "dpc_idle s3 d" using E(4) L(6) G(6) by (simp add: dpc_idle_def)
  then show ?case using G E L by (auto simp: kdpc_dispatch_loop.simps [of call s])
qed

lemma kdpc_queue_rest:
  "dpc_state.more (kdpc_queue d p a s) = dpc_state.more s" "dpc_total (kdpc_queue d p a s) = dpc_total s"
  "in_dpc (kdpc_queue d p a s) = in_dpc s"
  by (cases "dpc_queue_tail s"; cases "dpc_queue_head s"; simp add: kdpc_queue_def kdpc_queue_irq_def Let_def)+

lemma kdpc_queue_others:
  assumes "dpc_content s q" "dpc_idle s d" "e \<noteq> d"
  shows "d_flags (dpcs (kdpc_queue d p a s) e) = d_flags (dpcs s e)" "d_proc (dpcs (kdpc_queue d p a s) e) = d_proc (dpcs s e)"
    "d_arg (dpcs (kdpc_queue d p a s) e) = d_arg (dpcs s e)"
  using kdpc_queue_law(3) [OF assms, of p a] by (metis dpc.select_convs dpc.surjective dpc.update_convs(3))+

lemma kdpc_queue_all:
  fixes s :: "'a dpc_state_scheme"
  assumes c: "dpc_content s []" and "distinct ds" and fl: "\<forall>d\<in>set ds. d_flags (dpcs s d) = 0"
  shows "let s' = fold (\<lambda>d. kdpc_queue d (pf d) (af d)) ds s in
     dpc_content s' ds \<and> dpc_waiting s' ds pf af \<and> (\<forall>e. e \<notin> set ds \<longrightarrow> d_flags (dpcs s' e) = d_flags (dpcs s e))
     \<and> dpc_state.more s' = dpc_state.more s \<and> dpc_total s' = dpc_total s \<and> in_dpc s' = in_dpc s"
  using assms(2) fl
proof (induction ds rule: rev_induct)
  case Nil
  show ?case using c by (simp add: dpc_waiting_def)
next
  case (snoc d ds)
  define s1 where "s1 = fold (\<lambda>d. kdpc_queue d (pf d) (af d)) ds s"
  have S: "dpc_content s1 ds" "dpc_waiting s1 ds pf af" "\<forall>e. e \<notin> set ds \<longrightarrow> d_flags (dpcs s1 e) = d_flags (dpcs s e)"
    "dpc_state.more s1 = dpc_state.more s" "dpc_total s1 = dpc_total s" "in_dpc s1 = in_dpc s"
    using snoc by (simp_all add: s1_def Let_def)
  have i: "dpc_idle s1 d" "d \<notin> set ds" "d_flags (dpcs s1 d) = 0" using S(3) snoc.prems by (simp_all add: dpc_idle_def)
  note O = kdpc_queue_others [OF S(1) i(1), of _ "pf d" "af d"]
  have "dpc_waiting (kdpc_queue d (pf d) (af d) s1) (ds @ [d]) pf af"
    unfolding dpc_waiting_def
  proof
    fix e assume e: "e \<in> set (ds @ [d])"
    show "d_proc (dpcs (kdpc_queue d (pf d) (af d) s1) e) = Some (pf e) \<and> d_arg (dpcs (kdpc_queue d (pf d) (af d) s1) e) = af e
        \<and> d_flags (dpcs (kdpc_queue d (pf d) (af d) s1) e) AND DPC_EXECUTING = 0"
    proof (cases "e = d")
      case True
      then show ?thesis using i kdpc_queue_law(2) [OF S(1) i(1), of "pf d" "af d"] by simp
    next
      case False
      then show ?thesis using O [OF False] S(2) e by (simp add: dpc_waiting_def)
    qed
  qed
  then show ?case
    using kdpc_queue_law(1) [OF S(1) i(1), of "pf d" "af d"] O(1) S(3-6)
    by (simp add: s1_def [symmetric] kdpc_queue_rest Let_def)
qed

text \<open>
  C22. Deferred calls that are queued one after the other, each once, are executed in exactly that
  order, each exactly once, by the next dispatch, which ends with an empty queue and every
  call free to be queued again. The procedures are assumed not to touch the queue themselves.
\<close>

theorem kdpc_dispatch_in_order:
  assumes call: "acts_as call f" and s: "dpc_content s []" "\<not> in_dpc s" and ds: "distinct ds"
    and idle: "\<forall>d\<in>set ds. d_flags (dpcs s d) = 0"
  shows "\<exists>s'. kdpc_dispatch_queue call (fold (\<lambda>d. kdpc_queue d (pf d) (af d)) ds s) = Returns s'
     \<and> dpc_state.more s' = fold (\<lambda>d. f (pf d) (af d)) ds (dpc_state.more s)
     \<and> dpc_total s' = dpc_total s + of_nat (length ds) \<and> dpc_content s' [] \<and> (\<forall>d\<in>set ds. dpc_idle s' d)"
proof -
  let ?s = "fold (\<lambda>d. kdpc_queue d (pf d) (af d)) ds s"
  have c: "dpc_content ?s ds" using dq.enter_all [OF s(1) ds, of pf af] idle by (simp add: dpc_idle_def)
  have F: "dpc_waiting ?s ds pf af" "dpc_state.more ?s = dpc_state.more s" "dpc_total ?s = dpc_total s" "\<not> in_dpc ?s"
    using kdpc_queue_all [OF s(1) ds idle, of pf af] s(2) by (simp_all add: Let_def)
  let ?t = "?s\<lparr>in_dpc := True\<rparr>"
  have "dpc_content ?t ds" "dpc_waiting ?t ds pf af" using c F(1) by (simp_all add: dpc_content_def dpc_waiting_def)
  from kdpc_loop_law [OF call this] obtain s' where L: "kdpc_dispatch_loop call ?t = Some (Returns s')" "dpc_content s' []"
    "\<forall>d\<in>set ds. dpc_idle s' d" "dpc_state.more s' = fold (\<lambda>d. f (pf d) (af d)) ds (dpc_state.more s)"
    "dpc_total s' = dpc_total s + of_nat (length ds)" using F(2,3) by auto
  then show ?thesis using F(4) by (auto simp: kdpc_dispatch_queue_def dpc_content_def dpc_idle_def)
qed

theorem kdpc_dispatch_in_order_witness:
  "\<exists>s'. kdpc_dispatch_queue dpc_log (fold (\<lambda>d. kdpc_queue d 1 (10 * d)) [3, 1, 2] dpc_example) = Returns s'
     \<and> dpc_state.more s' = [30, 10, 20] \<and> dpc_total s' = 3"
proof -
  have "acts_as dpc_log (\<lambda>p a l. l @ [a])"
    by (simp add: acts_as_def dpc_log_def dpc_state.defs)
  then show ?thesis
    using kdpc_dispatch_in_order [of dpc_log "\<lambda>p a l. l @ [a]" dpc_example "[3, 1, 2]" "\<lambda>_. 1" "\<lambda>d. 10 * d"]
    by (auto simp: dpc_example_def dpc_content_def dpc_state.defs kheap.defs)
qed

end
