(* ===== verification/Sched.thy ===== *)
theory Sched
  imports Dpc
begin

text \<open>
  The thread scheduler of \<^verbatim>\<open>src/src/sys/kernel/sched.c\<close>: one ready queue per priority, linked through
  the threads, a bit summary of the queues that are not empty, and the state changes of
  threads. Threads are numbered; number \<open>self\<close> is the thread that runs.

  A context switch lets other threads run until this one is chosen again. What they do to the
  system is a parameter of the operations that switch, and so is what a deferred call does.
\<close>

section \<open>Data\<close>

datatype thread_state =
    INITIALIZED
  | READY
  | RUNNING
  | WAITING
  | TERMINATED
  | SUSPENDED
  | TRANSITION

text \<open>
  A thread. The number of groups is the length of the list; whether there is a thread
  information block is a flag; the alarm timer and the embedded object are kept under the
  number of the thread with the other timers and objects.
\<close>

record thread =
  t_state :: thread_state
  quantum :: int
  wait_reason :: int
  t_flags :: u32
  priority :: int
  base_priority :: int
  t_id :: int
  t_hndl :: int
  has_tib :: bool
  suspend_count :: int
  entrypoint :: nat
  exitcode :: int
  t_name :: string
  ruid :: u16
  rgid :: u16
  euid :: u16
  egid :: u16
  groups :: "u16 list"
  curdir :: string
  blocked_signals :: u32
  pending_signals :: u32
  utime :: u32
  stime :: u32
  context_switches :: u32
  preempts :: u32
  t_next :: "nat option"
  t_prev :: "nat option"
  next_ready :: "nat option"
  prev_ready :: "nat option"
  waitlist :: "nat option"
  waitkey :: int

record sched = dpc_state +
  threads :: "nat \<Rightarrow> thread"
  self :: nat
  ready_queue_head :: "nat \<Rightarrow> nat option"
  ready_queue_tail :: "nat \<Rightarrow> nat option"
  thread_ready_summary :: u32
  preempt :: bool
  threadlist :: "nat option"
  nexttid :: int

text \<open>
  The processor: the effect of a procedure on its argument, and the effect of switching to a
  thread, up to the moment when the thread that switched runs again.
\<close>

record 's cpu =
  call_proc :: "nat \<Rightarrow> nat \<Rightarrow> 's \<Rightarrow> 's outcome"
  switch_context :: "nat \<Rightarrow> 's \<Rightarrow> 's outcome"

abbreviation (input) THREAD_PRIORITY_LEVELS :: int where "THREAD_PRIORITY_LEVELS \<equiv> 32"
abbreviation (input) DEFAULT_QUANTUM :: int where "DEFAULT_QUANTUM \<equiv> 36"
abbreviation (input) PRIORITY_SYSIDLE :: int where "PRIORITY_SYSIDLE \<equiv> 0"
abbreviation (input) PRIORITY_NORMAL :: int where "PRIORITY_NORMAL \<equiv> 8"
abbreviation (input) PRIORITY_TIME_CRITICAL :: int where "PRIORITY_TIME_CRITICAL \<equiv> 15"
abbreviation (input) THREAD_FPU_ENABLED :: u32 where "THREAD_FPU_ENABLED \<equiv> 2"
abbreviation (input) THREAD_ALERTABLE :: u32 where "THREAD_ALERTABLE \<equiv> 4"
abbreviation (input) THREAD_INTERRUPTED :: u32 where "THREAD_INTERRUPTED \<equiv> 8"

section \<open>Threads and queues\<close>

definition upd_thread :: "nat \<Rightarrow> (thread \<Rightarrow> thread) \<Rightarrow> 'a sched_scheme \<Rightarrow> 'a sched_scheme" where
  "upd_thread t f s = s\<lparr>threads := (threads s)(t := f (threads s t))\<rparr>"

text \<open>An assignment through a pointer; a NULL pointer is a fault.\<close>

definition upd_thread_ptr :: "nat option \<Rightarrow> (thread \<Rightarrow> thread) \<Rightarrow> 'a sched_scheme \<Rightarrow> 'a sched_scheme outcome" where
  "upd_thread_ptr p f s = (case p of None \<Rightarrow> Faults | Some t \<Rightarrow> Returns (upd_thread t f s))"

text \<open>The ring of all threads.\<close>

definition insert_before :: "nat \<Rightarrow> nat \<Rightarrow> 'a sched_scheme \<Rightarrow> 'a sched_scheme outcome" where
  "insert_before t1 t2 s =
     (let s = upd_thread t2 (\<lambda>x. x\<lparr>t_next := Some t1\<rparr>) s;
          s = upd_thread t2 (\<lambda>x. x\<lparr>t_prev := t_prev (threads s t1)\<rparr>) s in
      bind_outcome (upd_thread_ptr (t_prev (threads s t1)) (\<lambda>x. x\<lparr>t_next := Some t2\<rparr>) s) (\<lambda>s.
        Returns (upd_thread t1 (\<lambda>x. x\<lparr>t_prev := Some t2\<rparr>) s)))"

definition insert_after :: "nat \<Rightarrow> nat \<Rightarrow> 'a sched_scheme \<Rightarrow> 'a sched_scheme outcome" where
  "insert_after t1 t2 s =
     (let s = upd_thread t2 (\<lambda>x. x\<lparr>t_next := t_next (threads s t1)\<rparr>) s;
          s = upd_thread t2 (\<lambda>x. x\<lparr>t_prev := Some t1\<rparr>) s in
      bind_outcome (upd_thread_ptr (t_next (threads s t1)) (\<lambda>x. x\<lparr>t_prev := Some t2\<rparr>) s) (\<lambda>s.
        Returns (upd_thread t1 (\<lambda>x. x\<lparr>t_next := Some t2\<rparr>) s)))"

definition remove_thread :: "nat \<Rightarrow> 'a sched_scheme \<Rightarrow> 'a sched_scheme outcome" where
  "remove_thread t s =
     bind_outcome (upd_thread_ptr (t_next (threads s t)) (\<lambda>x. x\<lparr>t_prev := t_prev (threads s t)\<rparr>) s) (\<lambda>s.
       upd_thread_ptr (t_prev (threads s t)) (\<lambda>x. x\<lparr>t_next := t_next (threads s t)\<rparr>) s)"

text \<open>
  The ready queues are arrays with one element per priority: any other index is a fault. A
  pointer that was found to be not NULL is followed.
\<close>

definition level :: "'a sched_scheme \<Rightarrow> nat \<Rightarrow> nat outcome" where
  "level s t =
     (let p = priority (threads s t) in
      if 0 \<le> p \<and> p < THREAD_PRIORITY_LEVELS then Returns (nat p) else Faults)"

definition insert_ready_head :: "nat \<Rightarrow> 'a sched_scheme \<Rightarrow> 'a sched_scheme outcome" where
  "insert_ready_head t s =
     bind_outcome (level s t) (\<lambda>p.
       case ready_queue_head s p of
         None \<Rightarrow>
           let s = upd_thread t (\<lambda>x. x\<lparr>next_ready := None, prev_ready := None\<rparr>) s in
           Returns (s\<lparr>ready_queue_head := (ready_queue_head s)(p := Some t),
                      ready_queue_tail := (ready_queue_tail s)(p := Some t),
                      thread_ready_summary := thread_ready_summary s OR push_bit p 1\<rparr>)
       | Some h \<Rightarrow>
           let s = upd_thread t (\<lambda>x. x\<lparr>next_ready := Some h, prev_ready := None\<rparr>) s;
               s = upd_thread h (\<lambda>x. x\<lparr>prev_ready := Some t\<rparr>) s in
           Returns (s\<lparr>ready_queue_head := (ready_queue_head s)(p := Some t)\<rparr>))"

definition insert_ready_tail :: "nat \<Rightarrow> 'a sched_scheme \<Rightarrow> 'a sched_scheme outcome" where
  "insert_ready_tail t s =
     bind_outcome (level s t) (\<lambda>p.
       case ready_queue_tail s p of
         None \<Rightarrow>
           let s = upd_thread t (\<lambda>x. x\<lparr>next_ready := None, prev_ready := None\<rparr>) s in
           Returns (s\<lparr>ready_queue_head := (ready_queue_head s)(p := Some t),
                      ready_queue_tail := (ready_queue_tail s)(p := Some t),
                      thread_ready_summary := thread_ready_summary s OR push_bit p 1\<rparr>)
       | Some l \<Rightarrow>
           let s = upd_thread t (\<lambda>x. x\<lparr>next_ready := None, prev_ready := Some l\<rparr>) s;
               s = upd_thread l (\<lambda>x. x\<lparr>next_ready := Some t\<rparr>) s in
           Returns (s\<lparr>ready_queue_tail := (ready_queue_tail s)(p := Some t)\<rparr>))"

definition remove_from_ready_queue :: "nat \<Rightarrow> 'a sched_scheme \<Rightarrow> 'a sched_scheme outcome" where
  "remove_from_ready_queue t s =
     bind_outcome (level s t) (\<lambda>p.
       let s = (case next_ready (threads s t) of None \<Rightarrow> s
                | Some n \<Rightarrow> upd_thread n (\<lambda>x. x\<lparr>prev_ready := prev_ready (threads s t)\<rparr>) s);
           s = (case prev_ready (threads s t) of None \<Rightarrow> s
                | Some q \<Rightarrow> upd_thread q (\<lambda>x. x\<lparr>next_ready := next_ready (threads s t)\<rparr>) s);
           s = (if ready_queue_head s p = Some t
                then s\<lparr>ready_queue_head := (ready_queue_head s)(p := next_ready (threads s t))\<rparr> else s);
           s = (if ready_queue_tail s p = Some t
                then s\<lparr>ready_queue_tail := (ready_queue_tail s)(p := prev_ready (threads s t))\<rparr> else s)
       in Returns (if ready_queue_tail s p = None
                   then s\<lparr>thread_ready_summary := thread_ready_summary s AND NOT (push_bit p 1)\<rparr> else s))"

text \<open>From \<^verbatim>\<open>src/src/include/bitops.h\<close>.\<close>

fun find_highest_bit_loop :: "nat \<Rightarrow> u32 \<Rightarrow> nat" where
  "find_highest_bit_loop n m =
     (if n > 0 \<and> m AND 0x80000000 = 0 then find_highest_bit_loop (n - 1) (push_bit 1 m) else n)"

declare find_highest_bit_loop.simps [simp del]

definition find_highest_bit :: "u32 \<Rightarrow> nat" where
  "find_highest_bit m = find_highest_bit_loop 31 m"

definition next_ready_thread :: "'a sched_scheme \<Rightarrow> (nat option \<times> 'a sched_scheme) outcome" where
  "next_ready_thread s =
     (if thread_ready_summary s = 0 then Returns (None, s)
      else
        let p = find_highest_bit (thread_ready_summary s) in
        case ready_queue_head s p of
          None \<Rightarrow> Faults
        | Some t \<Rightarrow>
            let s = (case next_ready (threads s t) of
                       None \<Rightarrow>
                         s\<lparr>ready_queue_head := (ready_queue_head s)(p := None),
                           ready_queue_tail := (ready_queue_tail s)(p := None),
                           thread_ready_summary := thread_ready_summary s AND NOT (push_bit p 1)\<rparr>
                     | Some n \<Rightarrow>
                         let s = upd_thread n (\<lambda>x. x\<lparr>prev_ready := None\<rparr>) s in
                         s\<lparr>ready_queue_head := (ready_queue_head s)(p := Some n)\<rparr>)
            in Returns (Some t, upd_thread t (\<lambda>x. x\<lparr>next_ready := None, prev_ready := None\<rparr>) s))"

section \<open>State changes of threads\<close>

text \<open>
  The priority after a boost: applied to the base priority, never into the realtime range and
  never a decrease.
\<close>

definition boosted :: "thread \<Rightarrow> int \<Rightarrow> int" where
  "boosted x boost =
     (let newprio = base_priority x + boost;
          newprio = (if newprio > PRIORITY_TIME_CRITICAL then PRIORITY_TIME_CRITICAL else newprio)
      in if newprio > priority x then newprio else priority x)"

definition decayed :: "thread \<Rightarrow> thread" where
  "decayed x = x\<lparr>quantum := DEFAULT_QUANTUM,
     priority := (if priority x > base_priority x then priority x - 1 else priority x)\<rparr>"

definition kthread_ready :: "nat \<Rightarrow> int \<Rightarrow> int \<Rightarrow> 'a sched_scheme \<Rightarrow> 'a sched_scheme outcome" where
  "kthread_ready t charge boost s =
     (if suspend_count (threads s t) > 0 then Returns (upd_thread t (\<lambda>x. x\<lparr>t_state := SUSPENDED\<rparr>) s)
      else if t_flags (threads s t) AND THREAD_INTERRUPTED \<noteq> 0 \<and> t_state (threads s t) = READY then Returns s
      else
        let s = upd_thread t (\<lambda>x. x\<lparr>quantum := quantum x - charge\<rparr>) s;
            s = upd_thread t (\<lambda>x. x\<lparr>priority := boosted x boost\<rparr>) s in
        if t_state (threads s t) = READY then Panics ''thread already ready''
        else
          let s = upd_thread t (\<lambda>x. x\<lparr>t_state := READY\<rparr>) s in
          bind_outcome
            (if quantum (threads s t) > 0 then insert_ready_head t s
             else insert_ready_tail t (upd_thread t decayed s)) (\<lambda>s.
          Returns (if priority (threads s t) > priority (threads s (self s)) then s\<lparr>preempt := True\<rparr> else s)))"

text \<open>The descriptor of the thread information block, which is reloaded here, is not part of the state.\<close>

definition kthread_mark_running :: "'a sched_scheme \<Rightarrow> 'a sched_scheme" where
  "kthread_mark_running s =
     upd_thread (self s) (\<lambda>x. x\<lparr>t_state := RUNNING, context_switches := context_switches x + 1\<rparr>) s"

text \<open>Saving the floating point registers is not part of the state; the flag that is cleared is.\<close>

definition ksched_dispatch :: "'a sched_scheme cpu \<Rightarrow> 'a sched_scheme \<Rightarrow> 'a sched_scheme outcome" where
  "ksched_dispatch cpu s =
     (let cur = self s; s = s\<lparr>preempt := False\<rparr> in
      bind_outcome (if dpc_queue_head s \<noteq> None then kdpc_dispatch_queue (call_proc cpu) s else Returns s) (\<lambda>s.
      bind_outcome (next_ready_thread s) (\<lambda>(next, s).
        case next of
          None \<Rightarrow> Panics ''No thread ready to run''
        | Some t \<Rightarrow>
            if t = cur then Returns (upd_thread t (\<lambda>x. x\<lparr>t_state := RUNNING\<rparr>) s)
            else
              let s = (if t_flags (threads s cur) AND THREAD_FPU_ENABLED \<noteq> 0
                       then upd_thread t (\<lambda>x. x\<lparr>t_flags := t_flags x AND NOT THREAD_FPU_ENABLED\<rparr>) s else s) in
              bind_outcome (switch_context cpu t s) (\<lambda>s. Returns (kthread_mark_running s)))))"

definition kthread_wait :: "'a sched_scheme cpu \<Rightarrow> int \<Rightarrow> 'a sched_scheme \<Rightarrow> 'a sched_scheme outcome" where
  "kthread_wait cpu reason s =
     ksched_dispatch cpu (upd_thread (self s) (\<lambda>x. x\<lparr>t_state := WAITING, wait_reason := reason\<rparr>) s)"

definition kthread_signals_ready :: "thread \<Rightarrow> bool" where
  "kthread_signals_ready t \<longleftrightarrow> pending_signals t AND NOT (blocked_signals t) \<noteq> 0"

definition kthread_alertable_wait ::
    "'a sched_scheme cpu \<Rightarrow> int \<Rightarrow> 'a sched_scheme \<Rightarrow> (int \<times> 'a sched_scheme) outcome" where
  "kthread_alertable_wait cpu reason s =
     (let t = self s in
      if kthread_signals_ready (threads s t) then Returns (- EINTR, s)
      else
        let s = upd_thread t (\<lambda>x. x\<lparr>t_state := WAITING, wait_reason := reason,
                  t_flags := (t_flags x AND NOT THREAD_INTERRUPTED) OR THREAD_ALERTABLE\<rparr>) s in
        bind_outcome (ksched_dispatch cpu s) (\<lambda>s.
          let s = upd_thread t (\<lambda>x. x\<lparr>t_flags := t_flags x AND NOT THREAD_ALERTABLE\<rparr>) s in
          Returns (if t_flags (threads s t) AND THREAD_INTERRUPTED \<noteq> 0
                   then (- EINTR, upd_thread t (\<lambda>x. x\<lparr>t_flags := t_flags x AND NOT THREAD_INTERRUPTED\<rparr>) s)
                   else (0, s))))"

definition kthread_interrupt :: "nat \<Rightarrow> 'a sched_scheme \<Rightarrow> (int \<times> 'a sched_scheme) outcome" where
  "kthread_interrupt t s =
     (if t_state (threads s t) \<noteq> WAITING then Returns (- EBUSY, s)
      else if t_flags (threads s t) AND THREAD_ALERTABLE = 0 then Returns (- EPERM, s)
      else
        bind_outcome (kthread_ready t 1 1 (upd_thread t (\<lambda>x. x\<lparr>t_flags := t_flags x OR THREAD_INTERRUPTED\<rparr>) s))
          (\<lambda>s. Returns (0, s)))"

definition kthread_preempt :: "'a sched_scheme cpu \<Rightarrow> 'a sched_scheme \<Rightarrow> 'a sched_scheme outcome" where
  "kthread_preempt cpu s =
     (let t = self s;
          s = upd_thread t (\<lambda>x. x\<lparr>preempts := preempts x + 1\<rparr>) s;
          s = (if quantum (threads s t) \<le> 0 then upd_thread t decayed s else s);
          s = upd_thread t (\<lambda>x. x\<lparr>t_state := READY\<rparr>) s in
      bind_outcome (insert_ready_tail t s) (ksched_dispatch cpu))"

definition kthread_yield :: "'a sched_scheme cpu \<Rightarrow> 'a sched_scheme \<Rightarrow> 'a sched_scheme outcome" where
  "kthread_yield cpu s =
     bind_outcome (kthread_ready (self s) 0 0 (upd_thread (self s) (\<lambda>x. x\<lparr>quantum := 0\<rparr>) s)) (ksched_dispatch cpu)"

definition kthread_suspend ::
    "'a sched_scheme cpu \<Rightarrow> nat \<Rightarrow> 'a sched_scheme \<Rightarrow> (int \<times> 'a sched_scheme) outcome" where
  "kthread_suspend cpu t s =
     (let prevcount = suspend_count (threads s t);
          s = upd_thread t (\<lambda>x. x\<lparr>suspend_count := suspend_count x + 1\<rparr>) s in
      bind_outcome
        (if prevcount = 0 then
           (if t_state (threads s t) = READY then
              bind_outcome (remove_from_ready_queue t s) (\<lambda>s.
                Returns (upd_thread t (\<lambda>x. x\<lparr>t_state := SUSPENDED\<rparr>) s))
            else if t_state (threads s t) = RUNNING then
              ksched_dispatch cpu (upd_thread t (\<lambda>x. x\<lparr>t_state := SUSPENDED\<rparr>) s)
            else Returns s)
         else Returns s) (\<lambda>s.
      Returns (prevcount, s)))"

definition kthread_resume :: "nat \<Rightarrow> 'a sched_scheme \<Rightarrow> (int \<times> 'a sched_scheme) outcome" where
  "kthread_resume t s =
     (let prevcount = suspend_count (threads s t) in
      bind_outcome
        (if prevcount > 0 then
           let s = upd_thread t (\<lambda>x. x\<lparr>suspend_count := suspend_count x - 1\<rparr>) s in
           if suspend_count (threads s t) = 0
              \<and> (t_state (threads s t) = SUSPENDED \<or> t_state (threads s t) = INITIALIZED)
           then kthread_ready t 0 0 s else Returns s
         else Returns s) (\<lambda>s.
      Returns (prevcount, s)))"

definition kthread_get_priority :: "'a sched_scheme \<Rightarrow> nat \<Rightarrow> int" where
  "kthread_get_priority s t = priority (threads s t)"

definition kthread_set_priority ::
    "'a sched_scheme cpu \<Rightarrow> nat \<Rightarrow> int \<Rightarrow> 'a sched_scheme \<Rightarrow> (int \<times> 'a sched_scheme) outcome" where
  "kthread_set_priority cpu t prio s =
     (if prio < 0 \<or> prio \<ge> THREAD_PRIORITY_LEVELS then Returns (- EINVAL, s)
      else if base_priority (threads s t) = prio then Returns (0, s)
      else
        bind_outcome
          (if t = self s then
             let s = upd_thread t (\<lambda>x. x\<lparr>priority := prio, base_priority := prio\<rparr>) s in
             if prio < priority (threads s t) then
               bind_outcome (kthread_ready t 0 0 s) (ksched_dispatch cpu)
             else Returns s
           else if t_state (threads s t) = READY then
             bind_outcome (remove_from_ready_queue t s) (\<lambda>s.
               kthread_ready t 0 0 (upd_thread t (\<lambda>x. x\<lparr>priority := prio, base_priority := prio,
                                                     t_state := TRANSITION\<rparr>) s))
           else Returns (upd_thread t (\<lambda>x. x\<lparr>priority := prio, base_priority := prio\<rparr>) s)) (\<lambda>s.
        Returns (0, s)))"

definition ksched_is_system_idle :: "'a sched_scheme \<Rightarrow> bool" where
  "ksched_is_system_idle s \<longleftrightarrow> thread_ready_summary s = 0 \<and> dpc_queue_head s = None"

section \<open>Signals\<close>

text \<open>From \<^verbatim>\<open>src/src/arch/x86/sys/kernel/trap.c\<close>. The results of the calls are ignored there.\<close>

abbreviation (input) SIGCONT :: nat where "SIGCONT \<equiv> 18"

definition send_user_signal :: "nat \<Rightarrow> nat \<Rightarrow> 'a sched_scheme \<Rightarrow> (int \<times> 'a sched_scheme) outcome" where
  "send_user_signal t signum s =
     (if \<not> has_tib (threads s t) then Returns (- EPERM, s)
      else
        let s = upd_thread t (\<lambda>x. x\<lparr>pending_signals := pending_signals x OR push_bit signum 1\<rparr>) s in
        bind_outcome (if signum = SIGCONT then kthread_resume t s else Returns (0, s)) (\<lambda>(_, s).
          if \<not> kthread_signals_ready (threads s t) then Returns (0, s)
          else if t_state (threads s t) = WAITING then
            bind_outcome (kthread_interrupt t s) (\<lambda>(_, s). Returns (0, s))
          else Returns (0, s)))"

datatype sig_how = SIG_BLOCK | SIG_UNBLOCK | SIG_SETMASK | SIG_OTHER

definition kthread_set_signal_mask ::
    "sig_how \<Rightarrow> u32 option \<Rightarrow> 'a sched_scheme \<Rightarrow> (int \<times> u32 \<times> 'a sched_scheme) outcome" where
  "kthread_set_signal_mask how newset s =
     (let t = self s; oldset = blocked_signals (threads s t) in
      case newset of
        None \<Rightarrow> Returns (0, oldset, s)
      | Some m \<Rightarrow>
          (case (case how of SIG_BLOCK \<Rightarrow> Some (oldset OR m) | SIG_UNBLOCK \<Rightarrow> Some (oldset AND NOT m)
                 | SIG_SETMASK \<Rightarrow> Some m | SIG_OTHER \<Rightarrow> None) of
             None \<Rightarrow> Returns (- EINVAL, oldset, s)
           | Some b \<Rightarrow>
               let s = upd_thread t (\<lambda>x. x\<lparr>blocked_signals := b\<rparr>) s in
               if kthread_signals_ready (threads s t) \<and> t_state (threads s t) = WAITING then
                 bind_outcome (kthread_interrupt t s) (\<lambda>(_, s). Returns (0, oldset, s))
               else Returns (0, oldset, s)))"

definition kthread_get_pending_signals :: "bool \<Rightarrow> 'a sched_scheme \<Rightarrow> int \<times> u32 option" where
  "kthread_get_pending_signals given s =
     (if \<not> given then (- EINVAL, None) else (0, Some (pending_signals (threads s (self s)))))"

section \<open>All threads\<close>

text \<open>The walk around the ring of threads; \<open>None\<close> when it never comes back to its start.\<close>

partial_function (option) kthread_get_loop :: "int \<Rightarrow> nat option \<Rightarrow> 'a sched_scheme \<Rightarrow> nat \<Rightarrow> nat option outcome option" where
  "kthread_get_loop tid start s t =
     (if t_id (threads s t) = tid then Some (Returns (Some t))
      else
        case t_next (threads s t) of
          None \<Rightarrow> Some Faults
        | Some n \<Rightarrow> if start = Some n then Some (Returns None) else kthread_get_loop tid start s n)"

declare kthread_get_loop.simps [code]

definition kthread_get :: "int \<Rightarrow> 'a sched_scheme \<Rightarrow> nat option outcome" where
  "kthread_get tid s =
     (case threadlist s of
        None \<Rightarrow> Faults
      | Some t \<Rightarrow> (case kthread_get_loop tid (Some t) s t of None \<Rightarrow> Diverges | Some r \<Rightarrow> r))"

partial_function (option) suspend_all_loop ::
    "'a sched_scheme cpu \<Rightarrow> 'a sched_scheme \<Rightarrow> nat \<Rightarrow> 'a sched_scheme outcome option" where
  "suspend_all_loop cpu s t =
     (case (if has_tib (threads s t) \<and> t \<noteq> self s
            then bind_outcome (kthread_suspend cpu t s) (\<lambda>(_, s). Returns s) else Returns s) of
        Returns s \<Rightarrow>
          (case t_next (threads s t) of
             None \<Rightarrow> Some (if threadlist s = None then Returns s else Faults)
           | Some n \<Rightarrow> if threadlist s = Some n then Some (Returns s) else suspend_all_loop cpu s n)
      | Panics m \<Rightarrow> Some (Panics m)
      | Diverges \<Rightarrow> Some Diverges
      | Faults \<Rightarrow> Some Faults)"

declare suspend_all_loop.simps [code]

definition ksched_suspend_all_threads :: "'a sched_scheme cpu \<Rightarrow> 'a sched_scheme \<Rightarrow> 'a sched_scheme outcome" where
  "ksched_suspend_all_threads cpu s =
     (case threadlist s of
        None \<Rightarrow> Returns s
      | Some t \<Rightarrow> (case suspend_all_loop cpu s t of None \<Rightarrow> Diverges | Some r \<Rightarrow> r))"

definition ksched_destroy :: "'a sched_scheme cpu \<Rightarrow> 'a sched_scheme \<Rightarrow> 'a sched_scheme outcome" where
  "ksched_destroy cpu s =
     bind_outcome (ksched_suspend_all_threads cpu s) (\<lambda>s. Returns (s\<lparr>threadlist := None\<rparr>))"

end
