(* ===== verification/Sched_Correct.thy ===== *)
theory Sched_Correct
  imports Sched
begin

text \<open>
  Correctness of the scheduler: the ready queues as lists, what becoming ready and dispatching
  do to them, the invariant of the system over all its steps, and the turns of threads that
  give way.
\<close>

section \<open>Notions\<close>

text \<open>The ready queues hold the threads \<open>Q p\<close> for each priority \<open>p\<close>, and the summary has a bit for each queue with a thread.\<close>

definition queues_ok :: "'a sched_scheme \<Rightarrow> (nat \<Rightarrow> nat list) \<Rightarrow> bool" where
  "queues_ok s Q \<longleftrightarrow>
     (\<forall>p<32. dll (next_ready \<circ> threads s) (prev_ready \<circ> threads s) (ready_queue_head s p) (ready_queue_tail s p) (Q p)
        \<and> (\<forall>t\<in>set (Q p). priority (threads s t) = int p)
        \<and> (bit (thread_ready_summary s) p \<longleftrightarrow> Q p \<noteq> []))"

text \<open>A thread is in a ready queue exactly when its state is ready.\<close>

definition ready_exact :: "'a sched_scheme \<Rightarrow> (nat \<Rightarrow> nat list) \<Rightarrow> bool" where
  "ready_exact s Q \<longleftrightarrow> (\<forall>t. t_state (threads s t) = READY \<longleftrightarrow> (\<exists>p<32. t \<in> set (Q p)))"

definition prio_ok :: "'a sched_scheme \<Rightarrow> bool" where
  "prio_ok s \<longleftrightarrow> (\<forall>t. 0 \<le> priority (threads s t) \<and> priority (threads s t) < 32
     \<and> 0 \<le> base_priority (threads s t) \<and> base_priority (threads s t) < 32)"

definition sched_inv :: "'a sched_scheme \<Rightarrow> (nat \<Rightarrow> nat list) \<Rightarrow> bool" where
  "sched_inv s Q \<longleftrightarrow> queues_ok s Q \<and> ready_exact s Q \<and> prio_ok s"

text \<open>Nothing but the links of the ready queues changed in the threads, and nothing outside the queues.\<close>

definition only_links :: "'a sched_scheme \<Rightarrow> 'a sched_scheme \<Rightarrow> bool" where
  "only_links s s' \<longleftrightarrow> (\<forall>u. threads s' u = (threads s u)\<lparr>next_ready := next_ready (threads s' u), prev_ready := prev_ready (threads s' u)\<rparr>)
     \<and> self s' = self s \<and> preempt s' = preempt s \<and> threadlist s' = threadlist s \<and> nexttid s' = nexttid s
     \<and> dpc_state.truncate s' = dpc_state.truncate s \<and> sched.more s' = sched.more s"

text \<open>What becoming ready makes of a thread, its links apart.\<close>

definition readied :: "thread \<Rightarrow> int \<Rightarrow> int \<Rightarrow> thread" where
  "readied x charge boost =
     (let y = x\<lparr>quantum := quantum x - charge, priority := boosted x boost, t_state := READY\<rparr>
      in if quantum y > 0 then y else decayed y)"

text \<open>The queues when thread \<open>t\<close>, being \<open>x\<close> before, is entered: in front if it has quantum left, else at the end.\<close>

definition entered :: "nat \<Rightarrow> thread \<Rightarrow> int \<Rightarrow> int \<Rightarrow> (nat \<Rightarrow> nat list) \<Rightarrow> nat \<Rightarrow> nat list" where
  "entered t x charge boost Q =
     (let p = nat (priority (readied x charge boost))
      in Q(p := (if quantum x > charge then t # Q p else Q p @ [t])))"

text \<open>
  The processor as the system sees it: after the switch to thread \<open>t\<close> the code runs on as thread
  \<open>t\<close>.
\<close>

definition direct_cpu :: "'a sched_scheme cpu" where
  "direct_cpu = \<lparr>call_proc = (\<lambda>p a s. Returns s), switch_context = (\<lambda>t s. Returns (s\<lparr>self := t\<rparr>))\<rparr>"

text \<open>
  The invariant of the running system: the queues hold exactly the ready threads, one thread
  is running, and a suspended thread is neither.
\<close>

definition system_inv :: "'a sched_scheme \<Rightarrow> (nat \<Rightarrow> nat list) \<Rightarrow> bool" where
  "system_inv s Q \<longleftrightarrow> sched_inv s Q \<and> (\<forall>t. t_state (threads s t) = RUNNING \<longleftrightarrow> t = self s)
     \<and> (\<forall>t. suspend_count (threads s t) > 0 \<longrightarrow> t_state (threads s t) \<noteq> READY \<and> t_state (threads s t) \<noteq> RUNNING)"

text \<open>The steps of the system between two deferred calls.\<close>

inductive sched_step :: "'a sched_scheme \<Rightarrow> 'a sched_scheme \<Rightarrow> bool" where
  wake: "t \<noteq> self s \<Longrightarrow> 0 \<le> boost \<Longrightarrow> kthread_ready t charge boost s = Returns s' \<Longrightarrow> sched_step s s'"
| interrupt: "kthread_interrupt t s = Returns (rc, s') \<Longrightarrow> sched_step s s'"
| suspend: "dpc_queue_head s = None \<Longrightarrow> kthread_suspend direct_cpu t s = Returns (n, s') \<Longrightarrow> sched_step s s'"
| resume: "kthread_resume t s = Returns (n, s') \<Longrightarrow> sched_step s s'"
| set_priority: "kthread_set_priority direct_cpu t prio s = Returns (rc, s') \<Longrightarrow> sched_step s s'"
| wait: "dpc_queue_head s = None \<Longrightarrow> kthread_wait direct_cpu reason s = Returns s' \<Longrightarrow> sched_step s s'"
| yield: "dpc_queue_head s = None \<Longrightarrow> kthread_yield direct_cpu s = Returns s' \<Longrightarrow> sched_step s s'"
| preempt: "dpc_queue_head s = None \<Longrightarrow> kthread_preempt direct_cpu s = Returns s' \<Longrightarrow> sched_step s s'"

text \<open>Between a state change of the running thread and the choice of the next: nobody runs.\<close>

definition switching :: "'a sched_scheme \<Rightarrow> (nat \<Rightarrow> nat list) \<Rightarrow> bool" where
  "switching s Q \<longleftrightarrow> sched_inv s Q \<and> (\<forall>t. t_state (threads s t) \<noteq> RUNNING) \<and> dpc_queue_head s = None
     \<and> (\<forall>t. suspend_count (threads s t) > 0 \<longrightarrow> t_state (threads s t) \<noteq> READY)"

text \<open>Four threads of normal priority: number 0 runs, 1 and 2 are ready, 3 waits.\<close>

definition example_thread :: "nat \<Rightarrow> thread" where
  "example_thread t =
     \<lparr>t_state = (if t = 0 then RUNNING else if t = 1 \<or> t = 2 then READY else if t = 3 then WAITING else INITIALIZED),
      quantum = 36, wait_reason = 0, t_flags = (if t = 3 then 4 else 0), priority = 8, base_priority = 8, t_id = int t,
      t_hndl = 0, has_tib = True, suspend_count = (if t > 3 then 1 else 0), entrypoint = 0, exitcode = 0, t_name = [],
      ruid = 0, rgid = 0, euid = 0, egid = 0, groups = [], curdir = [], blocked_signals = 0, pending_signals = 0,
      utime = 0, stime = 0, context_switches = 0, preempts = 0, t_next = Some (if t < 3 then t + 1 else 0), t_prev = Some (if t = 0 then 3 else t - 1),
      next_ready = (if t = 1 then Some 2 else None), prev_ready = (if t = 2 then Some 1 else None), waitlist = None, waitkey = 0\<rparr>"

definition sched_example :: sched where
  "sched_example = dpc_state.extend (kheap.extend kheap_example
     (dpc_state.fields (\<lambda>_. \<lparr>d_proc = None, d_arg = 0, d_next = None, d_flags = 0\<rparr>) None None False 0 0))
     (sched.fields example_thread 0 ((\<lambda>_. None)(8 := Some 1)) ((\<lambda>_. None)(8 := Some 2)) 256 False (Some 0) 4)"

definition example_queues :: "nat \<Rightarrow> nat list" where
  "example_queues = (\<lambda>_. [])(8 := [1, 2])"

text \<open>The running thread gives way \<open>n\<close> times, whichever thread that is each time.\<close>

definition yields :: "nat \<Rightarrow> 'a sched_scheme \<Rightarrow> 'a sched_scheme outcome" where
  "yields n s = for_each [0..<n] (\<lambda>_. kthread_yield direct_cpu) s"

section \<open>Bits\<close>

lemma top_bit: "(m :: u32) AND 0x80000000 = 0 \<longleftrightarrow> \<not> bit m 31"
proof -
  have "(0x80000000 :: u32) = push_bit 31 1" by (simp add: push_bit_eq_mult)
  then show ?thesis using bit_iff_and_push_bit_not_eq_0 [of m 31] by simp
qed

lemma highest_loop:
  assumes "n < 32" "\<forall>k. bit m k \<longrightarrow> k \<le> n" "(m :: u32) \<noteq> 0"
  shows "bit m (find_highest_bit_loop n (push_bit (31 - n) m))
    \<and> (\<forall>k. bit m k \<longrightarrow> k \<le> find_highest_bit_loop n (push_bit (31 - n) m))"
  using assms
proof (induction n)
  case 0
  obtain k where "bit m k" using 0(3) bit_word_eqI [of m 0] by auto
  then have "bit m 0" using 0(2) by auto
  then show ?case using 0 by (simp add: find_highest_bit_loop.simps [of 0])
next
  case (Suc n)
  have b: "bit (push_bit (31 - Suc n) m) 31 \<longleftrightarrow> bit m (Suc n)" using Suc.prems(1) by (auto simp: bit_push_bit_iff)
  show ?case
  proof (cases "bit m (Suc n)")
    case True
    then show ?thesis using b Suc.prems(2) by (simp add: find_highest_bit_loop.simps [of "Suc n"] top_bit)
  next
    case False
    have "push_bit 1 (push_bit (31 - Suc n) m) = push_bit (1 + (31 - Suc n)) m" by (rule push_bit_push_bit)
    moreover have "1 + (31 - Suc n) = 31 - n" using Suc.prems(1) by simp
    ultimately have "push_bit 1 (push_bit (31 - Suc n) m) = push_bit (31 - n) m" by (simp only:)
    moreover have "\<forall>k. bit m k \<longrightarrow> k \<le> n" using Suc.prems(2) False by (metis le_Suc_eq)
    ultimately show ?thesis using Suc.IH Suc.prems(1,3) b False
      by (simp add: find_highest_bit_loop.simps [of "Suc n"] top_bit)
  qed
qed

lemma find_highest_bit_law:
  assumes "m \<noteq> 0"
  shows "bit m (find_highest_bit m)" "find_highest_bit m < 32" "bit m k \<Longrightarrow> k \<le> find_highest_bit m"
proof -
  have "\<forall>k. bit m k \<longrightarrow> k \<le> 31" using bit_imp_le_length [of m] by fastforce
  then have L: "bit m (find_highest_bit m) \<and> (\<forall>k. bit m k \<longrightarrow> k \<le> find_highest_bit m)"
    using highest_loop [of 31 m] assms by (simp add: find_highest_bit_def)
  then show "bit m (find_highest_bit m)" "bit m k \<Longrightarrow> k \<le> find_highest_bit m" by simp_all
  show "find_highest_bit m < 32" using L bit_imp_le_length [of m "find_highest_bit m"] by simp
qed

lemma bit_set [simp]: "p < 32 \<Longrightarrow> bit (m OR 2 ^ p :: u32) k \<longleftrightarrow> bit m k \<or> k = p"
  by (auto simp: bit_simps)

lemma bit_clear [simp]: "p < 32 \<Longrightarrow> bit (m AND NOT (2 ^ p) :: u32) k \<longleftrightarrow> bit m k \<and> k \<noteq> p"
  using bit_imp_le_length [of m k] by (auto simp: bit_simps)

section \<open>The queues\<close>

lemma upd_thread_simps [simp]:
  "threads (upd_thread t f s) = (threads s)(t := f (threads s t))"
  "self (upd_thread t f s) = self s" "ready_queue_head (upd_thread t f s) = ready_queue_head s"
  "ready_queue_tail (upd_thread t f s) = ready_queue_tail s" "thread_ready_summary (upd_thread t f s) = thread_ready_summary s"
  "preempt (upd_thread t f s) = preempt s" "threadlist (upd_thread t f s) = threadlist s" "nexttid (upd_thread t f s) = nexttid s"
  "dpc_queue_head (upd_thread t f s) = dpc_queue_head s" "sched.more (upd_thread t f s) = sched.more s"
  by (simp_all add: upd_thread_def)

lemma queues_disjoint:
  assumes "queues_ok s Q" "p < 32" "q < 32" "t \<in> set (Q p)" "t \<in> set (Q q)"
  shows "p = q"
proof -
  have "priority (threads s t) = int p" using assms(1,2,4) by (simp add: queues_ok_def)
  moreover have "priority (threads s t) = int q" using assms(1,3,5) by (simp add: queues_ok_def)
  ultimately show ?thesis by simp
qed

text \<open>The links of the threads in queue \<open>p\<close> changed into a list \<open>q\<close>; nothing else of the queues did.\<close>

lemma queues_change:
  assumes ok: "queues_ok s Q" and p: "p < 32"
    and d: "dll (next_ready \<circ> threads s') (prev_ready \<circ> threads s') (ready_queue_head s' p) (ready_queue_tail s' p) q"
    and pr: "\<forall>t\<in>set q. priority (threads s' t) = int p"
    and links: "\<forall>t. t \<notin> set (Q p) \<union> set q \<longrightarrow> next_ready (threads s' t) = next_ready (threads s t)
        \<and> prev_ready (threads s' t) = prev_ready (threads s t) \<and> priority (threads s' t) = priority (threads s t)"
    and new: "\<forall>r<32. r \<noteq> p \<longrightarrow> set q \<inter> set (Q r) = {}"
    and heads: "\<forall>r. r \<noteq> p \<longrightarrow> ready_queue_head s' r = ready_queue_head s r \<and> ready_queue_tail s' r = ready_queue_tail s r"
    and bits: "\<forall>r<32. bit (thread_ready_summary s') r \<longleftrightarrow> (if r = p then q \<noteq> [] else bit (thread_ready_summary s) r)"
  shows "queues_ok s' (Q(p := q))"
  unfolding queues_ok_def
proof (intro allI impI)
  fix r :: nat assume r: "r < 32"
  show "dll (next_ready \<circ> threads s') (prev_ready \<circ> threads s') (ready_queue_head s' r) (ready_queue_tail s' r) ((Q(p := q)) r)
        \<and> (\<forall>t\<in>set ((Q(p := q)) r). priority (threads s' t) = int r)
        \<and> (bit (thread_ready_summary s') r \<longleftrightarrow> (Q(p := q)) r \<noteq> [])"
  proof (cases "r = p")
    case True
    then show ?thesis using d pr bits r by simp
  next
    case False
    have out: "t \<notin> set (Q p) \<union> set q" if "t \<in> set (Q r)" for t
      using queues_disjoint [OF ok p r] new r False that by blast
    have "dll (next_ready \<circ> threads s') (prev_ready \<circ> threads s') (ready_queue_head s r) (ready_queue_tail s r) (Q r)
       = dll (next_ready \<circ> threads s) (prev_ready \<circ> threads s) (ready_queue_head s r) (ready_queue_tail s r) (Q r)"
      using links out by (intro dll_cong) simp
    then show ?thesis using ok r False heads bits links out by (auto simp: queues_ok_def)
  qed
qed

lemma only_links_fields:
  assumes "only_links s s'"
  shows "priority (threads s' u) = priority (threads s u)" "base_priority (threads s' u) = base_priority (threads s u)"
    "t_state (threads s' u) = t_state (threads s u)" "waitlist (threads s' u) = waitlist (threads s u)"
    "waitkey (threads s' u) = waitkey (threads s u)" "suspend_count (threads s' u) = suspend_count (threads s u)"
    "t_flags (threads s' u) = t_flags (threads s u)" "quantum (threads s' u) = quantum (threads s u)"
proof -
  obtain a b where e: "threads s' u = (threads s u)\<lparr>next_ready := a, prev_ready := b\<rparr>"
    using assms unfolding only_links_def by blast
  show "priority (threads s' u) = priority (threads s u)" "base_priority (threads s' u) = base_priority (threads s u)"
    "t_state (threads s' u) = t_state (threads s u)" "waitlist (threads s' u) = waitlist (threads s u)"
    "waitkey (threads s' u) = waitkey (threads s u)" "suspend_count (threads s' u) = suspend_count (threads s u)"
    "t_flags (threads s' u) = t_flags (threads s u)" "quantum (threads s' u) = quantum (threads s u)"
    by (simp_all add: e)
qed

lemma insert_ready_head_law:
  assumes ok: "queues_ok s Q" and p: "priority (threads s t) = int p" "p < 32" and t: "\<forall>r<32. t \<notin> set (Q r)"
  shows "\<exists>s'. insert_ready_head t s = Returns s' \<and> queues_ok s' (Q(p := t # Q p)) \<and> only_links s s'"
proof -
  have d: "dll (next_ready \<circ> threads s) (prev_ready \<circ> threads s) (ready_queue_head s p) (ready_queue_tail s p) (Q p)"
    using ok p by (simp add: queues_ok_def)
  note D = dll_push_front [OF d, of t]
  have lv: "level s t = Returns p" using p by (simp add: level_def)
  show ?thesis
  proof (cases "ready_queue_head s p")
    case None
    then have e: "Q p = []" using dll_empty_iff [OF d] by simp
    let ?s = "upd_thread t (\<lambda>x. x\<lparr>next_ready := None, prev_ready := None\<rparr>) s"
    define s' where "s' = ?s\<lparr>ready_queue_head := (ready_queue_head s)(p := Some t),
       ready_queue_tail := (ready_queue_tail s)(p := Some t), thread_ready_summary := thread_ready_summary s OR push_bit p 1\<rparr>"
    have "queues_ok s' (Q(p := [t]))"
      using t p by (intro queues_change [OF ok p(2)]) (auto simp: s'_def dll_def e)
    moreover have "insert_ready_head t s = Returns s'" using None lv by (simp add: insert_ready_head_def s'_def Let_def)
    moreover have "only_links s s'" by (simp add: only_links_def s'_def dpc_state.defs upd_thread_def)
    ultimately show ?thesis using e by auto
  next
    case (Some h)
    then have h: "h \<in> set (Q p)" "h \<noteq> t" "Q p \<noteq> []" "ready_queue_tail s p \<noteq> None"
      using dll_head [OF d] dll_empty_iff [OF d] t p by (cases "Q p"; auto)+
    let ?s = "upd_thread h (\<lambda>x. x\<lparr>prev_ready := Some t\<rparr>) (upd_thread t (\<lambda>x. x\<lparr>next_ready := Some h, prev_ready := None\<rparr>) s)"
    define s' where "s' = ?s\<lparr>ready_queue_head := (ready_queue_head s)(p := Some t)\<rparr>"
    have "queues_ok s' (Q(p := t # Q p))"
    proof (rule queues_change [OF ok p(2)])
      have "next_ready \<circ> threads s' = (next_ready \<circ> threads s)(t := Some h)"
        "prev_ready \<circ> threads s' = (prev_ready \<circ> threads s)(t := None, h := Some t)"
        using h(2) by (auto simp: s'_def)
      then show "dll (next_ready \<circ> threads s') (prev_ready \<circ> threads s') (ready_queue_head s' p) (ready_queue_tail s' p) (t # Q p)"
        using D t p h Some by (simp add: s'_def)
      show "\<forall>r<32. r \<noteq> p \<longrightarrow> set (t # Q p) \<inter> set (Q r) = {}" using t queues_disjoint [OF ok p(2)] by auto
    qed (use ok p t h in \<open>auto simp: s'_def queues_ok_def\<close>)
    moreover have "insert_ready_head t s = Returns s'" using Some lv by (simp add: insert_ready_head_def s'_def Let_def)
    moreover have "only_links s s'" using h(2) by (simp add: only_links_def s'_def dpc_state.defs upd_thread_def)
    ultimately show ?thesis by blast
  qed
qed

lemma insert_ready_tail_law:
  assumes ok: "queues_ok s Q" and p: "priority (threads s t) = int p" "p < 32" and t: "\<forall>r<32. t \<notin> set (Q r)"
  shows "\<exists>s'. insert_ready_tail t s = Returns s' \<and> queues_ok s' (Q(p := Q p @ [t])) \<and> only_links s s'"
proof -
  have d: "dll (next_ready \<circ> threads s) (prev_ready \<circ> threads s) (ready_queue_head s p) (ready_queue_tail s p) (Q p)"
    using ok p by (simp add: queues_ok_def)
  note D = dll_push_back [OF d, of t]
  have lv: "level s t = Returns p" using p by (simp add: level_def)
  show ?thesis
  proof (cases "ready_queue_tail s p")
    case None
    then have e: "Q p = []" using dll_empty_iff [OF d] by simp
    let ?s = "upd_thread t (\<lambda>x. x\<lparr>next_ready := None, prev_ready := None\<rparr>) s"
    define s' where "s' = ?s\<lparr>ready_queue_head := (ready_queue_head s)(p := Some t),
       ready_queue_tail := (ready_queue_tail s)(p := Some t), thread_ready_summary := thread_ready_summary s OR push_bit p 1\<rparr>"
    have "queues_ok s' (Q(p := [t]))"
      using t p by (intro queues_change [OF ok p(2)]) (auto simp: s'_def dll_def e)
    moreover have "insert_ready_tail t s = Returns s'" using None lv by (simp add: insert_ready_tail_def s'_def Let_def)
    moreover have "only_links s s'" by (simp add: only_links_def s'_def dpc_state.defs upd_thread_def)
    ultimately show ?thesis using e by auto
  next
    case (Some l)
    then have h: "l \<in> set (Q p)" "l \<noteq> t" "Q p \<noteq> []" "ready_queue_head s p \<noteq> None"
      using final_in [of "Q p" l] dll_empty_iff [OF d] t p d by (auto simp: dll_def)
    let ?s = "upd_thread l (\<lambda>x. x\<lparr>next_ready := Some t\<rparr>) (upd_thread t (\<lambda>x. x\<lparr>next_ready := None, prev_ready := Some l\<rparr>) s)"
    define s' where "s' = ?s\<lparr>ready_queue_tail := (ready_queue_tail s)(p := Some t)\<rparr>"
    have "queues_ok s' (Q(p := Q p @ [t]))"
    proof (rule queues_change [OF ok p(2)])
      have "next_ready \<circ> threads s' = (next_ready \<circ> threads s)(t := None, l := Some t)"
        "prev_ready \<circ> threads s' = (prev_ready \<circ> threads s)(t := Some l)"
        using h(2) by (auto simp: s'_def)
      then show "dll (next_ready \<circ> threads s') (prev_ready \<circ> threads s') (ready_queue_head s' p) (ready_queue_tail s' p) (Q p @ [t])"
        using D t p h Some by (simp add: s'_def)
      show "\<forall>r<32. r \<noteq> p \<longrightarrow> set (Q p @ [t]) \<inter> set (Q r) = {}" using t queues_disjoint [OF ok p(2)] by auto
    qed (use ok p t h in \<open>auto simp: s'_def queues_ok_def\<close>)
    moreover have "insert_ready_tail t s = Returns s'" using Some lv by (simp add: insert_ready_tail_def s'_def Let_def)
    moreover have "only_links s s'" using h(2) by (simp add: only_links_def s'_def dpc_state.defs upd_thread_def)
    ultimately show ?thesis by blast
  qed
qed

lemma remove_from_ready_queue_fields:
  assumes lv: "level s t = Returns p" and nq: "n = next_ready (threads s t)" "q = prev_ready (threads s t)"
    and nt: "n \<noteq> Some t" "q \<noteq> Some t"
    and ht: "hd' = (if ready_queue_head s p = Some t then n else ready_queue_head s p)"
      "tl' = (if ready_queue_tail s p = Some t then q else ready_queue_tail s p)"
    and th_def: "th = (\<lambda>u. (threads s u)\<lparr>next_ready := put q n (next_ready \<circ> threads s) u, prev_ready := put n q (prev_ready \<circ> threads s) u\<rparr>)"
  shows "\<exists>s'. remove_from_ready_queue t s = Returns s' \<and> threads s' = th
    \<and> ready_queue_head s' = (ready_queue_head s)(p := hd') \<and> ready_queue_tail s' = (ready_queue_tail s)(p := tl')
    \<and> thread_ready_summary s' = (if tl' = None then thread_ready_summary s AND NOT (push_bit p 1) else thread_ready_summary s)
    \<and> self s' = self s \<and> preempt s' = preempt s \<and> threadlist s' = threadlist s \<and> nexttid s' = nexttid s
    \<and> dpc_state.truncate s' = dpc_state.truncate s \<and> sched.more s' = sched.more s"
proof -
  define s1 where "s1 = (case n of None \<Rightarrow> s | Some u \<Rightarrow> upd_thread u (\<lambda>x. x\<lparr>prev_ready := q\<rparr>) s)"
  define s2 where "s2 = (case q of None \<Rightarrow> s1 | Some u \<Rightarrow> upd_thread u (\<lambda>x. x\<lparr>next_ready := n\<rparr>) s1)"
  have A: "next_ready (threads s1 t) = n" "prev_ready (threads s1 t) = q"
    using nt by (auto simp: s1_def nq split: option.splits)
  then have B: "next_ready (threads s2 t) = n" "prev_ready (threads s2 t) = q"
    using nt by (auto simp: s2_def split: option.splits)
  have s2: "s2 = s\<lparr>threads := th\<rparr>"
    by (cases n; cases q) (auto simp: s1_def s2_def th_def upd_thread_def fun_eq_iff)
  have f: "ready_queue_head s2 = ready_queue_head s" "ready_queue_tail s2 = ready_queue_tail s" "threads s2 = th"
    "thread_ready_summary s2 = thread_ready_summary s" by (simp_all add: s2)
  have g: "next_ready (th t) = n" "prev_ready (th t) = q" using B by (simp_all add: s2)
  define s3 where "s3 = (if ready_queue_head s2 p = Some t then s2\<lparr>ready_queue_head := (ready_queue_head s2)(p := n)\<rparr> else s2)"
  have h: "ready_queue_head s3 = (ready_queue_head s)(p := hd')" "ready_queue_tail s3 = ready_queue_tail s" "threads s3 = th"
    "thread_ready_summary s3 = thread_ready_summary s" "prev_ready (threads s3 t) = q" using g by (auto simp: s3_def f ht)
  define s4 where "s4 = (if ready_queue_tail s3 p = Some t then s3\<lparr>ready_queue_tail := (ready_queue_tail s3)(p := q)\<rparr> else s3)"
  have k: "ready_queue_head s4 = (ready_queue_head s)(p := hd')" "ready_queue_tail s4 = (ready_queue_tail s)(p := tl')" "threads s4 = th"
    "thread_ready_summary s4 = thread_ready_summary s" using h by (auto simp: s4_def ht)
  define s5 where "s5 = (if ready_queue_tail s4 p = None then s4\<lparr>thread_ready_summary := thread_ready_summary s4 AND NOT (push_bit p 1)\<rparr> else s4)"
  have "remove_from_ready_queue t s = Returns s5"
    unfolding remove_from_ready_queue_def lv bind_outcome.simps Let_def nq [symmetric] s1_def [symmetric] A s2_def [symmetric] B
      s3_def [symmetric] h(5) s4_def [symmetric] s5_def ..
  moreover have "threads s5 = th" "ready_queue_head s5 = (ready_queue_head s)(p := hd')" "ready_queue_tail s5 = (ready_queue_tail s)(p := tl')"
    "thread_ready_summary s5 = (if tl' = None then thread_ready_summary s AND NOT (push_bit p 1) else thread_ready_summary s)"
    by (simp_all add: s5_def k)
  moreover have "self s5 = self s \<and> preempt s5 = preempt s \<and> threadlist s5 = threadlist s \<and> nexttid s5 = nexttid s
     \<and> dpc_state.truncate s5 = dpc_state.truncate s \<and> sched.more s5 = sched.more s"
    by (simp add: s5_def s4_def s3_def s2 dpc_state.defs)
  ultimately show ?thesis by blast
qed

lemma remove_from_ready_queue_law:
  assumes ok: "queues_ok s Q" and p: "p < 32" and t: "t \<in> set (Q p)"
  shows "\<exists>s'. remove_from_ready_queue t s = Returns s' \<and> queues_ok s' (Q(p := remove1 t (Q p))) \<and> only_links s s'"
proof -
  have d: "dll (next_ready \<circ> threads s) (prev_ready \<circ> threads s) (ready_queue_head s p) (ready_queue_tail s p) (Q p)"
    and pr: "priority (threads s t) = int p" using ok p t by (auto simp: queues_ok_def)
  have lv: "level s t = Returns p" using p pr by (simp add: level_def)
  define n q where nq: "n = next_ready (threads s t)" "q = prev_ready (threads s t)"
  have nt: "n \<noteq> Some t" "q \<noteq> Some t" using dll_no_loop [OF d t] by (simp_all add: nq)
  have nb: "u \<in> set (Q p)" if "n = Some u \<or> q = Some u" for u
    using dll_neighbours [OF d t, of u] that by (auto simp: nq)
  define hd' tl' where ht: "hd' = (if ready_queue_head s p = Some t then n else ready_queue_head s p)"
    "tl' = (if ready_queue_tail s p = Some t then q else ready_queue_tail s p)"
  define th where "th = (\<lambda>u. (threads s u)\<lparr>next_ready := put q n (next_ready \<circ> threads s) u, prev_ready := put n q (prev_ready \<circ> threads s) u\<rparr>)"
  have D: "dll (put q n (next_ready \<circ> threads s)) (put n q (prev_ready \<circ> threads s)) hd' tl' (remove1 t (Q p))"
    using dll_remove [OF d t] unfolding nq ht comp_apply .
  have sr: "set (remove1 t (Q p)) = set (Q p) - {t}" by (rule set_remove1_eq [OF dll_distinct [OF d]])
  obtain s' where R: "remove_from_ready_queue t s = Returns s'" "threads s' = th"
    "ready_queue_head s' = (ready_queue_head s)(p := hd')" "ready_queue_tail s' = (ready_queue_tail s)(p := tl')"
    "thread_ready_summary s' = (if tl' = None then thread_ready_summary s AND NOT (push_bit p 1) else thread_ready_summary s)"
    "self s' = self s \<and> preempt s' = preempt s \<and> threadlist s' = threadlist s \<and> nexttid s' = nexttid s
       \<and> dpc_state.truncate s' = dpc_state.truncate s \<and> sched.more s' = sched.more s"
    using remove_from_ready_queue_fields [OF lv nq nt ht th_def] by blast
  have "queues_ok s' (Q(p := remove1 t (Q p)))"
  proof (rule queues_change [OF ok p])
    have "next_ready \<circ> threads s' = put q n (next_ready \<circ> threads s)" "prev_ready \<circ> threads s' = put n q (prev_ready \<circ> threads s)"
      by (auto simp: R th_def)
    then show "dll (next_ready \<circ> threads s') (prev_ready \<circ> threads s') (ready_queue_head s' p) (ready_queue_tail s' p) (remove1 t (Q p))"
      using D by (simp add: R)
    show "\<forall>u. u \<notin> set (Q p) \<union> set (remove1 t (Q p)) \<longrightarrow> next_ready (threads s' u) = next_ready (threads s u)
        \<and> prev_ready (threads s' u) = prev_ready (threads s u) \<and> priority (threads s' u) = priority (threads s u)"
      using nb by (auto simp: R th_def put_def split: option.splits)
    show "\<forall>r<32. r \<noteq> p \<longrightarrow> set (remove1 t (Q p)) \<inter> set (Q r) = {}"
      using queues_disjoint [OF ok p] unfolding sr by blast
    have "tl' = None \<longleftrightarrow> remove1 t (Q p) = []" using dll_empty_iff [OF D] by simp
    moreover have "Q p \<noteq> []" using t by auto
    then have "bit (thread_ready_summary s) p" using ok p by (simp add: queues_ok_def)
    ultimately show "\<forall>r<32. bit (thread_ready_summary s') r \<longleftrightarrow> (if r = p then remove1 t (Q p) \<noteq> [] else bit (thread_ready_summary s) r)"
      using p by (auto simp: R)
    show "\<forall>u\<in>set (remove1 t (Q p)). priority (threads s' u) = int p"
      using ok p unfolding sr by (simp add: R th_def queues_ok_def)
  qed (simp add: R)
  moreover have "only_links s s'" by (simp add: only_links_def R th_def)
  ultimately show ?thesis using R(1) by blast
qed

lemma queues_empty:
  assumes "queues_ok s Q" "\<forall>p<32. Q p = []"
  shows "thread_ready_summary s = 0"
proof (rule bit_word_eqI)
  fix n assume "n < LENGTH(32)"
  then show "bit (thread_ready_summary s) n = bit 0 n" using assms by (simp add: queues_ok_def)
qed

lemma next_ready_none:
  "queues_ok s Q \<Longrightarrow> \<forall>p<32. Q p = [] \<Longrightarrow> next_ready_thread s = Returns (None, s)"
  using queues_empty [of s Q] by (simp add: next_ready_thread_def)

lemma next_ready_law:
  assumes ok: "queues_ok s Q" and p: "p < 32" "Q p = t # q" and top: "\<forall>r<32. p < r \<longrightarrow> Q r = []"
  shows "\<exists>s'. next_ready_thread s = Returns (Some t, s') \<and> queues_ok s' (Q(p := q)) \<and> only_links s s'"
proof -
  have d: "dll (next_ready \<circ> threads s) (prev_ready \<circ> threads s) (ready_queue_head s p) (ready_queue_tail s p) (t # q)"
    and b: "bit (thread_ready_summary s) p" using ok p by (auto simp: queues_ok_def)
  have nz: "thread_ready_summary s \<noteq> 0" using b by auto
  have hb: "find_highest_bit (thread_ready_summary s) = p"
  proof (rule antisym)
    note H = find_highest_bit_law [OF nz]
    show "find_highest_bit (thread_ready_summary s) \<le> p"
      using H(1,2) ok top unfolding queues_ok_def by (metis not_le)
    show "p \<le> find_highest_bit (thread_ready_summary s)" using b by (rule H(3))
  qed
  have h: "ready_queue_head s p = Some t" using dll_head [OF d] by simp
  note P = dll_pop [OF d]
  have tq: "t \<notin> set q" using dll_distinct [OF d] by simp
  define n where "n = next_ready (threads s t)"
  define s' where "s' = upd_thread t (\<lambda>x. x\<lparr>next_ready := None, prev_ready := None\<rparr>)
     (case n of None \<Rightarrow> s\<lparr>ready_queue_head := (ready_queue_head s)(p := None), ready_queue_tail := (ready_queue_tail s)(p := None),
                           thread_ready_summary := thread_ready_summary s AND NOT (push_bit p 1)\<rparr>
      | Some u \<Rightarrow> (upd_thread u (\<lambda>x. x\<lparr>prev_ready := None\<rparr>) s)\<lparr>ready_queue_head := (ready_queue_head s)(p := Some u)\<rparr>)"
  have e: "next_ready_thread s = Returns (Some t, s')"
    using nz hb h by (auto simp: next_ready_thread_def Let_def s'_def n_def split: option.splits)
  have nq: "n = first q None" using P(1) by (simp add: n_def)
  have nt: "n \<noteq> Some t" "\<And>u. n = Some u \<Longrightarrow> u \<in> set q" using tq nq by (cases q; auto)+
  have "queues_ok s' (Q(p := q))"
  proof (rule queues_change [OF ok p(1)])
    have "next_ready \<circ> threads s' = (next_ready \<circ> threads s)(t := None)"
      "prev_ready \<circ> threads s' = (put n None (prev_ready \<circ> threads s))(t := None)"
      using nt(1) by (cases n; auto simp: s'_def)+
    moreover have "ready_queue_head s' p = n" "ready_queue_tail s' p = (if q = [] then None else ready_queue_tail s p)"
      using nq by (cases q; auto simp: s'_def)+
    ultimately show "dll (next_ready \<circ> threads s') (prev_ready \<circ> threads s') (ready_queue_head s' p) (ready_queue_tail s' p) q"
      using P(2) tq by (simp add: n_def)
    show "\<forall>u\<in>set q. priority (threads s' u) = int p" using ok p by (cases n) (auto simp: s'_def queues_ok_def)
    show "\<forall>u. u \<notin> set (Q p) \<union> set q \<longrightarrow> next_ready (threads s' u) = next_ready (threads s u)
        \<and> prev_ready (threads s' u) = prev_ready (threads s u) \<and> priority (threads s' u) = priority (threads s u)"
      using nt p by (cases n) (auto simp: s'_def)
    show "\<forall>r<32. r \<noteq> p \<longrightarrow> set q \<inter> set (Q r) = {}" using queues_disjoint [OF ok p(1)] p(2) by (metis disjoint_iff list.set_intros(2))
    show "\<forall>r. r \<noteq> p \<longrightarrow> ready_queue_head s' r = ready_queue_head s r \<and> ready_queue_tail s' r = ready_queue_tail s r"
      by (cases n) (simp_all add: s'_def)
    show "\<forall>r<32. bit (thread_ready_summary s') r \<longleftrightarrow> (if r = p then q \<noteq> [] else bit (thread_ready_summary s) r)"
      using nq b p by (cases q) (auto simp: s'_def)
  qed
  moreover have "only_links s s'" using nt(1) by (cases n) (auto simp: only_links_def s'_def dpc_state.defs upd_thread_def)
  ultimately show ?thesis using e by blast
qed

section \<open>Becoming ready\<close>

lemma queues_threads:
  assumes "queues_ok s Q" "\<forall>p<32. t \<notin> set (Q p)"
  shows "queues_ok (upd_thread t f s) Q"
  unfolding queues_ok_def
proof (intro allI impI)
  fix p :: nat assume p: "p < 32"
  have "dll (next_ready \<circ> threads (upd_thread t f s)) (prev_ready \<circ> threads (upd_thread t f s)) (ready_queue_head s p) (ready_queue_tail s p) (Q p)
     = dll (next_ready \<circ> threads s) (prev_ready \<circ> threads s) (ready_queue_head s p) (ready_queue_tail s p) (Q p)"
    using assms(2) p by (intro dll_cong) auto
  then show "dll (next_ready \<circ> threads (upd_thread t f s)) (prev_ready \<circ> threads (upd_thread t f s))
        (ready_queue_head (upd_thread t f s) p) (ready_queue_tail (upd_thread t f s) p) (Q p)
        \<and> (\<forall>u\<in>set (Q p). priority (threads (upd_thread t f s) u) = int p)
        \<and> (bit (thread_ready_summary (upd_thread t f s)) p \<longleftrightarrow> Q p \<noteq> [])"
    using assms p by (auto simp: queues_ok_def)
qed

lemma not_queued: "sched_inv s Q \<Longrightarrow> t_state (threads s t) \<noteq> READY \<Longrightarrow> \<forall>p<32. t \<notin> set (Q p)"
  by (auto simp: sched_inv_def ready_exact_def)

lemma boosted_range: "prio_ok s \<Longrightarrow> 0 \<le> boost \<Longrightarrow> 0 \<le> boosted (threads s t) boost \<and> boosted (threads s t) boost < 32"
  by (simp add: boosted_def prio_ok_def Let_def)

lemma readied_fields:
  "t_state (readied x c b) = READY" "base_priority (readied x c b) = base_priority x"
  "waitlist (readied x c b) = waitlist x" "waitkey (readied x c b) = waitkey x"
  "prio_ok s \<Longrightarrow> 0 \<le> b \<Longrightarrow> 0 \<le> priority (readied (threads s t) c b) \<and> priority (readied (threads s t) c b) < 32"
proof -
  show "t_state (readied x c b) = READY" "base_priority (readied x c b) = base_priority x"
    "waitlist (readied x c b) = waitlist x" "waitkey (readied x c b) = waitkey x"
    by (simp_all add: readied_def decayed_def Let_def)
  assume a: "prio_ok s" "0 \<le> b"
  have "0 \<le> base_priority (threads s t)" using a(1) by (simp add: prio_ok_def)
  then show "0 \<le> priority (readied (threads s t) c b) \<and> priority (readied (threads s t) c b) < 32"
    using boosted_range [OF a, of t] by (auto simp: readied_def decayed_def Let_def)
qed

lemma kthread_ready_law:
  fixes s :: "'a sched_scheme"
  assumes inv: "sched_inv s Q" and t: "t_state (threads s t) \<noteq> READY" "\<not> suspend_count (threads s t) > 0" and boost: "0 \<le> boost"
  shows "\<exists>s'. kthread_ready t charge boost s = Returns s' \<and> sched_inv s' (entered t (threads s t) charge boost Q)
     \<and> only_links (upd_thread t (\<lambda>x. readied x charge boost) s) (s'\<lparr>preempt := preempt s\<rparr>)
     \<and> (preempt s' \<longleftrightarrow> preempt s \<or> priority (threads s' t) > priority (threads s' (self s)))"
proof -
  let ?r = "readied (threads s t) charge boost" and ?s = "upd_thread t (\<lambda>x. readied x charge boost) s"
  have pr: "prio_ok s" and ex: "ready_exact s Q" and ok: "queues_ok s Q" using inv by (simp_all add: sched_inv_def)
  define p where "p = nat (priority ?r)"
  have p: "priority (threads ?s t) = int p" "p < 32" using readied_fields(5) [OF pr boost, of t charge] by (auto simp: p_def)
  note nq = not_queued [OF inv t(1)]
  have ok': "queues_ok ?s Q" using queues_threads [OF ok nq] .
  define ins :: "'a sched_scheme \<Rightarrow> 'a sched_scheme outcome" where "ins = (if quantum (threads s t) > charge then insert_ready_head t else insert_ready_tail t)"
  obtain s1 where I: "ins ?s = Returns s1" "queues_ok s1 (entered t (threads s t) charge boost Q)" "only_links ?s s1"
    using insert_ready_head_law [OF ok' p nq] insert_ready_tail_law [OF ok' p nq]
    unfolding ins_def entered_def Let_def p_def [symmetric] by (cases "quantum (threads s t) > charge") auto
  have run: "kthread_ready t charge boost s
     = Returns (if priority (threads s1 t) > priority (threads s1 (self s1)) then s1\<lparr>preempt := True\<rparr> else s1)"
  proof -
    have e: "?s = (let s = upd_thread t (\<lambda>x. x\<lparr>t_state := READY\<rparr>) (upd_thread t (\<lambda>x. x\<lparr>priority := boosted x boost\<rparr>)
         (upd_thread t (\<lambda>x. x\<lparr>quantum := quantum x - charge\<rparr>) s)) in
        if quantum (threads s t) > 0 then s else upd_thread t decayed s)"
      by (simp add: upd_thread_def readied_def Let_def boosted_def)
    show ?thesis using t I(1) unfolding e ins_def by (auto simp: kthread_ready_def Let_def split: if_splits)
  qed
  note F = only_links_fields [OF I(3)]
  have "prio_ok s1" unfolding prio_ok_def F using pr readied_fields(5) [OF pr boost] by (auto simp: prio_ok_def readied_fields(2))
  moreover have "ready_exact s1 (entered t (threads s t) charge boost Q)"
    unfolding ready_exact_def F using ex p(2)
    by (auto simp: readied_fields entered_def Let_def p_def [symmetric] ready_exact_def)
  ultimately have "sched_inv s1 (entered t (threads s t) charge boost Q)" using I(2) by (simp add: sched_inv_def)
  moreover have "sched_inv (s1\<lparr>preempt := True\<rparr>) Q' = sched_inv s1 Q'" for Q'
    by (simp add: sched_inv_def queues_ok_def ready_exact_def prio_ok_def)
  moreover have "self s1 = self s" "preempt s1 = preempt s" using I(3) by (simp_all add: only_links_def)
  moreover have "only_links ?s (s1\<lparr>preempt := preempt s\<rparr>)" using I(3) by (simp add: only_links_def dpc_state.defs)
  ultimately show ?thesis using run by auto
qed

section \<open>Dispatching\<close>

lemma highest_queue:
  assumes "\<exists>p<32. Q p \<noteq> []"
  obtains p t q where "p < (32::nat)" "Q p = t # q" "\<forall>r<32. p < r \<longrightarrow> Q r = []"
proof -
  let ?S = "{p. p < 32 \<and> Q p \<noteq> []}"
  have fin: "finite ?S" "?S \<noteq> {}" using assms by auto
  define p where "p = Max ?S"
  have "p \<in> ?S" using Max_in [OF fin] by (simp add: p_def)
  moreover have "Q r = []" if "r < 32" "p < r" for r
  proof (rule ccontr)
    assume "Q r \<noteq> []"
    then have "r \<le> p" using Max_ge [OF fin(1), of r] that by (simp add: p_def)
    then show False using that(2) by simp
  qed
  ultimately show thesis using that by (cases "Q p") auto
qed

lemma dispatch_law:
  fixes s :: "'a sched_scheme"
  assumes sw: "switching s Q" and p: "p < 32" "Q p = t # q" and top: "\<forall>r<32. p < r \<longrightarrow> Q r = []"
  shows "\<exists>s'. ksched_dispatch direct_cpu s = Returns s' \<and> self s' = t \<and> system_inv s' (Q(p := q)) \<and> \<not> preempt s'
     \<and> dpc_queue_head s' = None \<and> (\<forall>u. priority (threads s' u) = priority (threads s u) \<and> base_priority (threads s' u) = base_priority (threads s u))"
proof -
  let ?s = "s\<lparr>preempt := False\<rparr>"
  have inv: "sched_inv s Q" and d: "dpc_queue_head s = None" using sw by (simp_all add: switching_def)
  have "queues_ok ?s Q" using inv by (simp add: sched_inv_def queues_ok_def)
  from next_ready_law [OF this p top] obtain s1 where N: "next_ready_thread ?s = Returns (Some t, s1)"
    "queues_ok s1 (Q(p := q))" "only_links ?s s1" by blast
  note F = only_links_fields [OF N(3)]
  have self1: "self s1 = self s" "preempt s1 = False" using N(3) by (simp_all add: only_links_def)
  have tq: "t \<notin> set q" "t_state (threads s t) = READY" using inv p by (auto simp: sched_inv_def queues_ok_def ready_exact_def dll_def)
  have nt: "t \<notin> set ((Q(p := q)) r)" if "r < 32" for r
    using queues_disjoint [of s Q p r t] inv p that tq by (auto simp: sched_inv_def)
  define s2 where "s2 = (if t = self s then upd_thread t (\<lambda>x. x\<lparr>t_state := RUNNING\<rparr>) s1
     else kthread_mark_running ((if t_flags (threads s1 (self s)) AND THREAD_FPU_ENABLED \<noteq> 0
        then upd_thread t (\<lambda>x. x\<lparr>t_flags := t_flags x AND NOT THREAD_FPU_ENABLED\<rparr>) s1 else s1)\<lparr>self := t\<rparr>))"
  have run: "ksched_dispatch direct_cpu s = Returns s2"
    using N(1) d by (simp add: ksched_dispatch_def s2_def direct_cpu_def Let_def)
  have th: "threads s2 u = threads s1 u" if "u \<noteq> t" for u
    using that by (simp add: s2_def kthread_mark_running_def)
  have tt: "t_state (threads s2 t) = RUNNING" "priority (threads s2 t) = priority (threads s1 t)"
     "base_priority (threads s2 t) = base_priority (threads s1 t)" "suspend_count (threads s2 t) = suspend_count (threads s1 t)"
    by (simp_all add: s2_def kthread_mark_running_def)
  have rest: "self s2 = t" "preempt s2 = False" "ready_queue_head s2 = ready_queue_head s1" "ready_queue_tail s2 = ready_queue_tail s1"
    "thread_ready_summary s2 = thread_ready_summary s1" using self1 by (auto simp: s2_def kthread_mark_running_def)
  have st: "t_state (threads s2 u) = (if u = t then RUNNING else t_state (threads s u))"
    "suspend_count (threads s2 u) = suspend_count (threads s u)" "priority (threads s2 u) = priority (threads s u)"
    "base_priority (threads s2 u) = base_priority (threads s u)" for u
    using th [of u] tt F [of u] F [of t] by (cases "u = t"; simp)+
  have "queues_ok s2 (Q(p := q))"
  proof -
    have "queues_ok s2 (Q(p := q)) = queues_ok s1 (Q(p := q))"
      unfolding queues_ok_def rest
    proof (intro all_cong1 imp_cong conj_cong refl)
      fix r :: nat assume r: "r < 32"
      show "dll (next_ready \<circ> threads s2) (prev_ready \<circ> threads s2) (ready_queue_head s1 r) (ready_queue_tail s1 r) ((Q(p := q)) r)
        = dll (next_ready \<circ> threads s1) (prev_ready \<circ> threads s1) (ready_queue_head s1 r) (ready_queue_tail s1 r) ((Q(p := q)) r)"
        using nt [OF r] th by (intro dll_cong) (metis comp_apply)
      show "(\<forall>u\<in>set ((Q(p := q)) r). priority (threads s2 u) = int r) = (\<forall>u\<in>set ((Q(p := q)) r). priority (threads s1 u) = int r)"
        using st(3) F(1) by simp
    qed
    then show ?thesis using N(2) by simp
  qed
  moreover have "(\<exists>r<32. u \<in> set ((Q(p := q)) r)) \<longleftrightarrow> (\<exists>r<32. u \<in> set (Q r)) \<and> u \<noteq> t" for u
  proof
    assume "\<exists>r<32. u \<in> set ((Q(p := q)) r)"
    then obtain r where r: "r < 32" "u \<in> set ((Q(p := q)) r)" by blast
    then have "u \<noteq> t" using nt [of r] by blast
    moreover have "u \<in> set (Q r)" using r(2) p by (auto split: if_splits)
    ultimately show "(\<exists>r<32. u \<in> set (Q r)) \<and> u \<noteq> t" using r(1) by blast
  next
    assume "(\<exists>r<32. u \<in> set (Q r)) \<and> u \<noteq> t"
    then obtain r where "r < 32" "u \<in> set (Q r)" "u \<noteq> t" by blast
    then show "\<exists>r<32. u \<in> set ((Q(p := q)) r)" using p by (intro exI [of _ r]) auto
  qed
  then have "ready_exact s2 (Q(p := q))"
    unfolding ready_exact_def st using inv by (auto simp: sched_inv_def ready_exact_def)
  moreover have "prio_ok s2" using inv by (simp add: sched_inv_def prio_ok_def st)
  ultimately have "system_inv s2 (Q(p := q))"
    using sw tq by (auto simp: system_inv_def sched_inv_def switching_def st rest)
  moreover have "dpc_queue_head s2 = None" using N(3) d by (auto simp: only_links_def dpc_state.defs s2_def kthread_mark_running_def)
  ultimately show ?thesis using run rest st by blast
qed

section \<open>The steps of the system\<close>

lemma thread_update_inv:
  assumes inv: "sched_inv s Q" and st: "t_state (threads s t) \<noteq> READY" "t_state (f (threads s t)) \<noteq> READY"
    and pr: "0 \<le> priority (f (threads s t)) \<and> priority (f (threads s t)) < 32
       \<and> 0 \<le> base_priority (f (threads s t)) \<and> base_priority (f (threads s t)) < 32"
  shows "sched_inv (upd_thread t f s) Q"
proof -
  have "queues_ok (upd_thread t f s) Q" using inv queues_threads not_queued [OF inv st(1)] by (auto simp: sched_inv_def)
  then show ?thesis using inv st pr by (auto simp: sched_inv_def ready_exact_def prio_ok_def)
qed

lemma ready_inv:
  assumes inv: "system_inv s Q" and t: "t \<noteq> self s" and b: "0 \<le> boost" and run: "kthread_ready t charge boost s = Returns s'"
  shows "\<exists>Q'. system_inv s' Q'"
proof -
  have sch: "sched_inv s Q" and nr: "t_state (threads s t) \<noteq> RUNNING" using inv t by (auto simp: system_inv_def)
  consider (susp) "suspend_count (threads s t) > 0" | (intr) "\<not> suspend_count (threads s t) > 0" "s' = s"
    | (new) "\<not> suspend_count (threads s t) > 0" "t_state (threads s t) \<noteq> READY"
    using run by (auto simp: kthread_ready_def Let_def split: if_splits)
  then show ?thesis
  proof cases
    case susp
    then have "s' = upd_thread t (\<lambda>x. x\<lparr>t_state := SUSPENDED\<rparr>) s" using run by (simp add: kthread_ready_def)
    moreover have "t_state (threads s t) \<noteq> READY" using susp inv by (simp add: system_inv_def)
    then have "sched_inv (upd_thread t (\<lambda>x. x\<lparr>t_state := SUSPENDED\<rparr>) s) Q"
      using sch by (intro thread_update_inv) (auto simp: sched_inv_def prio_ok_def)
    ultimately show ?thesis using inv nr t by (auto simp: system_inv_def intro!: exI [of _ Q])
  next
    case intr
    then show ?thesis using inv by blast
  next
    case new
    obtain Q' where R: "sched_inv s' Q'" "only_links (upd_thread t (\<lambda>x. readied x charge boost) s) (s'\<lparr>preempt := preempt s\<rparr>)"
      using kthread_ready_law [OF sch new(2,1) b, of charge] run by auto
    note F = only_links_fields [OF R(2), simplified]
    have "self s' = self s" using R(2) by (simp add: only_links_def)
    moreover have "t_state (readied x c d) = READY" "suspend_count (readied x c d) = suspend_count x" for x c d
      by (simp_all add: readied_def decayed_def Let_def)
    ultimately have "system_inv s' Q'" using inv R(1) new t by (auto simp: system_inv_def F)
    then show ?thesis by blast
  qed
qed

lemma readied_more: "suspend_count (readied x c b) = suspend_count x"
  by (simp add: readied_def decayed_def Let_def)

lemma self_running: "system_inv s Q \<Longrightarrow> t_state (threads s (self s)) = RUNNING"
  by (simp add: system_inv_def)

lemma not_self: "system_inv s Q \<Longrightarrow> t_state (threads s t) \<noteq> RUNNING \<Longrightarrow> t \<noteq> self s"
  by (simp add: system_inv_def)

text \<open>A change of a thread that keeps its state and its priorities.\<close>

lemma upd_keeps_sched:
  assumes inv: "sched_inv s Q"
    and f: "\<And>x. t_state (f x) = t_state x \<and> priority (f x) = priority x \<and> base_priority (f x) = base_priority x
        \<and> next_ready (f x) = next_ready x \<and> prev_ready (f x) = prev_ready x"
  shows "sched_inv (upd_thread t f s) Q"
proof -
  have e: "next_ready \<circ> threads (upd_thread t f s) = next_ready \<circ> threads s" "prev_ready \<circ> threads (upd_thread t f s) = prev_ready \<circ> threads s"
    "priority (threads (upd_thread t f s) u) = priority (threads s u)" "base_priority (threads (upd_thread t f s) u) = base_priority (threads s u)"
    "t_state (threads (upd_thread t f s) u) = t_state (threads s u)" for u
    using f by (auto simp: fun_eq_iff)
  show ?thesis
    using inv unfolding sched_inv_def queues_ok_def ready_exact_def prio_ok_def e upd_thread_simps(3-5) by blast
qed

lemma upd_keeps_inv:
  assumes inv: "system_inv s Q"
    and f: "\<And>x. t_state (f x) = t_state x \<and> priority (f x) = priority x \<and> base_priority (f x) = base_priority x
        \<and> next_ready (f x) = next_ready x \<and> prev_ready (f x) = prev_ready x"
    and sus: "suspend_count (f (threads s t)) > 0 \<longrightarrow> t_state (threads s t) \<noteq> READY \<and> t_state (threads s t) \<noteq> RUNNING"
  shows "system_inv (upd_thread t f s) Q"
proof -
  have "sched_inv (upd_thread t f s) Q" using inv f by (intro upd_keeps_sched) (auto simp: system_inv_def)
  moreover have "t_state (threads (upd_thread t f s) u) = t_state (threads s u)" for u using f by simp
  ultimately show ?thesis using inv sus unfolding system_inv_def by (auto split: if_splits)
qed

lemma interrupt_inv:
  assumes inv: "system_inv s Q" and run: "kthread_interrupt t s = Returns (rc, s')"
  shows "\<exists>Q'. system_inv s' Q'"
proof (cases "t_state (threads s t) = WAITING \<and> t_flags (threads s t) AND THREAD_ALERTABLE \<noteq> 0")
  case True
  let ?s = "upd_thread t (\<lambda>x. x\<lparr>t_flags := t_flags x OR THREAD_INTERRUPTED\<rparr>) s"
  have "system_inv ?s Q" using inv True by (intro upd_keeps_inv) (auto simp: system_inv_def)
  moreover have "t \<noteq> self ?s" using not_self [OF inv, of t] True by simp
  moreover have "kthread_ready t 1 1 ?s = Returns s'" using run True by (auto simp: kthread_interrupt_def bind_outcome_Returns_iff)
  ultimately show ?thesis by (intro ready_inv [of ?s Q t 1 1 s']) auto
next
  case False
  then show ?thesis using run inv by (auto simp: kthread_interrupt_def split: if_splits)
qed

lemma resume_inv:
  assumes inv: "system_inv s Q" and run: "kthread_resume t s = Returns (n, s')"
  shows "\<exists>Q'. system_inv s' Q'"
proof (cases "suspend_count (threads s t) > 0")
  case True
  let ?s = "upd_thread t (\<lambda>x. x\<lparr>suspend_count := suspend_count x - 1\<rparr>) s"
  have i: "system_inv ?s Q" using inv True by (intro upd_keeps_inv) (auto simp: system_inv_def)
  show ?thesis
  proof (cases "suspend_count (threads ?s t) = 0 \<and> (t_state (threads ?s t) = SUSPENDED \<or> t_state (threads ?s t) = INITIALIZED)")
    case go: True
    then have "kthread_ready t 0 0 ?s = Returns s'" using run True by (auto simp: kthread_resume_def Let_def bind_outcome_Returns_iff split: if_splits)
    moreover have "t \<noteq> self ?s" using not_self [OF i, of t] go by auto
    ultimately show ?thesis using i by (intro ready_inv [of ?s Q t 0 0 s']) auto
  next
    case False
    then have "s' = ?s" using run True by (auto simp: kthread_resume_def Let_def split: if_splits)
    then show ?thesis using i by blast
  qed
next
  case False
  then show ?thesis using run inv by (auto simp: kthread_resume_def Let_def)
qed

lemma dispatch_inv:
  assumes sw: "switching s Q" and run: "ksched_dispatch direct_cpu s = Returns s'"
  shows "\<exists>Q'. system_inv s' Q'"
proof (cases "\<exists>p<32. Q p \<noteq> []")
  case True
  then obtain p t q where "p < 32" "Q p = t # q" "\<forall>r<32. p < r \<longrightarrow> Q r = []" by (rule highest_queue)
  from dispatch_law [OF sw this] obtain s1 where "ksched_dispatch direct_cpu s = Returns s1" "system_inv s1 (Q(p := q))" by blast
  then show ?thesis using run by auto
next
  case False
  let ?s = "s\<lparr>preempt := False\<rparr>"
  have "queues_ok ?s Q" using sw by (simp add: switching_def sched_inv_def queues_ok_def)
  then have "next_ready_thread ?s = Returns (None, ?s)" using next_ready_none False by blast
  then show ?thesis using run sw by (simp add: ksched_dispatch_def switching_def Let_def)
qed

lemma leave_running:
  assumes inv: "system_inv s Q" and d: "dpc_queue_head s = None" and f: "t_state (f (threads s (self s))) \<noteq> READY" "t_state (f (threads s (self s))) \<noteq> RUNNING"
    and pr: "priority (f (threads s (self s))) = priority (threads s (self s)) \<and> base_priority (f (threads s (self s))) = base_priority (threads s (self s))"
  shows "switching (upd_thread (self s) f s) Q"
proof -
  have st: "t_state (threads s (self s)) = RUNNING" using inv by (simp add: system_inv_def)
  have sch: "sched_inv s Q" "prio_ok s" using inv by (simp_all add: system_inv_def sched_inv_def)
  have "sched_inv (upd_thread (self s) f s) Q"
    by (rule thread_update_inv [OF sch(1)]) (use st f pr sch(2) in \<open>simp_all add: prio_ok_def\<close>)
  moreover have "t_state (threads (upd_thread (self s) f s) u) \<noteq> RUNNING" for u using inv f by (simp add: system_inv_def)
  moreover have "t_state (threads (upd_thread (self s) f s) u) \<noteq> READY" if "suspend_count (threads (upd_thread (self s) f s) u) > 0" for u
    using that inv f by (simp add: system_inv_def split: if_splits)
  ultimately show ?thesis using d by (simp add: switching_def)
qed

lemma enter_and_switch:
  assumes inv: "system_inv s Q" and d: "dpc_queue_head s = None" 
    and run: "kthread_ready (self s) charge 0 (upd_thread (self s) f s) = Returns s'"
    and f: "\<And>x. t_state (f x) = t_state x \<and> priority (f x) = priority x \<and> base_priority (f x) = base_priority x
        \<and> next_ready (f x) = next_ready x \<and> prev_ready (f x) = prev_ready x \<and> suspend_count (f x) = suspend_count x"
  shows "switching s' (entered (self s) (f (threads s (self s))) charge 0 Q)"
proof -
  let ?s = "upd_thread (self s) f s"
  have sus: "\<not> suspend_count (threads s (self s)) > 0" "t_state (threads s (self s)) = RUNNING" using inv by (auto simp: system_inv_def)
  have i: "system_inv ?s Q" using inv f sus by (intro upd_keeps_inv) auto
  have nr: "t_state (threads ?s (self s)) \<noteq> READY" "\<not> suspend_count (threads ?s (self s)) > 0" using f sus by simp_all
  have sch: "sched_inv ?s Q" using i by (simp add: system_inv_def)
  have R: "sched_inv s' (entered (self s) (threads ?s (self s)) charge 0 Q)"
    "only_links (upd_thread (self s) (\<lambda>x. readied x charge 0) ?s) (s'\<lparr>preempt := preempt ?s\<rparr>)"
    using kthread_ready_law [OF sch nr, of 0 charge] run by simp_all
  note F = only_links_fields [OF R(2)]
  have st: "t_state (threads s' u) = (if u = self s then READY else t_state (threads s u))"
    "suspend_count (threads s' u) = suspend_count (threads s u)" for u
    using F(3,6) [of u] f by (simp_all add: readied_fields readied_more)
  have "dpc_queue_head s' = None" using R(2) d by (simp add: only_links_def dpc_state.defs)
  moreover have "sched_inv s' (entered (self s) (f (threads s (self s))) charge 0 Q)" using R(1) by simp
  moreover have "t_state (threads s' u) \<noteq> RUNNING" for u using st(1) [of u] inv by (simp add: system_inv_def)
  moreover have "t_state (threads s' u) \<noteq> READY" if "suspend_count (threads s' u) > 0" for u
    using st [of u] sus(1) inv that by (auto simp: system_inv_def split: if_splits)
  ultimately show ?thesis by (simp add: switching_def)
qed

lemma exact_without:
  assumes ok: "queues_ok s Q" and p: "p < 32" and t: "t \<in> set (Q p)" and u: "u \<noteq> t"
  shows "(\<exists>r<32. u \<in> set ((Q(p := remove1 t (Q p))) r)) \<longleftrightarrow> (\<exists>r<32. u \<in> set (Q r))"
proof -
  have "set (remove1 t (Q p)) = set (Q p) - {t}"
    using ok p by (intro set_remove1_eq) (auto simp: queues_ok_def dll_def)
  then show ?thesis using u p by (auto split: if_splits)
qed

lemma unready:
  assumes inv: "sched_inv s Q" "\<forall>u. t_state (threads s u) = RUNNING \<longleftrightarrow> u = self s"
      "\<forall>u. u \<noteq> t \<longrightarrow> suspend_count (threads s u) > 0 \<longrightarrow> t_state (threads s u) \<noteq> READY \<and> t_state (threads s u) \<noteq> RUNNING"
    and t: "t_state (threads s t) = READY"
    and f: "t_state (f (threads s t)) \<noteq> READY" "t_state (f (threads s t)) \<noteq> RUNNING"
    and pr: "0 \<le> priority (f (threads s t)) \<and> priority (f (threads s t)) < 32
       \<and> 0 \<le> base_priority (f (threads s t)) \<and> base_priority (f (threads s t)) < 32"
    and links: "\<And>x n q. f (x\<lparr>next_ready := n, prev_ready := q\<rparr>) = (f x)\<lparr>next_ready := n, prev_ready := q\<rparr>"
  shows "\<exists>s1 Q'. remove_from_ready_queue t s = Returns s1 \<and> system_inv (upd_thread t f s1) Q' \<and> self s1 = self s"
proof -
  have sch: "queues_ok s Q" "ready_exact s Q" "prio_ok s" using inv by (simp_all add: sched_inv_def)
  obtain p where p: "p < 32" "t \<in> set (Q p)" using sch(2) t by (auto simp: ready_exact_def)
  obtain s1 where R: "remove_from_ready_queue t s = Returns s1" "queues_ok s1 (Q(p := remove1 t (Q p)))" "only_links s s1"
    using remove_from_ready_queue_law [OF sch(1) p] by blast
  let ?Q = "Q(p := remove1 t (Q p))"
  note F = only_links_fields [OF R(3)]
  obtain a b where e: "threads s1 t = (threads s t)\<lparr>next_ready := a, prev_ready := b\<rparr>" using R(3) unfolding only_links_def by blast
  have ft: "t_state (f (threads s1 t)) = t_state (f (threads s t))" "priority (f (threads s1 t)) = priority (f (threads s t))"
    "base_priority (f (threads s1 t)) = base_priority (f (threads s t))"
    unfolding e links by simp_all
  have out: "t \<notin> set (?Q r)" if "r < 32" for r
    using queues_disjoint [OF sch(1) p(1) that p(2)] sch(1) p(1) by (auto simp: queues_ok_def dll_def)
  have q2: "queues_ok (upd_thread t f s1) ?Q" using R(2) out by (intro queues_threads) auto
  have "ready_exact (upd_thread t f s1) ?Q"
    unfolding ready_exact_def
  proof
    fix u show "t_state (threads (upd_thread t f s1) u) = READY \<longleftrightarrow> (\<exists>r<32. u \<in> set (?Q r))"
    proof (cases "u = t")
      case True
      then show ?thesis using ft f out by auto
    next
      case False
      then show ?thesis using exact_without [OF sch(1) p False] sch(2) F(3) [of u] by (simp add: ready_exact_def)
    qed
  qed
  moreover have "prio_ok (upd_thread t f s1)" using sch(3) pr F(1,2) ft by (simp add: prio_ok_def)
  moreover have "self s1 = self s" using R(3) by (simp add: only_links_def)
  moreover have nt: "t \<noteq> self s" using inv(2) t by (metis thread_state.distinct)
  moreover have "t_state (threads (upd_thread t f s1) u) = RUNNING \<longleftrightarrow> u = self s" for u
    using F(3) [of u] ft f nt inv(2) by simp
  moreover have "t_state (threads (upd_thread t f s1) u) \<noteq> READY \<and> t_state (threads (upd_thread t f s1) u) \<noteq> RUNNING"
    if "suspend_count (threads (upd_thread t f s1) u) > 0" for u
    using that F(3,6) [of u] ft f inv(3) by (simp split: if_splits)
  ultimately show ?thesis using R(1) q2 by (intro exI [of _ s1] exI [of _ ?Q]) (simp add: system_inv_def sched_inv_def)
qed

lemma suspend_inv:
  assumes inv: "system_inv s Q" and d: "dpc_queue_head s = None" and run: "kthread_suspend direct_cpu t s = Returns (n, s')"
  shows "\<exists>Q'. system_inv s' Q'"
proof -
  let ?s = "upd_thread t (\<lambda>x. x\<lparr>suspend_count := suspend_count x + 1\<rparr>) s"
  have sch: "sched_inv ?s Q" using inv by (intro upd_keeps_sched) (auto simp: system_inv_def)
  have run1: "\<forall>u. t_state (threads ?s u) = RUNNING \<longleftrightarrow> u = self ?s" using inv by (simp add: system_inv_def)
  have sus: "\<forall>u. u \<noteq> t \<longrightarrow> suspend_count (threads ?s u) > 0 \<longrightarrow> t_state (threads ?s u) \<noteq> READY \<and> t_state (threads ?s u) \<noteq> RUNNING"
    using inv unfolding system_inv_def by simp metis
  consider (count) "suspend_count (threads s t) \<noteq> 0 \<or> t_state (threads s t) \<noteq> READY \<and> t_state (threads s t) \<noteq> RUNNING" "s' = ?s"
    | (ready) "suspend_count (threads s t) = 0" "t_state (threads s t) = READY"
    | (running) "suspend_count (threads s t) = 0" "t_state (threads s t) = RUNNING"
    using run by (auto simp: kthread_suspend_def Let_def split: if_splits)
  then show ?thesis
  proof cases
    case count
    have "t_state (threads s t) \<noteq> READY \<and> t_state (threads s t) \<noteq> RUNNING" if "suspend_count (threads s t) + 1 > 0"
    proof (cases "suspend_count (threads s t) = 0")
      case False
      then have "suspend_count (threads s t) > 0" using that by simp
      then show ?thesis using inv unfolding system_inv_def by blast
    qed (use count in simp)
    then have "system_inv ?s Q" using inv by (intro upd_keeps_inv) auto
    then show ?thesis using count by blast
  next
    case ready
    have "0 \<le> priority (threads s t) \<and> priority (threads s t) < 32 \<and> 0 \<le> base_priority (threads s t) \<and> base_priority (threads s t) < 32"
      using inv by (simp add: system_inv_def sched_inv_def prio_ok_def)
    then obtain s1 Q' where "remove_from_ready_queue t ?s = Returns s1" "system_inv (upd_thread t (\<lambda>x. x\<lparr>t_state := SUSPENDED\<rparr>) s1) Q'"
      using unready [OF sch run1 sus, of "\<lambda>x. x\<lparr>t_state := SUSPENDED\<rparr>"] ready by auto
    then show ?thesis using run ready by (auto simp: kthread_suspend_def Let_def)
  next
    case running
    then have t: "t = self s" using inv by (simp add: system_inv_def)
    have sw: "switching (upd_thread (self s) (\<lambda>x. x\<lparr>suspend_count := suspend_count x + 1, t_state := SUSPENDED\<rparr>) s) Q"
      using inv d by (intro leave_running) auto
    have eq: "upd_thread t (\<lambda>x. x\<lparr>t_state := SUSPENDED\<rparr>) ?s
        = upd_thread (self s) (\<lambda>x. x\<lparr>suspend_count := suspend_count x + 1, t_state := SUSPENDED\<rparr>) s"
      by (simp add: upd_thread_def t)
    have "ksched_dispatch direct_cpu (upd_thread t (\<lambda>x. x\<lparr>t_state := SUSPENDED\<rparr>) ?s) = Returns s'"
      using run running by (auto simp: kthread_suspend_def Let_def bind_outcome_Returns_iff split: if_splits)
    then show ?thesis unfolding eq using dispatch_inv [OF sw] by blast
  qed
qed

lemma set_priority_inv:
  assumes inv: "system_inv s Q" and run: "kthread_set_priority direct_cpu t prio s = Returns (rc, s')"
  shows "\<exists>Q'. system_inv s' Q'"
proof (cases "prio < 0 \<or> prio \<ge> 32 \<or> base_priority (threads s t) = prio")
  case True
  then show ?thesis using run inv by (auto simp: kthread_set_priority_def split: if_splits)
next
  case False
  then have prio: "0 \<le> prio" "prio < 32" by auto
  have sch: "sched_inv s Q" "\<forall>u. t_state (threads s u) = RUNNING \<longleftrightarrow> u = self s"
    "\<forall>u. u \<noteq> t \<longrightarrow> suspend_count (threads s u) > 0 \<longrightarrow> t_state (threads s u) \<noteq> READY \<and> t_state (threads s u) \<noteq> RUNNING"
    using inv unfolding system_inv_def by blast+
  show ?thesis
  proof (cases "t \<noteq> self s \<and> t_state (threads s t) = READY")
    case True
    obtain s1 Q1 where U: "remove_from_ready_queue t s = Returns s1"
      "system_inv (upd_thread t (\<lambda>x. x\<lparr>priority := prio, base_priority := prio, t_state := TRANSITION\<rparr>) s1) Q1"
      using unready [OF sch, of "\<lambda>x. x\<lparr>priority := prio, base_priority := prio, t_state := TRANSITION\<rparr>"] True prio by auto
    then have "t \<noteq> self (upd_thread t (\<lambda>x. x\<lparr>priority := prio, base_priority := prio, t_state := TRANSITION\<rparr>) s1)"
      by (intro not_self [OF U(2)]) simp
    moreover have "kthread_ready t 0 0 (upd_thread t (\<lambda>x. x\<lparr>priority := prio, base_priority := prio, t_state := TRANSITION\<rparr>) s1) = Returns s'"
      using run True False U(1) by (auto simp: kthread_set_priority_def bind_outcome_Returns_iff)
    ultimately show ?thesis using ready_inv [OF U(2)] by blast
  next
    case nr: False
    let ?s = "upd_thread t (\<lambda>x. x\<lparr>priority := prio, base_priority := prio\<rparr>) s"
    have nready: "t_state (threads s t) \<noteq> READY" using nr sch(2) by (metis thread_state.distinct)
    have "s' = ?s" using run False nr by (auto simp: kthread_set_priority_def Let_def split: if_splits)
    moreover have "sched_inv ?s Q" using sch(1) nready prio by (intro thread_update_inv) auto
    moreover have "\<forall>u. suspend_count (threads ?s u) > 0 \<longrightarrow> t_state (threads ?s u) \<noteq> READY \<and> t_state (threads ?s u) \<noteq> RUNNING"
      using inv unfolding system_inv_def by simp metis
    ultimately have "system_inv s' Q" using sch(2) by (simp add: system_inv_def)
    then show ?thesis by blast
  qed
qed

lemma wait_inv:
  assumes inv: "system_inv s Q" and d: "dpc_queue_head s = None" and run: "kthread_wait direct_cpu reason s = Returns s'"
  shows "\<exists>Q'. system_inv s' Q'"
proof -
  have "switching (upd_thread (self s) (\<lambda>x. x\<lparr>t_state := WAITING, wait_reason := reason\<rparr>) s) Q"
    using inv d by (intro leave_running) auto
  then show ?thesis using run dispatch_inv by (auto simp: kthread_wait_def)
qed

lemma yield_inv:
  assumes inv: "system_inv s Q" and d: "dpc_queue_head s = None" and run: "kthread_yield direct_cpu s = Returns s'"
  shows "\<exists>Q'. system_inv s' Q'"
proof -
  obtain s1 where s1: "kthread_ready (self s) 0 0 (upd_thread (self s) (\<lambda>x. x\<lparr>quantum := 0\<rparr>) s) = Returns s1"
    "ksched_dispatch direct_cpu s1 = Returns s'" using run by (auto simp: kthread_yield_def bind_outcome_Returns_iff)
  show ?thesis using dispatch_inv [OF enter_and_switch [OF inv d s1(1)] s1(2)] by simp
qed

lemma preempt_inv:
  assumes inv: "system_inv s Q" and d: "dpc_queue_head s = None" and run: "kthread_preempt direct_cpu s = Returns s'"
  shows "\<exists>Q'. system_inv s' Q'"
proof -
  let ?t = "self s"
  define f where "f x = (let y = x\<lparr>preempts := preempts x + 1\<rparr> in (if quantum x \<le> 0 then decayed y else y)\<lparr>t_state := READY\<rparr>)" for x
  have sch: "sched_inv s Q" "ready_exact s Q" "prio_ok s" "queues_ok s Q" using inv by (simp_all add: system_inv_def sched_inv_def)
  have tr: "t_state (threads s ?t) = RUNNING" "\<not> suspend_count (threads s ?t) > 0" using inv by (auto simp: system_inv_def)
  have nq: "\<forall>r<32. ?t \<notin> set (Q r)" using not_queued [OF sch(1), of ?t] tr by simp
  have ft: "t_state (f x) = READY" "suspend_count (f x) = suspend_count x" "base_priority (f x) = base_priority x" for x
    by (simp_all add: f_def decayed_def Let_def)
  have pf: "0 \<le> priority (f (threads s u)) \<and> priority (f (threads s u)) < 32" for u
  proof -
    have "0 \<le> priority (threads s u) \<and> priority (threads s u) < 32 \<and> 0 \<le> base_priority (threads s u)" using sch(3) by (simp add: prio_ok_def)
    then show ?thesis by (auto simp: f_def decayed_def Let_def)
  qed
  let ?s = "upd_thread ?t f s"
  define p where "p = nat (priority (threads ?s ?t))"
  have p: "priority (threads ?s ?t) = int p" "p < 32" using pf [of ?t] by (auto simp: p_def)
  from insert_ready_tail_law [OF queues_threads [OF sch(4) nq] p nq] obtain s1 where
    I: "insert_ready_tail ?t ?s = Returns s1" "queues_ok s1 (Q(p := Q p @ [?t]))" "only_links ?s s1" by blast
  note F = only_links_fields [OF I(3)]
  have st: "t_state (threads s1 u) = (if u = ?t then READY else t_state (threads s u))"
    "suspend_count (threads s1 u) = suspend_count (threads s u)" for u using F(3,6) [of u] ft by simp_all
  have "prio_ok s1" unfolding prio_ok_def F using sch(3) pf by (simp add: prio_ok_def ft)
  moreover have "ready_exact s1 (Q(p := Q p @ [?t]))" using sch(2) p(2) by (auto simp: ready_exact_def st)
  ultimately have "sched_inv s1 (Q(p := Q p @ [?t]))" using I(2) by (simp add: sched_inv_def)
  moreover have "t_state (threads s1 u) \<noteq> RUNNING" for u using st(1) [of u] inv by (simp add: system_inv_def)
  moreover have "dpc_queue_head s1 = None" using I(3) d by (simp add: only_links_def dpc_state.defs)
  moreover have "t_state (threads s1 u) \<noteq> READY" if "suspend_count (threads s1 u) > 0" for u
    using st [of u] tr(2) inv that by (auto simp: system_inv_def split: if_splits)
  ultimately have "switching s1 (Q(p := Q p @ [?t]))" by (simp add: switching_def)
  moreover have "?s = (let s1 = upd_thread ?t (\<lambda>x. x\<lparr>preempts := preempts x + 1\<rparr>) s;
      s2 = (if quantum (threads s1 ?t) \<le> 0 then upd_thread ?t decayed s1 else s1) in upd_thread ?t (\<lambda>x. x\<lparr>t_state := READY\<rparr>) s2)"
    by (simp add: upd_thread_def f_def Let_def)
  then have "ksched_dispatch direct_cpu s1 = Returns s'"
    using run I(1) by (simp add: kthread_preempt_def Let_def)
  ultimately show ?thesis using dispatch_inv by blast
qed

lemma step_inv: "sched_step s s' \<Longrightarrow> system_inv s Q \<Longrightarrow> \<exists>Q'. system_inv s' Q'"
  by (erule sched_step.cases)
    (auto intro: ready_inv interrupt_inv suspend_inv resume_inv set_priority_inv wait_inv yield_inv preempt_inv)

lemma example_bits: "bit (256 :: int) p \<longleftrightarrow> p = 8"
proof -
  have "(256 :: int) = 2 ^ 8" by simp
  then show ?thesis by (simp only: bit_exp_iff) auto
qed

lemma sched_example_fields [simp]:
  "threads sched_example = example_thread" "self sched_example = 0" "dpc_queue_head sched_example = None"
  "ready_queue_head sched_example = (\<lambda>_. None)(8 := Some 1)" "ready_queue_tail sched_example = (\<lambda>_. None)(8 := Some 2)"
  "thread_ready_summary sched_example = 256" "preempt sched_example = False" "threadlist sched_example = Some 0"
  by (simp_all add: sched_example_def sched.defs dpc_state.defs kheap.defs)

lemma sched_example_inv: "system_inv sched_example example_queues"
proof -
  have "queues_ok sched_example example_queues"
    by (auto simp: queues_ok_def sched_example_fields example_queues_def example_bits dll_def example_thread_def)
  moreover have "ready_exact sched_example example_queues"
    by (auto simp: ready_exact_def sched_example_fields example_queues_def example_thread_def)
  ultimately show ?thesis
    by (auto simp: system_inv_def sched_inv_def prio_ok_def sched_example_fields example_thread_def)
qed

section \<open>Giving way\<close>

lemma yield_law:
  assumes inv: "system_inv s Q" and d: "dpc_queue_head s = None" and p: "p < 32" "\<forall>r<32. p < r \<longrightarrow> Q r = []"
    and pr: "\<forall>t\<in>set (self s # Q p). priority (threads s t) = int p \<and> base_priority (threads s t) = int p"
  shows "\<exists>s'. kthread_yield direct_cpu s = Returns s' \<and> self s' = hd (Q p @ [self s]) \<and> system_inv s' (Q(p := tl (Q p @ [self s])))
     \<and> dpc_queue_head s' = None \<and> (\<forall>u. priority (threads s' u) = priority (threads s u) \<and> base_priority (threads s' u) = base_priority (threads s u))"
proof -
  let ?t = "self s" and ?f = "\<lambda>x. x\<lparr>quantum := 0 :: int\<rparr>"
  let ?s = "upd_thread ?t ?f s"
  have sus: "\<not> suspend_count (threads s ?t) > 0" "t_state (threads s ?t) = RUNNING" using inv by (auto simp: system_inv_def)
  have bst: "boosted (?f (threads s ?t)) 0 = int p" using pr by (simp add: boosted_def Let_def)
  have rd: "priority (readied (?f (threads s ?t)) 0 0) = int p" using bst pr by (simp add: readied_def decayed_def Let_def)
  have sch: "sched_inv ?s Q" using inv by (intro upd_keeps_sched) (auto simp: system_inv_def)
  obtain s1 where R: "kthread_ready ?t 0 0 ?s = Returns s1" "only_links (upd_thread ?t (\<lambda>x. readied x 0 0) ?s) (s1\<lparr>preempt := preempt ?s\<rparr>)"
    using kthread_ready_law [OF sch, of ?t 0 0] sus by auto
  note F = only_links_fields [OF R(2)]
  have keep: "priority (threads s1 u) = priority (threads s u)" "base_priority (threads s1 u) = base_priority (threads s u)" for u
    using F(1,2) [of u] rd pr by (auto simp: readied_fields(2))
  have e: "entered ?t (?f (threads s ?t)) 0 0 Q = Q(p := Q p @ [?t])" using rd by (simp add: entered_def)
  have sw: "switching s1 (Q(p := Q p @ [?t]))" using enter_and_switch [OF inv d R(1)] e by simp
  obtain h q where hq: "Q p @ [?t] = h # q" by (cases "Q p @ [?t]") auto
  from dispatch_law [OF sw p(1), of h q] obtain s' where
    D: "ksched_dispatch direct_cpu s1 = Returns s'" "self s' = h" "system_inv s' (Q(p := q))" "dpc_queue_head s' = None"
      "\<forall>u. priority (threads s' u) = priority (threads s1 u) \<and> base_priority (threads s' u) = base_priority (threads s1 u)"
    using hq p(2) by auto
  have "kthread_yield direct_cpu s = Returns s'" using R(1) D(1) by (simp add: kthread_yield_def)
  then show ?thesis using D(2-5) keep unfolding hq list.sel by auto
qed

lemma yields_law:
  assumes inv: "system_inv s Q" and d: "dpc_queue_head s = None" and p: "p < 32" "\<forall>r<32. p < r \<longrightarrow> Q r = []"
    and pr: "\<forall>t\<in>set (self s # Q p). priority (threads s t) = int p \<and> base_priority (threads s t) = int p"
  shows "\<exists>s'. yields n s = Returns s' \<and> self s' # (tl (rotate n (self s # Q p))) = rotate n (self s # Q p)
     \<and> system_inv s' (Q(p := tl (rotate n (self s # Q p)))) \<and> dpc_queue_head s' = None
     \<and> (\<forall>u. priority (threads s' u) = priority (threads s u) \<and> base_priority (threads s' u) = base_priority (threads s u))"
  unfolding yields_def
proof (rule for_each_upt)
  show "self s # (tl (rotate 0 (self s # Q p))) = rotate 0 (self s # Q p)
     \<and> system_inv s (Q(p := tl (rotate 0 (self s # Q p)))) \<and> dpc_queue_head s = None
     \<and> (\<forall>u. priority (threads s u) = priority (threads s u) \<and> base_priority (threads s u) = base_priority (threads s u))"
    using inv d by simp
next
  fix i s1
  let ?R = "rotate i (self s # Q p)"
  assume A: "self s1 # tl ?R = ?R \<and> system_inv s1 (Q(p := tl ?R)) \<and> dpc_queue_head s1 = None
     \<and> (\<forall>u. priority (threads s1 u) = priority (threads s u) \<and> base_priority (threads s1 u) = base_priority (threads s u))"
  have members: "set (self s1 # tl ?R) = set (self s # Q p)" using A by (metis set_rotate)
  have "\<forall>t\<in>set (self s1 # (Q(p := tl ?R)) p). priority (threads s1 t) = int p \<and> base_priority (threads s1 t) = int p"
    using A pr members by (metis fun_upd_same)
  from yield_law [of s1 "Q(p := tl ?R)" p, OF _ _ p(1) _ this] A p(2) obtain s2 where
    Y: "kthread_yield direct_cpu s1 = Returns s2" "self s2 = hd (tl ?R @ [self s1])" "system_inv s2 (Q(p := tl (tl ?R @ [self s1])))"
      "dpc_queue_head s2 = None" "\<forall>u. priority (threads s2 u) = priority (threads s1 u) \<and> base_priority (threads s2 u) = base_priority (threads s1 u)"
    by auto
  have "rotate (Suc i) (self s # Q p) = rotate1 ?R" by simp
  also have "\<dots> = tl ?R @ [self s1]" using A by (metis rotate1.simps(2))
  finally have r: "rotate (Suc i) (self s # Q p) = tl ?R @ [self s1]" .
  then show "\<exists>s2. kthread_yield direct_cpu s1 = Returns s2 \<and> self s2 # (tl (rotate (Suc i) (self s # Q p))) = rotate (Suc i) (self s # Q p)
     \<and> system_inv s2 (Q(p := tl (rotate (Suc i) (self s # Q p)))) \<and> dpc_queue_head s2 = None
     \<and> (\<forall>u. priority (threads s2 u) = priority (threads s u) \<and> base_priority (threads s2 u) = base_priority (threads s u))"
    unfolding r using Y A by (metis append_is_Nil_conv list.exhaust_sel list.distinct(1))
qed

section \<open>Properties\<close>



text \<open>
  C18. Dispatching, with no deferred call pending, runs the first thread of the highest ready
  queue that is not empty; that thread leaves its queue and is the one that runs, and the
  request to preempt is cleared.
\<close>

theorem ksched_dispatch_correct:
  assumes "switching s Q" "p < 32" "Q p = t # q" "\<forall>r<32. p < r \<longrightarrow> Q r = []"
  shows "\<exists>s'. ksched_dispatch direct_cpu s = Returns s' \<and> self s' = t \<and> system_inv s' (Q(p := q)) \<and> \<not> preempt s'"
  using dispatch_law [OF assms] by blast

theorem ksched_dispatch_correct_witness:
  "\<exists>s'. ksched_dispatch direct_cpu (upd_thread 0 (\<lambda>x. x\<lparr>t_state := WAITING\<rparr>) sched_example) = Returns s' \<and> self s' = 1"
proof -
  have "self sched_example = 0" "dpc_queue_head sched_example = None" by (simp_all add: sched_example_fields)
  then have "switching (upd_thread 0 (\<lambda>x. x\<lparr>t_state := WAITING\<rparr>) sched_example) example_queues"
    using leave_running [OF sched_example_inv, of "\<lambda>x. x\<lparr>t_state := WAITING\<rparr>"] by simp
  from ksched_dispatch_correct [OF this, of 8 1 "[2]"] show ?thesis by (auto simp: example_queues_def)
qed

text \<open>
  C16. Whatever threads do, by waking, interrupting, suspending and resuming one another, by
  changing priorities, by waiting and by giving way, the ready queues stay well-formed and
  hold exactly the ready threads under their priority, exactly one thread runs, and no
  suspended thread is ready or runs.
\<close>

theorem scheduler_invariant:
  assumes "sched_step\<^sup>*\<^sup>* s s'" "system_inv s Q"
  shows "\<exists>Q'. system_inv s' Q'"
  using assms by (induction rule: rtranclp_induct) (blast intro: step_inv)+

theorem scheduler_invariant_witness:
  "\<exists>s' Q'. sched_step\<^sup>*\<^sup>* sched_example s' \<and> suspend_count (threads s' 3) = 1 \<and> system_inv s' Q'"
proof -
  define s' where "s' = upd_thread 3 (\<lambda>x. x\<lparr>suspend_count := suspend_count x + 1\<rparr>) sched_example"
  have "kthread_suspend direct_cpu 3 sched_example = Returns (0, s')"
    by (simp add: s'_def kthread_suspend_def Let_def sched_example_fields example_thread_def)
  moreover have "dpc_queue_head sched_example = None" by (simp add: sched_example_fields)
  ultimately have st: "sched_step\<^sup>*\<^sup>* sched_example s'" by (intro r_into_rtranclp sched_step.suspend)
  have "suspend_count (threads s' 3) = 1" by (simp add: s'_def sched_example_fields example_thread_def)
  then show ?thesis using st scheduler_invariant [OF st sched_example_inv] by blast
qed

text \<open>
  C17. Threads that give way take turns: with the running thread and the threads of the highest
  ready queue at one priority, after the running thread gave way \<open>n\<close> times in all the running
  thread and its queue are the \<open>n\<close>-th rotation of what they were. So each of them runs again
  after at most as many turns as there are threads.
\<close>

theorem kthread_yield_round_robin:
  assumes "system_inv s Q" "dpc_queue_head s = None" "p < 32" "\<forall>r<32. p < r \<longrightarrow> Q r = []"
    "\<forall>t\<in>set (self s # Q p). priority (threads s t) = int p \<and> base_priority (threads s t) = int p"
  shows "\<exists>s' q. yields n s = Returns s' \<and> self s' # q = rotate n (self s # Q p) \<and> system_inv s' (Q(p := q))"
  using yields_law [OF assms, of n] by blast

theorem kthread_yield_round_robin_witness:
  "\<exists>s'. yields 2 sched_example = Returns s' \<and> self s' = 2 \<and> system_inv s' (example_queues(8 := [0, 1]))"
proof -
  have "self sched_example = 0" "dpc_queue_head sched_example = None" by (simp_all add: sched_example_fields)
  then show ?thesis
    using kthread_yield_round_robin [OF sched_example_inv, of 8 2]
    by (auto simp: example_queues_def sched_example_fields example_thread_def numeral_2_eq_2)
qed

text \<open>
  C40. A running thread that lowers its own priority keeps the processor: the comparison that
  should hand it over reads the priority after it was overwritten, so the call only stores the
  new priority, whatever threads are ready.
\<close>

theorem kthread_set_priority_self_keeps_cpu:
  assumes "0 \<le> prio" "prio < 32" "base_priority (threads s (self s)) \<noteq> prio"
  shows "kthread_set_priority cpu (self s) prio s
     = Returns (0, upd_thread (self s) (\<lambda>x. x\<lparr>priority := prio, base_priority := prio\<rparr>) s)"
  using assms by (simp add: kthread_set_priority_def Let_def)

theorem kthread_set_priority_self_keeps_cpu_witness:
  "\<exists>s'. kthread_set_priority direct_cpu 0 3 sched_example = Returns (0, s') \<and> self s' = 0
     \<and> priority (threads s' 0) < priority (threads s' 1) \<and> t_state (threads s' 1) = READY"
  using kthread_set_priority_self_keeps_cpu [of 3 sched_example direct_cpu]
  by (simp add: sched_example_fields example_thread_def)

text \<open>
  C36. The search for the highest bit of a word that is not zero ends with the number of a bit
  that is set, below 32, with no bit above it set.
\<close>

theorem find_highest_bit_correct:
  assumes "m \<noteq> 0"
  shows "find_highest_bit m < 32 \<and> bit m (find_highest_bit m) \<and> (\<forall>n. bit m n \<longrightarrow> n \<le> find_highest_bit m)"
  using find_highest_bit_law [OF assms] by blast

theorem find_highest_bit_correct_witness: "find_highest_bit 0x120 = 8"
proof -
  have "bit (0x120 :: u32) n \<longleftrightarrow> n = 5 \<or> n = 8" for n
  proof -
    have "(0x120 :: u32) = 2 ^ 8 OR 2 ^ 5" by simp
    then show ?thesis by (simp only: bit_or_iff bit_exp_iff) auto
  qed
  moreover have "(0x120 :: u32) \<noteq> 0" by simp
  note find_highest_bit_correct [OF this]
  ultimately have "find_highest_bit 0x120 = 5 \<or> find_highest_bit 0x120 = 8" "8 \<le> find_highest_bit 0x120" by blast+
  then show ?thesis by linarith
qed

end
