(* ===== verification/Timer.thy ===== *)
theory Timer
  imports Sched_Correct
begin

text \<open>
  The timers of \<^verbatim>\<open>src/src/sys/kernel/timer.c\<close> and the clock interrupt of
  \<^verbatim>\<open>src/src/sys/kernel/pit.c\<close>. Pending timers hang in five vectors of rings: the first vector
  has a ring for each of the next 256 ticks, each later one has 64 rings for spans that grow
  by a factor of 64; when the first vector wraps around, the next ring of the second one is
  spread over the first, and so on.
\<close>

section \<open>Data\<close>

text \<open>A link is the head of a ring, by the vector from 0 to 4 and the index there, or a timer.\<close>

datatype timer_link =
    VEC nat nat
  | TMR nat

datatype timerproc =
    Tmr_sleep
  | Tmr_alarm
  | Expire_waitable_timer
  | Timerproc nat

record timer =
  tm_expires :: u32
  tm_active :: bool
  tm_handler :: timerproc
  tm_arg :: nat

datatype loadtype = LOADTYPE_IDLE | LOADTYPE_USER | LOADTYPE_KERNEL | LOADTYPE_DPC

record timers = sched +
  timer_of :: "nat \<Rightarrow> timer"
  link_next :: "timer_link \<Rightarrow> timer_link option"
  link_prev :: "timer_link \<Rightarrow> timer_link option"
  tv_index :: "nat \<Rightarrow> nat"
  timer_ticks :: u32
  global_ticks :: u32
  global_clocks :: u32
  tv_sec :: int
  tv_usec :: int
  dpc_time :: u32
  loadtab :: "nat \<Rightarrow> loadtype"
  loadpos :: nat
  timerdpc :: nat

abbreviation (input) MSECS_PER_TICK :: u32 where "MSECS_PER_TICK \<equiv> 10"
abbreviation (input) INFINITE :: u32 where "INFINITE \<equiv> 0xFFFFFFFF"
abbreviation (input) QUANTUM_UNITS_PER_TICK :: int where "QUANTUM_UNITS_PER_TICK \<equiv> 3"
abbreviation (input) THREAD_WAIT_SLEEP :: int where "THREAD_WAIT_SLEEP \<equiv> 4"

section \<open>Rings\<close>

definition upd_timer :: "nat \<Rightarrow> (timer \<Rightarrow> timer) \<Rightarrow> 'a timers_scheme \<Rightarrow> 'a timers_scheme" where
  "upd_timer t f s = s\<lparr>timer_of := (timer_of s)(t := f (timer_of s t))\<rparr>"

text \<open>The ring for a time of expiry.\<close>

definition timer_vec :: "u32 \<Rightarrow> 'a timers_scheme \<Rightarrow> timer_link" where
  "timer_vec expires s =
     (let idx = expires - timer_ticks s in
      if idx < 2 ^ 8 then VEC 0 (unat (expires AND 255))
      else if idx < 2 ^ 14 then VEC 1 (unat (drop_bit 8 expires AND 63))
      else if idx < 2 ^ 20 then VEC 2 (unat (drop_bit 14 expires AND 63))
      else if idx < 2 ^ 26 then VEC 3 (unat (drop_bit 20 expires AND 63))
      else if sint idx < 0 then VEC 0 (tv_index s 0)
      else VEC 4 (unat (drop_bit 26 expires AND 63)))"

definition ktimer_attach :: "nat \<Rightarrow> 'a timers_scheme \<Rightarrow> 'a timers_scheme outcome" where
  "ktimer_attach t s =
     (let vec = timer_vec (tm_expires (timer_of s t)) s;
          s = s\<lparr>link_next := (link_next s)(TMR t := Some vec)\<rparr>;
          s = s\<lparr>link_prev := (link_prev s)(TMR t := link_prev s vec)\<rparr> in
      case link_prev s vec of
        None \<Rightarrow> Faults
      | Some p \<Rightarrow>
          let s = s\<lparr>link_next := (link_next s)(p := Some (TMR t))\<rparr>;
              s = s\<lparr>link_prev := (link_prev s)(vec := Some (TMR t))\<rparr> in
          Returns (upd_timer t (\<lambda>x. x\<lparr>tm_active := True\<rparr>) s))"

definition ktimer_detach :: "nat \<Rightarrow> 'a timers_scheme \<Rightarrow> (bool \<times> 'a timers_scheme) outcome" where
  "ktimer_detach t s =
     (if \<not> tm_active (timer_of s t) then Returns (False, s)
      else
        case link_next s (TMR t) of
          None \<Rightarrow> Faults
        | Some n \<Rightarrow>
            let s = s\<lparr>link_prev := (link_prev s)(n := link_prev s (TMR t))\<rparr> in
            case link_prev s (TMR t) of
              None \<Rightarrow> Faults
            | Some p \<Rightarrow>
                let s = s\<lparr>link_next := (link_next s)(p := link_next s (TMR t))\<rparr> in
                Returns (True, upd_timer t (\<lambda>x. x\<lparr>tm_active := False\<rparr>) s))"

definition init_timers :: "'a timers_scheme \<Rightarrow> 'a timers_scheme" where
  "init_timers s =
     (let heads = (\<lambda>f l. case l of VEC k i \<Rightarrow>
                    (if k < 5 \<and> i < (if k = 0 then 256 else 64) then Some (VEC k i) else f l) | TMR t \<Rightarrow> f l)
      in s\<lparr>link_next := heads (link_next s), link_prev := heads (link_prev s)\<rparr>)"

text \<open>The source clears \<open>next\<close> twice and leaves \<open>prev\<close> as it was.\<close>

definition ktimer_init :: "nat \<Rightarrow> timerproc \<Rightarrow> nat \<Rightarrow> 'a timers_scheme \<Rightarrow> 'a timers_scheme" where
  "ktimer_init t handler arg s =
     upd_timer t (\<lambda>_. \<lparr>tm_expires = 0, tm_active = False, tm_handler = handler, tm_arg = arg\<rparr>)
       (s\<lparr>link_next := (link_next s)(TMR t := None)\<rparr>)"

definition ktimer_add :: "nat \<Rightarrow> 'a timers_scheme \<Rightarrow> 'a timers_scheme outcome" where
  "ktimer_add t s = (if tm_active (timer_of s t) then Returns s else ktimer_attach t s)"

definition ktimer_remove :: "nat \<Rightarrow> 'a timers_scheme \<Rightarrow> (bool \<times> 'a timers_scheme) outcome" where
  "ktimer_remove t s =
     bind_outcome (ktimer_detach t s) (\<lambda>(rc, s).
       Returns (rc, s\<lparr>link_next := (link_next s)(TMR t := None), link_prev := (link_prev s)(TMR t := None)\<rparr>))"

definition ktimer_modify :: "nat \<Rightarrow> u32 \<Rightarrow> 'a timers_scheme \<Rightarrow> (bool \<times> 'a timers_scheme) outcome" where
  "ktimer_modify t expires s =
     bind_outcome (ktimer_detach t (upd_timer t (\<lambda>x. x\<lparr>tm_expires := expires\<rparr>) s)) (\<lambda>(rc, s).
     bind_outcome (ktimer_attach t s) (\<lambda>s. Returns (rc, s)))"

section \<open>The passing of time\<close>

text \<open>
  The walk along a ring that spreads its timers; \<open>None\<close> when it never comes back to the head. A
  link that is not a timer is no timer to attach.
\<close>

partial_function (option) cascade_loop :: "timer_link \<Rightarrow> timer_link option \<Rightarrow> 'a timers_scheme \<Rightarrow> 'a timers_scheme outcome option" where
  "cascade_loop h cur s =
     (if cur = Some h then Some (Returns s)
      else
        case cur of
          Some (TMR t) \<Rightarrow>
            (let next = link_next s (TMR t) in
             case ktimer_attach t s of
               Returns s \<Rightarrow> cascade_loop h next s
             | Panics m \<Rightarrow> Some (Panics m)
             | Diverges \<Rightarrow> Some Diverges
             | Faults \<Rightarrow> Some Faults)
        | _ \<Rightarrow> Some Faults)"

declare cascade_loop.simps [code]

definition cascade_timers :: "nat \<Rightarrow> 'a timers_scheme \<Rightarrow> 'a timers_scheme outcome" where
  "cascade_timers n s =
     (let h = VEC n (tv_index s n) in
      bind_outcome (case cascade_loop h (link_next s h) s of None \<Rightarrow> Diverges | Some r \<Rightarrow> r) (\<lambda>s.
      Returns (s\<lparr>link_next := (link_next s)(h := Some h), link_prev := (link_prev s)(h := Some h),
                 tv_index := (tv_index s)(n := (tv_index s n + 1) mod 64)\<rparr>)))"

function cascade_all :: "nat \<Rightarrow> 'a timers_scheme \<Rightarrow> 'a timers_scheme outcome" where
  "cascade_all n s =
     bind_outcome (cascade_timers n s) (\<lambda>s.
       if tv_index s n = 1 \<and> n + 1 < 5 then cascade_all (n + 1) s else Returns s)"
  by pat_completeness auto
termination by (relation "measure (\<lambda>(n, s). 5 - n)") auto

declare cascade_all.simps [simp del]

text \<open>The timers of the ring whose tick has come, one after the other. \<open>call\<close> is what a handler does.\<close>

partial_function (option) expire_loop ::
    "(timerproc \<Rightarrow> nat \<Rightarrow> 'a timers_scheme \<Rightarrow> 'a timers_scheme outcome) \<Rightarrow> 'a timers_scheme \<Rightarrow> 'a timers_scheme outcome option" where
  "expire_loop call s =
     (let h = VEC 0 (tv_index s 0); cur = link_next s h in
      if cur = Some h then Some (Returns s)
      else
        case cur of
          Some (TMR t) \<Rightarrow>
            (case bind_outcome (ktimer_detach t s) (\<lambda>(_, s1).
                    call (tm_handler (timer_of s t)) (tm_arg (timer_of s t))
                      (s1\<lparr>link_next := (link_next s1)(TMR t := None), link_prev := (link_prev s1)(TMR t := None)\<rparr>)) of
               Returns s \<Rightarrow> expire_loop call s
             | Panics m \<Rightarrow> Some (Panics m)
             | Diverges \<Rightarrow> Some Diverges
             | Faults \<Rightarrow> Some Faults)
        | _ \<Rightarrow> Some Faults)"

declare expire_loop.simps [code]

definition timer_round ::
    "(timerproc \<Rightarrow> nat \<Rightarrow> 'a timers_scheme \<Rightarrow> 'a timers_scheme outcome) \<Rightarrow> 'a timers_scheme \<Rightarrow> 'a timers_scheme outcome" where
  "timer_round call s =
     bind_outcome (if tv_index s 0 = 0 then cascade_all 1 s else Returns s) (\<lambda>s.
     bind_outcome (case expire_loop call s of None \<Rightarrow> Diverges | Some r \<Rightarrow> r) (\<lambda>s.
     Returns (s\<lparr>timer_ticks := timer_ticks s + 1, tv_index := (tv_index s)(0 := (tv_index s 0 + 1) mod 256)\<rparr>)))"

partial_function (option) run_timer_loop ::
    "(timerproc \<Rightarrow> nat \<Rightarrow> 'a timers_scheme \<Rightarrow> 'a timers_scheme outcome) \<Rightarrow> 'a timers_scheme \<Rightarrow> 'a timers_scheme outcome option" where
  "run_timer_loop call s =
     (if sint (global_ticks s - timer_ticks s) \<ge> 0 then
        (case timer_round call s of
           Returns s \<Rightarrow> run_timer_loop call s
         | Panics m \<Rightarrow> Some (Panics m)
         | Diverges \<Rightarrow> Some Diverges
         | Faults \<Rightarrow> Some Faults)
      else Some (Returns s))"

declare run_timer_loop.simps [code]

definition run_timer_list ::
    "(timerproc \<Rightarrow> nat \<Rightarrow> 'a timers_scheme \<Rightarrow> 'a timers_scheme outcome) \<Rightarrow> 'a timers_scheme \<Rightarrow> 'a timers_scheme outcome" where
  "run_timer_list call s = (case run_timer_loop call s of None \<Rightarrow> Diverges | Some r \<Rightarrow> r)"

section \<open>Sleeping\<close>

definition tmr_sleep :: "nat \<Rightarrow> 'a sched_scheme \<Rightarrow> 'a sched_scheme outcome" where
  "tmr_sleep t s = kthread_ready t 1 0 s"

text \<open>\<open>tm\<close> is the local timer of the call.\<close>

definition msleep :: "'a timers_scheme cpu \<Rightarrow> nat \<Rightarrow> u32 \<Rightarrow> 'a timers_scheme \<Rightarrow> (int \<times> 'a timers_scheme) outcome" where
  "msleep cpu tm millisecs s =
     (if millisecs = 0 then bind_outcome (kthread_yield cpu s) (\<lambda>s. Returns (0, s))
      else
        let s = ktimer_init tm Tmr_sleep (self s) s;
            s = upd_timer tm (\<lambda>x. x\<lparr>tm_expires := global_ticks s + millisecs div MSECS_PER_TICK\<rparr>) s in
        bind_outcome (ktimer_add tm s) (\<lambda>s.
        bind_outcome (kthread_alertable_wait cpu THREAD_WAIT_SLEEP s) (\<lambda>(rc, s).
          let rc = (if rc = - EINTR
                    then max 0 (sint ((tm_expires (timer_of s tm) - global_ticks s) * MSECS_PER_TICK)) else rc) in
          bind_outcome (ktimer_remove tm s) (\<lambda>(_, s). Returns (rc, s)))))"

section \<open>The alarm of a thread\<close>

text \<open>From \<^verbatim>\<open>src/src/sys/kernel/sched.c\<close>. The alarm of thread \<open>t\<close> is timer \<open>t\<close>; there are 100 ticks in a second.\<close>

abbreviation (input) SIGALRM :: nat where "SIGALRM \<equiv> 14"

definition tmr_alarm :: "nat \<Rightarrow> 'a sched_scheme \<Rightarrow> 'a sched_scheme outcome" where
  "tmr_alarm t s = bind_outcome (send_user_signal t SIGALRM s) (\<lambda>(_, s). Returns s)"

definition schedule_alarm :: "u32 \<Rightarrow> 'a timers_scheme \<Rightarrow> (int \<times> 'a timers_scheme) outcome" where
  "schedule_alarm seconds s =
     (let t = self s;
          rc = (if tm_active (timer_of s t) then sint ((tm_expires (timer_of s t) - global_ticks s) div 100) else 0) in
      bind_outcome (if seconds = 0 then ktimer_remove t s
                    else ktimer_modify t (global_ticks s + seconds * 100) s) (\<lambda>(_, s).
      Returns (rc, s)))"

section \<open>The clock interrupt\<close>

text \<open>
  The carry of the microseconds; \<open>TIMER_DPC\<close> stands for the procedure that runs the timer list.
  The position in the table of load samples counts from its start.
\<close>

function carry_usec :: "int \<Rightarrow> int \<Rightarrow> int \<times> int" where
  "carry_usec sec usec = (if usec \<ge> 1000000 then carry_usec (sec + 1) (usec - 1000000) else (sec, usec))"
  by pat_completeness auto
termination by (relation "measure (\<lambda>(_, usec). nat usec)") auto

declare carry_usec.simps [simp del]

abbreviation (input) TIMER_DPC :: nat where "TIMER_DPC \<equiv> 1"
abbreviation (input) LOADTAB_SIZE :: nat where "LOADTAB_SIZE \<equiv> 100"

definition timer_handler :: "u32 \<Rightarrow> 'a timers_scheme \<Rightarrow> 'a timers_scheme" where
  "timer_handler eip s =
     (let t = self s;
          (sec, usec) = carry_usec (tv_sec s) (tv_usec s + 10000);
          s = s\<lparr>global_clocks := global_clocks s + 10, global_ticks := global_ticks s + 1, tv_sec := sec, tv_usec := usec\<rparr>;
          (s, kind) =
            (if in_dpc s then (s\<lparr>dpc_time := dpc_time s + 1\<rparr>, LOADTYPE_DPC)
             else if USERSPACE eip then (upd_thread t (\<lambda>x. x\<lparr>utime := utime x + 1\<rparr>) s, LOADTYPE_USER)
             else (upd_thread t (\<lambda>x. x\<lparr>stime := stime x + 1\<rparr>) s,
                   if base_priority (threads s t) = PRIORITY_SYSIDLE then LOADTYPE_IDLE else LOADTYPE_KERNEL));
          s = s\<lparr>loadtab := (loadtab s)(loadpos s := kind),
                loadpos := (if loadpos s + 1 = LOADTAB_SIZE then 0 else loadpos s + 1)\<rparr>;
          s = upd_thread t (\<lambda>x. x\<lparr>quantum := quantum x - QUANTUM_UNITS_PER_TICK\<rparr>) s;
          s = (if quantum (threads s t) \<le> 0 then s\<lparr>preempt := True\<rparr> else s)
      in kdpc_queue_irq (timerdpc s) TIMER_DPC 0 s)"

end
