(* ===== verification/Timer_Correct.thy ===== *)
theory Timer_Correct
  imports Timer
begin

text \<open>
  Correctness of the timer wheel: the rings as lists, the time that each pending timer is due,
  the spreading of the rings of later vectors over the earlier ones, and the run of the timer
  list against the list of pending timers ordered by time.
\<close>

section \<open>Notions\<close>

text \<open>The ticks that one ring of vector \<open>k\<close> spans, and the number of its rings.\<close>

definition span :: "nat \<Rightarrow> nat" where
  "span k = (if k = 0 then 1 else 2 ^ (6 * k + 2))"

definition rings :: "nat \<Rightarrow> nat" where
  "rings k = (if k = 0 then 256 else 64)"

text \<open>
  The timers as lists: \<open>W k i\<close> hangs in ring \<open>i\<close> of vector \<open>k\<close>. The rings of \<open>X\<close> are under repair.
\<close>

definition wheel :: "(nat \<times> nat) set \<Rightarrow> 'a timers_scheme \<Rightarrow> (nat \<Rightarrow> nat \<Rightarrow> nat list) \<Rightarrow> bool" where
  "wheel X s W \<longleftrightarrow>
     (\<forall>k<5. \<forall>i<rings k. (k, i) \<notin> X \<longrightarrow> ring (link_next s) (link_prev s) (VEC k i) (map TMR (W k i)))
     \<and> (\<forall>x k i j l. x \<in> set (W k i) \<longrightarrow> x \<in> set (W j l) \<longrightarrow> k = j \<and> i = l)
     \<and> (\<forall>k i. W k i \<noteq> [] \<longrightarrow> k < 5 \<and> i < rings k)
     \<and> (\<forall>x. tm_active (timer_of s x) \<longleftrightarrow> (\<exists>k i. x \<in> set (W k i)))"

text \<open>
  The time: tick \<open>T\<close> is next, and the next ring of vector \<open>k\<close> to be spread has number \<open>c k\<close>, counted
  without wrapping around. Each timer is in a ring that is spread, or expires, when its time
  has come and not before.
\<close>

definition clock :: "'a timers_scheme \<Rightarrow> nat \<Rightarrow> (nat \<Rightarrow> nat) \<Rightarrow> bool" where
  "clock s T c \<longleftrightarrow> timer_ticks s = of_nat T \<and> tv_index s 0 = T mod 256
     \<and> (\<forall>k\<in>{1..<5}. tv_index s k = c k mod 64 \<and> T \<le> c k * span k \<and> c k * span k \<le> T + span k)"

definition placed :: "'a timers_scheme \<Rightarrow> (nat \<Rightarrow> nat \<Rightarrow> nat list) \<Rightarrow> (nat \<Rightarrow> nat) \<Rightarrow> nat \<Rightarrow> (nat \<Rightarrow> nat) \<Rightarrow> bool" where
  "placed s W due T c \<longleftrightarrow> (\<forall>k i. \<forall>x\<in>set (W k i). T \<le> due x \<and> (if k = 0 then due x < T + 256 \<and> i = due x mod 256
     else due x < T + 2 ^ 31 \<and> tm_expires (timer_of s x) = of_nat (due x) \<and> i = (due x div span k) mod 64
        \<and> c k \<le> due x div span k \<and> due x div span k < c k + 64))"

definition level_of :: "nat \<Rightarrow> nat" where
  "level_of d = (if d < 2 ^ 8 then 0 else if d < 2 ^ 14 then 1 else if d < 2 ^ 20 then 2 else if d < 2 ^ 26 then 3 else 4)"

definition ring_of :: "nat \<Rightarrow> nat \<Rightarrow> nat" where
  "ring_of k D = (if k = 0 then D mod 256 else (D div span k) mod 64)"

text \<open>Only the links and the activity of timers changed.\<close>

definition same_time :: "'a timers_scheme \<Rightarrow> 'a timers_scheme \<Rightarrow> bool" where
  "same_time s s' \<longleftrightarrow> timer_ticks s' = timer_ticks s \<and> global_ticks s' = global_ticks s \<and> timers.more s' = timers.more s
     \<and> (\<forall>x. (timer_of s' x)\<lparr>tm_active := tm_active (timer_of s x)\<rparr> = timer_of s x)"

definition moved :: "nat \<Rightarrow> nat \<Rightarrow> nat \<Rightarrow> (nat \<Rightarrow> nat \<Rightarrow> nat list) \<Rightarrow> nat \<Rightarrow> nat \<Rightarrow> nat list" where
  "moved x K I W k i = (if k = K \<and> i = I then W K I @ [x] else removeAll x (W k i))"

text \<open>The vectors that have been spread for tick \<open>T\<close>, and those that have not.\<close>

definition spread :: "nat \<Rightarrow> (nat \<Rightarrow> nat) \<Rightarrow> nat \<Rightarrow> bool" where
  "spread T c k \<longleftrightarrow> T < c k * span k"

definition unspread :: "nat \<Rightarrow> (nat \<Rightarrow> nat) \<Rightarrow> nat \<Rightarrow> bool" where
  "unspread T c k \<longleftrightarrow> c k * span k < T + span k"

text \<open>What a handler may do in these laws: act on the state beyond the timers.\<close>

definition acts_on :: "(timerproc \<Rightarrow> nat \<Rightarrow> 'a timers_scheme \<Rightarrow> 'a timers_scheme outcome) \<Rightarrow> (timerproc \<Rightarrow> nat \<Rightarrow> 'a \<Rightarrow> 'a) \<Rightarrow> bool" where
  "acts_on call f \<longleftrightarrow> (\<forall>p a s. \<exists>s'. call p a s = Returns s' \<and> timers.truncate s' = timers.truncate s \<and> timers.more s' = f p a (timers.more s))"

definition taken :: "nat \<Rightarrow> nat \<Rightarrow> nat list \<Rightarrow> (nat \<Rightarrow> nat \<Rightarrow> nat list) \<Rightarrow> nat \<Rightarrow> nat \<Rightarrow> nat list" where
  "taken K I zs W k i = (if k = K \<and> i = I then zs else W k i)"

text \<open>The settings of the timers and the time stayed.\<close>

definition same_settings :: "'a timers_scheme \<Rightarrow> 'a timers_scheme \<Rightarrow> bool" where
  "same_settings s s' \<longleftrightarrow> global_ticks s' = global_ticks s
     \<and> (\<forall>x. (timer_of s' x)\<lparr>tm_active := tm_active (timer_of s x)\<rparr> = timer_of s x)"

definition handled :: "'a timers_scheme \<Rightarrow> (timerproc \<Rightarrow> nat \<Rightarrow> 'b \<Rightarrow> 'b) \<Rightarrow> nat list \<Rightarrow> 'b \<Rightarrow> 'b" where
  "handled s f xs b = fold (\<lambda>x. f (tm_handler (timer_of s x)) (tm_arg (timer_of s x))) xs b"

text \<open>The timers are in order before tick \<open>T\<close>, timer \<open>x\<close> being due at tick \<open>due x\<close>.\<close>

definition timers_inv :: "'a timers_scheme \<Rightarrow> (nat \<Rightarrow> nat) \<Rightarrow> nat \<Rightarrow> bool" where
  "timers_inv s due T \<longleftrightarrow> (\<exists>W c. wheel {} s W \<and> clock s T c \<and> placed s W due T c \<and> (\<forall>k\<in>{1..<5}. unspread T c k))"

text \<open>Handlers that note their argument, and a machine at tick 300 whose timers have not run yet.\<close>

definition timer_log :: "timerproc \<Rightarrow> nat \<Rightarrow> nat list timers_scheme \<Rightarrow> nat list timers_scheme outcome" where
  "timer_log p a s = Returns (timers.extend (timers.truncate s) (timers.more s @ [a]))"

definition timers_base :: timers where
  "timers_base = sched.extend sched_example
     (timers.fields (\<lambda>x. \<lparr>tm_expires = (if x = 1 then 290 else 7), tm_active = False, tm_handler = Tmr_sleep, tm_arg = 10 * x\<rparr>)
       (\<lambda>_. None) (\<lambda>_. None) (\<lambda>_. 0) 0 300 0 0 0 0 (\<lambda>_. LOADTYPE_IDLE) 0 0)"

definition timers_example :: "nat list timers_scheme" where
  "timers_example = init_timers (timers.extend timers_base [])"

section \<open>Where a timer goes\<close>

lemma unat_bits: "L + 6 \<le> 32 \<Longrightarrow> unat (drop_bit L (of_nat D :: u32) AND 63) = (D div 2 ^ L) mod 64"
proof -
  assume L: "L + 6 \<le> 32"
  have m: "(63 :: u32) = mask 6" by (simp add: mask_eq_decr_exp)
  have "unat (drop_bit L (of_nat D :: u32) AND 63) = take_bit 6 (drop_bit L (take_bit 32 D))"
    by (simp add: m take_bit_eq_mask [symmetric] unsigned_take_bit_eq unsigned_drop_bit_eq unsigned_of_nat)
  also have "\<dots> = take_bit 6 (drop_bit L D)" using L by (simp add: drop_bit_take_bit)
  also have "\<dots> = (D div 2 ^ L) mod 64" by (simp add: take_bit_eq_mod drop_bit_eq_div)
  finally show ?thesis .
qed

lemma unat_low: "unat ((of_nat D :: u32) AND 255) = D mod 256"
proof -
  have m: "(255 :: u32) = mask 8" by (simp add: mask_eq_decr_exp)
  have "unat ((of_nat D :: u32) AND 255) = take_bit 8 (take_bit 32 D)"
    by (simp add: m take_bit_eq_mask [symmetric] unsigned_take_bit_eq unsigned_of_nat)
  also have "\<dots> = take_bit 8 D" by (simp add: take_bit_take_bit)
  finally show ?thesis by (simp add: take_bit_eq_mod)
qed

lemma unat_small: "n < 2 ^ 32 \<Longrightarrow> unat (of_nat n :: u32) = n"
  by (simp add: unsigned_of_nat take_bit_nat_eq_self)

lemma sint_nonneg: "0 \<le> sint (w :: u32) \<longleftrightarrow> unat w < 2 ^ 31"
proof -
  have "0 \<le> sint w \<longleftrightarrow> \<not> bit w 31"
    by (simp add: sint_uint signed_take_bit_nonnegative_iff bit_uint_iff)
  also have "bit w 31 \<longleftrightarrow> bit (unat w) 31" by (simp add: bit_unsigned_iff)
  also have "\<dots> \<longleftrightarrow> \<not> unat w < 2 ^ 31"
  proof -
    have "unat w < 2 ^ 32" using unsigned_less [of w] by simp
    then have "unat w div 2 ^ 31 < 2" by (simp add: less_mult_imp_div_less)
    then have "bit (unat w) 31 \<longleftrightarrow> unat w div 2 ^ 31 \<noteq> 0" by (auto simp: bit_iff_odd less_2_cases_iff)
    then show ?thesis by (simp add: div_eq_0_iff)
  qed
  finally show ?thesis by simp
qed

lemma level_of_bounds:
  "level_of d < 5" "level_of d \<noteq> 0 \<Longrightarrow> span (level_of d) \<le> d"
  "level_of d \<noteq> 0 \<Longrightarrow> d < 2 ^ 31 \<Longrightarrow> d < 64 * span (level_of d)" "level_of d = 0 \<longleftrightarrow> d < 256"
  by (auto simp: level_of_def span_def)

lemma timer_vec_law:
  assumes T: "timer_ticks s = of_nat T" and D: "T \<le> D" "D < T + 2 ^ 31"
  shows "timer_vec (of_nat D) s = VEC (level_of (D - T)) (ring_of (level_of (D - T)) D)"
proof -
  have idx: "(of_nat D :: u32) - timer_ticks s = of_nat (D - T)" using T D by simp
  have u: "unat (of_nat (D - T) :: u32) = D - T" using D by (intro unat_small) simp
  have lt: "(of_nat (D - T) :: u32) < 2 ^ n \<longleftrightarrow> D - T < 2 ^ n" if "n < 32" for n
  proof -
    have "(2 :: nat) ^ n < 2 ^ 32" using that by (intro power_strict_increasing) auto
    then have "unat (2 ^ n :: u32) = 2 ^ n" using unat_small [of "2 ^ n"] by simp
    then show ?thesis by (simp only: word_less_nat_alt u)
  qed
  have pos: "\<not> sint (of_nat (D - T) :: u32) < 0" using sint_nonneg [of "of_nat (D - T)"] D unfolding u by linarith
  have L: "8 < (32::nat)" "14 < (32::nat)" "20 < (32::nat)" "26 < (32::nat)" by simp_all
  have I: "unat (drop_bit 8 (of_nat D :: u32) AND 63) = D div 2 ^ 8 mod 64" "unat (drop_bit 14 (of_nat D :: u32) AND 63) = D div 2 ^ 14 mod 64"
    "unat (drop_bit 20 (of_nat D :: u32) AND 63) = D div 2 ^ 20 mod 64" "unat (drop_bit 26 (of_nat D :: u32) AND 63) = D div 2 ^ 26 mod 64"
    by (rule unat_bits; simp)+
  have S: "span 1 = 2 ^ 8" "span 2 = 2 ^ 14" "span 3 = 2 ^ 20" "span 4 = 2 ^ 26" by (simp_all add: span_def)
  show ?thesis
    unfolding timer_vec_def Let_def idx lt [OF L(1)] lt [OF L(2)] lt [OF L(3)] lt [OF L(4)] if_not_P [OF pos] I unat_low level_of_def
    by (simp only: ring_of_def S split: if_split) simp
qed

lemma upd_timer_simps [simp]:
  "timer_of (upd_timer t f s) = (timer_of s)(t := f (timer_of s t))" "link_next (upd_timer t f s) = link_next s"
  "link_prev (upd_timer t f s) = link_prev s" "tv_index (upd_timer t f s) = tv_index s" "timer_ticks (upd_timer t f s) = timer_ticks s"
  "global_ticks (upd_timer t f s) = global_ticks s" "timers.more (upd_timer t f s) = timers.more s"
  by (simp_all add: upd_timer_def)

lemma same_time_fields:
  assumes "same_time s s'"
  shows "tm_expires (timer_of s' x) = tm_expires (timer_of s x)" "tm_handler (timer_of s' x) = tm_handler (timer_of s x)"
    "tm_arg (timer_of s' x) = tm_arg (timer_of s x)"
proof -
  have "(timer_of s' x)\<lparr>tm_active := tm_active (timer_of s x)\<rparr> = timer_of s x" using assms by (simp add: same_time_def)
  then have "tm_expires ((timer_of s' x)\<lparr>tm_active := tm_active (timer_of s x)\<rparr>) = tm_expires (timer_of s x)"
    "tm_handler ((timer_of s' x)\<lparr>tm_active := tm_active (timer_of s x)\<rparr>) = tm_handler (timer_of s x)"
    "tm_arg ((timer_of s' x)\<lparr>tm_active := tm_active (timer_of s x)\<rparr>) = tm_arg (timer_of s x)" by simp_all
  then show "tm_expires (timer_of s' x) = tm_expires (timer_of s x)" "tm_handler (timer_of s' x) = tm_handler (timer_of s x)"
    "tm_arg (timer_of s' x) = tm_arg (timer_of s x)" by simp_all
qed

lemma moved_members: "(\<exists>k i. y \<in> set (moved x K I W k i)) \<longleftrightarrow> y = x \<or> (\<exists>k i. y \<in> set (W k i))"
proof (cases "y = x")
  case True
  have "x \<in> set (moved x K I W K I)" by (simp add: moved_def)
  then show ?thesis using True by blast
next
  case False
  then have "y \<in> set (moved x K I W k i) \<longleftrightarrow> y \<in> set (W k i)" for k i by (auto simp: moved_def)
  then show ?thesis using False by simp
qed

lemma attach_ring:
  assumes w: "wheel X s W" and x: "\<forall>k i. x \<in> set (W k i) \<longrightarrow> (k, i) \<in> X"
    and v: "timer_vec (tm_expires (timer_of s x)) s = VEC K I" "K < 5" "I < rings K" "(K, I) \<notin> X"
  shows "\<exists>s'. ktimer_attach x s = Returns s' \<and> wheel X s' (moved x K I W) \<and> same_time s s' \<and> tv_index s' = tv_index s
    \<and> (\<forall>y. y \<noteq> x \<longrightarrow> y \<notin> set (W K I) \<longrightarrow> link_next s' (TMR y) = link_next s (TMR y))"
proof -
  let ?h = "VEC K I"
  have r: "ring (link_next s) (link_prev s) ?h (map TMR (W K I))" using w v by (simp add: wheel_def)
  obtain p where p: "link_prev s ?h = Some p" "p \<in> set (?h # map TMR (W K I))" using ring_last [OF r] .
  have xo: "x \<notin> set (W k i)" if "(k, i) \<notin> X" for k i using x that by blast
  define s' where "s' = upd_timer x (\<lambda>y. y\<lparr>tm_active := True\<rparr>) (s\<lparr>link_next := (link_next s)(TMR x := Some ?h, p := Some (TMR x)),
     link_prev := (link_prev s)(TMR x := Some p, ?h := Some (TMR x))\<rparr>)"
  have e: "ktimer_attach x s = Returns s'" using v(1) p(1) by (simp add: ktimer_attach_def Let_def s'_def)
  have ln: "link_next s' = (link_next s)(TMR x := Some ?h, p := Some (TMR x))" "link_prev s' = (link_prev s)(TMR x := Some p, ?h := Some (TMR x))"
    by (simp_all add: s'_def)
  have "ring (link_next s') (link_prev s') (VEC k i) (map TMR (moved x K I W k i))" if ki: "k < 5" "i < rings k" "(k, i) \<notin> X" for k i
  proof (cases "k = K \<and> i = I")
    case True
    then show ?thesis using ring_push_back [OF r _ p(1), of "TMR x"] xo [OF v(4)] ln by (auto simp: moved_def)
  next
    case False
    have "W k i = moved x K I W k i" using False xo [OF ki(3)] by (auto simp: moved_def)
    moreover have "ring (link_next s) (link_prev s) (VEC k i) (map TMR (W k i))" using w ki by (simp add: wheel_def)
    moreover have "ring (link_next s') (link_prev s') (VEC k i) (map TMR (W k i)) = ring (link_next s) (link_prev s) (VEC k i) (map TMR (W k i))"
    proof (rule ring_cong)
      fix l assume l: "l \<in> set (VEC k i # map TMR (W k i))"
      have "y \<notin> set (W K I)" if "y \<in> set (W k i)" for y using w False that unfolding wheel_def by blast
      then have "l \<noteq> TMR x" "l \<noteq> p" "l \<noteq> ?h" using l p(2) False xo [OF ki(3)] by auto
      then show "link_next s' l = link_next s l \<and> link_prev s' l = link_prev s l" by (simp add: ln)
    qed
    ultimately show ?thesis by simp
  qed
  moreover have "\<forall>y k i j l. y \<in> set (moved x K I W k i) \<longrightarrow> y \<in> set (moved x K I W j l) \<longrightarrow> k = j \<and> i = l"
  proof (intro allI impI)
    fix y k i j l assume y: "y \<in> set (moved x K I W k i)" "y \<in> set (moved x K I W j l)"
    show "k = j \<and> i = l"
    proof (cases "y = x")
      case True
      then show ?thesis using y by (auto simp: moved_def split: if_splits)
    next
      case False
      then have "y \<in> set (W k i)" "y \<in> set (W j l)" using y by (auto simp: moved_def split: if_splits)
      then show ?thesis using w unfolding wheel_def by blast
    qed
  qed
  moreover have "\<forall>k i. moved x K I W k i \<noteq> [] \<longrightarrow> k < 5 \<and> i < rings k"
  proof (intro allI impI)
    fix k i assume "moved x K I W k i \<noteq> []"
    then have "k = K \<and> i = I \<or> W k i \<noteq> []" by (auto simp: moved_def split: if_splits)
    then show "k < 5 \<and> i < rings k" using w v(2,3) unfolding wheel_def by blast
  qed
  moreover have "tm_active (timer_of s' y) \<longleftrightarrow> (\<exists>k i. y \<in> set (moved x K I W k i))" for y
    using w unfolding moved_members wheel_def by (simp add: s'_def)
  ultimately have "wheel X s' (moved x K I W)" by (simp add: wheel_def)
  moreover have "same_time s s'" by (simp add: same_time_def s'_def)
  moreover have "link_next s' (TMR y) = link_next s (TMR y)" if "y \<noteq> x" "y \<notin> set (W K I)" for y
    using that p(2) by (auto simp: ln)
  moreover have "tv_index s' = tv_index s" by (simp add: s'_def)
  ultimately show ?thesis using e by blast
qed

lemma clock_same: "clock s T c \<Longrightarrow> same_time s s' \<Longrightarrow> tv_index s' = tv_index s \<Longrightarrow> clock s' T c"
  by (simp add: clock_def same_time_def)

lemma ring_of_range: "ring_of k D < rings k"
  by (simp add: ring_of_def rings_def)

lemma span_pos [simp]: "0 < span k"
  by (simp add: span_def)

lemma attach_law:
  assumes w: "wheel X s W" and x: "\<forall>k i. x \<in> set (W k i) \<longrightarrow> (k, i) \<in> X"
    and cl: "clock s T c" and pl: "placed s W due T c"
    and D: "tm_expires (timer_of s x) = of_nat (due x)" "T \<le> due x" "due x < T + 2 ^ 31"
    and K: "K = level_of (due x - T)" "I = ring_of K (due x)" "(K, I) \<notin> X"
  shows "\<exists>s'. ktimer_attach x s = Returns s' \<and> wheel X s' (moved x K I W) \<and> clock s' T c \<and> placed s' (moved x K I W) due T c
    \<and> same_time s s' \<and> tv_index s' = tv_index s
    \<and> (\<forall>y. y \<noteq> x \<longrightarrow> y \<notin> set (W K I) \<longrightarrow> link_next s' (TMR y) = link_next s (TMR y))"
proof -
  have T: "timer_ticks s = of_nat T" using cl by (simp add: clock_def)
  have K5: "K < 5" "I < rings K" using K level_of_bounds(1) ring_of_range by simp_all
  have v: "timer_vec (tm_expires (timer_of s x)) s = VEC K I" unfolding D(1) K using timer_vec_law [OF T D(2,3)] .
  obtain s' where S: "ktimer_attach x s = Returns s'" "wheel X s' (moved x K I W)" "same_time s s'" "tv_index s' = tv_index s"
    "\<forall>y. y \<noteq> x \<longrightarrow> y \<notin> set (W K I) \<longrightarrow> link_next s' (TMR y) = link_next s (TMR y)"
    using attach_ring [OF w x v K5 K(3)] by blast
  have new: "if K = 0 then due x < T + 256 \<and> I = due x mod 256
     else due x < T + 2 ^ 31 \<and> tm_expires (timer_of s x) = of_nat (due x) \<and> I = (due x div span K) mod 64
        \<and> c K \<le> due x div span K \<and> due x div span K < c K + 64"
  proof (cases "K = 0")
    case True
    then show ?thesis using level_of_bounds(4) [of "due x - T"] D K by (simp add: ring_of_def)
  next
    case False
    have c: "T \<le> c K * span K" "c K * span K \<le> T + span K" using cl False K5(1) by (auto simp: clock_def)
    have d: "T + span K \<le> due x" using level_of_bounds(2) [of "due x - T"] False D(2) unfolding K(1) by linarith
    have d2: "due x < T + 64 * span K" using level_of_bounds(3) [of "due x - T"] False D(2,3) unfolding K(1) by linarith
    have "c K * span K \<le> due x" using c(2) d by linarith
    then have "c K \<le> due x div span K" by (simp add: less_eq_div_iff_mult_less_eq)
    moreover have "due x < (c K + 64) * span K" using c(1) d2 by (simp add: distrib_right)
    then have "due x div span K < c K + 64" by (simp add: less_mult_imp_div_less)
    ultimately show ?thesis using False D K by (simp add: ring_of_def)
  qed
  have "placed s' (moved x K I W) due T c"
    unfolding placed_def same_time_fields(1) [OF S(3)]
  proof (intro allI ballI)
    fix k i y assume y: "y \<in> set (moved x K I W k i)"
    consider "y = x" "k = K" "i = I" | "y \<noteq> x" "y \<in> set (W k i)" using y by (auto simp: moved_def split: if_splits)
    then show "T \<le> due y \<and> (if k = 0 then due y < T + 256 \<and> i = due y mod 256
     else due y < T + 2 ^ 31 \<and> tm_expires (timer_of s y) = of_nat (due y) \<and> i = (due y div span k) mod 64
        \<and> c k \<le> due y div span k \<and> due y div span k < c k + 64)"
    proof cases
      case 1
      then show ?thesis using new D by blast
    next
      case 2
      then show ?thesis using pl unfolding placed_def by blast
    qed
  qed
  then show ?thesis using S clock_same [OF cl S(3,4)] by blast
qed

lemma level_below:
  assumes "1 \<le> n" "n < 5" "d < span n"
  shows "level_of d < n"
proof -
  consider "n = 1" | "n = 2" | "n = 3" | "n = 4" using assms(1,2) by linarith
  then show ?thesis using assms(3) by cases (simp_all add: level_of_def span_def)
qed

lemma same_time_trans: "same_time s s1 \<Longrightarrow> same_time s1 s' \<Longrightarrow> same_time s s'"
proof -
  assume a: "same_time s s1" "same_time s1 s'"
  have "(timer_of s' x)\<lparr>tm_active := tm_active (timer_of s x)\<rparr> = timer_of s x" for x
    using same_time_fields [OF a(1), of x] same_time_fields [OF a(2), of x] by simp
  then show ?thesis using a by (simp add: same_time_def)
qed

lemma sseg_cong: "(\<And>x. x \<in> set xs \<Longrightarrow> nx x = nx' x) \<Longrightarrow> sseg nx xs q = sseg nx' xs q"
  by (induction xs) auto

lemma cascade_loop_law:
  assumes "wheel {(n, i)} s W" "W n i = rest" "sseg (link_next s) (map TMR rest) (Some h)" "distinct rest"
    "clock s T c" "placed s W due T c" "1 \<le> n" "n < 5" "\<forall>x\<in>set rest. due x < T + span n" "h = VEC n i"
  shows "\<exists>s' W'. cascade_loop h (first (map TMR rest) (Some h)) s = Some (Returns s') \<and> wheel {(n, i)} s' W' \<and> W' n i = []
    \<and> clock s' T c \<and> placed s' W' due T c \<and> same_time s s' \<and> tv_index s' = tv_index s
    \<and> (\<forall>x. (\<exists>k i. x \<in> set (W' k i)) \<longleftrightarrow> (\<exists>k i. x \<in> set (W k i)))"
  using assms
proof (induction rest arbitrary: s W)
  case Nil
  show ?case
    by (rule exI [of _ s], rule exI [of _ W]) (use Nil in \<open>simp add: cascade_loop.simps same_time_def\<close>)
next
  case (Cons x rest)
  have x: "x \<in> set (W n i)" using Cons.prems(2) by simp
  have only: "\<forall>k j. x \<in> set (W k j) \<longrightarrow> (k, j) \<in> {(n, i)}" using Cons.prems(1) x unfolding wheel_def by blast
  have px: "T \<le> due x" "due x < T + 2 ^ 31" "tm_expires (timer_of s x) = of_nat (due x)"
    using Cons.prems(6,7) x unfolding placed_def by (metis not_one_le_zero)+
  define K where "K = level_of (due x - T)"
  define I where "I = ring_of K (due x)"
  have "due x - T < span n" using Cons.prems(9) px(1) by auto
  then have "K < n" unfolding K_def by (rule level_below [OF Cons.prems(7,8)])
  then have KI: "(K, I) \<notin> {(n, i)}" by simp
  from attach_law [OF Cons.prems(1) only Cons.prems(5,6) px(3,1,2) K_def I_def KI] obtain s1 where
    S: "ktimer_attach x s = Returns s1" "wheel {(n, i)} s1 (moved x K I W)" "clock s1 T c" "placed s1 (moved x K I W) due T c"
      "same_time s s1" "tv_index s1 = tv_index s"
      "\<forall>y. y \<noteq> x \<longrightarrow> y \<notin> set (W K I) \<longrightarrow> link_next s1 (TMR y) = link_next s (TMR y)" by blast
  have rest: "moved x K I W n i = rest" using \<open>K < n\<close> Cons.prems(2,4) by (auto simp: moved_def)
  have nx: "link_next s1 (TMR y) = link_next s (TMR y)" if "y \<in> set rest" for y
  proof -
    have "y \<in> set (W n i)" "y \<noteq> x" using that Cons.prems(2,4) by auto
    moreover then have "y \<notin> set (W K I)" using Cons.prems(1) \<open>K < n\<close> unfolding wheel_def by (metis less_irrefl)
    ultimately show ?thesis using S(7) by blast
  qed
  have sg: "sseg (link_next s1) (map TMR rest) (Some h)"
    using Cons.prems(3) sseg_cong [of "map TMR rest" "link_next s1" "link_next s"] nx by auto
  obtain s' W' where R: "cascade_loop h (first (map TMR rest) (Some h)) s1 = Some (Returns s')" "wheel {(n, i)} s' W'" "W' n i = []"
    "clock s' T c" "placed s' W' due T c" "same_time s1 s'" "tv_index s' = tv_index s1"
    "\<forall>y. (\<exists>k i. y \<in> set (W' k i)) \<longleftrightarrow> (\<exists>k i. y \<in> set (moved x K I W k i))"
  proof -
    have "distinct rest" "\<forall>x\<in>set rest. due x < T + span n" using Cons.prems(4,9) by simp_all
    from Cons.IH [OF S(2) rest sg this(1) S(3,4) Cons.prems(7,8) this(2) Cons.prems(10)] show thesis using that by blast
  qed
  have "(\<exists>k j. y \<in> set (moved x K I W k j)) \<longleftrightarrow> (\<exists>k j. y \<in> set (W k j))" for y
    using x unfolding moved_members by blast
  then have mem: "\<forall>y. (\<exists>k i. y \<in> set (W' k i)) \<longleftrightarrow> (\<exists>k i. y \<in> set (W k i))" using R(8) by simp
  have "link_next s (TMR x) = first (map TMR rest) (Some h)" using Cons.prems(3) by simp
  then have "cascade_loop h (first (map TMR (x # rest)) (Some h)) s = cascade_loop h (first (map TMR rest) (Some h)) s1"
    using S(1) Cons.prems(10) cascade_loop.simps [of h "Some (TMR x)" s] by simp
  then show ?case using R mem same_time_trans [OF S(5) R(6)] S(6) by auto
qed

lemma dseg_sseg: "dseg nx pv p xs q \<Longrightarrow> sseg nx xs q"
  by (induction xs arbitrary: p) auto

lemma clock_index: "clock s T c \<Longrightarrow> 1 \<le> n \<Longrightarrow> n < 5 \<Longrightarrow> tv_index s n = c n mod 64"
  by (simp add: clock_def)

lemma placedD:
  assumes "placed s W due T c" "x \<in> set (W k i)" "k \<noteq> 0"
  shows "T \<le> due x" "tm_expires (timer_of s x) = of_nat (due x)" "i = (due x div span k) mod 64" "c k \<le> due x div span k"
    "due x div span k < c k + 64"
  using assms unfolding placed_def by metis+

lemma mod_range_eq: "c \<le> a \<Longrightarrow> a < c + m \<Longrightarrow> a mod m = c mod m \<Longrightarrow> a = (c :: nat)"
proof -
  assume a: "c \<le> a" "a < c + m" "a mod m = c mod m"
  have "(a - c) mod m = 0" using a(1,3) by (metis mod_eq_dvd_iff_nat dvd_eq_mod_eq_0)
  moreover have "a - c < m" using a by linarith
  ultimately show "a = c" using a(1) by simp
qed

lemma cascade_timers_law:
  assumes w: "wheel {} s W" and cl: "clock s T c" and pl: "placed s W due T c" and n: "1 \<le> n" "n < 5" and cn: "c n * span n = T"
  shows "\<exists>s' W'. cascade_timers n s = Returns s' \<and> wheel {} s' W' \<and> clock s' T (c(n := c n + 1)) \<and> placed s' W' due T (c(n := c n + 1))
    \<and> same_time s s' \<and> (\<forall>x. tm_active (timer_of s' x) = tm_active (timer_of s x)) \<and> tv_index s' n = (c n + 1) mod 64"
proof -
  define i h where "i = c n mod 64" and "h = VEC n i"
  have ix: "tv_index s n = i" using clock_index [OF cl n] by (simp add: i_def)
  have ir: "i < rings n" using n by (simp add: rings_def i_def)
  have r: "ring (link_next s) (link_prev s) h (map TMR (W n i))" using w n ir by (simp add: wheel_def h_def)
  have nxt: "link_next s h = first (map TMR (W n i)) (Some h)" and sg: "sseg (link_next s) (map TMR (W n i)) (Some h)"
    and dis: "distinct (W n i)" using r dseg_sseg by (auto simp: ring_def distinct_map)
  have w1: "wheel {(n, i)} s W" using w by (simp add: wheel_def)
  have due: "\<forall>x\<in>set (W n i). due x < T + span n"
  proof
    fix x assume x: "x \<in> set (W n i)"
    have "n \<noteq> 0" using n by simp
    note P = placedD [OF pl x this]
    have "due x div span n = c n" using mod_range_eq [OF P(4,5)] P(3) by (simp add: i_def)
    then have "due x < (c n + 1) * span n" by (metis Suc_eq_plus1 dividend_less_div_times span_pos add.commute mult_Suc)
    then show "due x < T + span n" using cn by simp
  qed
  from cascade_loop_law [OF w1 refl sg dis cl pl n due h_def] obtain s1 W1 where
    L: "cascade_loop h (link_next s h) s = Some (Returns s1)" "wheel {(n, i)} s1 W1" "W1 n i = []" "clock s1 T c"
      "placed s1 W1 due T c" "same_time s s1" "tv_index s1 = tv_index s"
      "\<forall>x. (\<exists>k i. x \<in> set (W1 k i)) \<longleftrightarrow> (\<exists>k i. x \<in> set (W k i))" unfolding nxt by blast
  define s' where "s' = s1\<lparr>link_next := (link_next s1)(h := Some h), link_prev := (link_prev s1)(h := Some h),
     tv_index := (tv_index s1)(n := (c n + 1) mod 64)\<rparr>"
  have "(i + 1) mod 64 = (c n + 1) mod 64" by (simp add: i_def mod_simps)
  then have run: "cascade_timers n s = Returns s'"
    using L(1,7) ix by (simp add: cascade_timers_def Let_def h_def s'_def)
  have "wheel {} s' W1"
  proof -
    have "ring (link_next s') (link_prev s') (VEC k j) (map TMR (W1 k j))" if "k < 5" "j < rings k" for k j
    proof (cases "(k, j) = (n, i)")
      case True
      then show ?thesis using L(3) by (simp add: s'_def h_def)
    next
      case False
      then have "h \<notin> set (VEC k j # map TMR (W1 k j))" by (auto simp: h_def)
      then show ?thesis using L(2) that False by (simp add: s'_def wheel_def)
    qed
    then show ?thesis using L(2) by (simp add: wheel_def s'_def)
  qed
  moreover have "clock s' T (c(n := c n + 1))" using L(4) cn n by (auto simp: clock_def s'_def)
  moreover have "placed s' W1 due T (c(n := c n + 1))"
  proof -
    have "c n + 1 \<le> due x div span n" if x: "x \<in> set (W1 n j)" for x j
    proof -
      have "n \<noteq> 0" using n by simp
      note P = placedD [OF L(5) x this]
      have "j \<noteq> i" using x L(3) by auto
      then have "due x div span n \<noteq> c n" using P(3) by (auto simp: i_def)
      then show ?thesis using P(4) by simp
    qed
    then show ?thesis using L(5) unfolding placed_def by (force simp: s'_def)
  qed
  moreover have "same_time s1 s'" by (simp add: same_time_def s'_def)
  then have "same_time s s'" using same_time_trans [OF L(6)] by blast
  moreover have "tm_active (timer_of s' x) = tm_active (timer_of s x)" for x using w L(2,8) by (simp add: wheel_def s'_def)
  moreover have "tv_index s' n = (c n + 1) mod 64" by (simp add: s'_def)
  ultimately show ?thesis using run by blast
qed

lemma span_dvd: "1 \<le> n \<Longrightarrow> n < k \<Longrightarrow> 64 * span n dvd span k"
proof -
  assume n: "1 \<le> n" "n < k"
  have "64 * span n = 2 ^ (6 * (n + 1) + 2)" using n by (simp add: span_def power_add)
  moreover have "span k = 2 ^ (6 * k + 2)" using n by (simp add: span_def)
  moreover have "6 * (n + 1) + 2 \<le> 6 * k + 2" using n by simp
  ultimately show ?thesis by (metis le_imp_power_dvd)
qed

lemma spread_if_odd: "clock s T c \<Longrightarrow> 1 \<le> k \<Longrightarrow> k < 5 \<Longrightarrow> \<not> span k dvd T \<Longrightarrow> spread T c k"
proof -
  assume a: "clock s T c" "1 \<le> k" "k < 5" "\<not> span k dvd T"
  have "T \<le> c k * span k" using a(1-3) by (simp add: clock_def)
  moreover have "T \<noteq> c k * span k" using a(4) by auto
  ultimately show ?thesis by (simp add: spread_def)
qed

lemma cascade_all_law:
  assumes "wheel {} s W" "clock s T c" "placed s W due T c" "1 \<le> n" "n < 5" "span n dvd T"
    "\<forall>k\<in>{n..<5}. unspread T c k" "\<forall>k\<in>{1..<n}. spread T c k"
  shows "\<exists>s' W' c'. cascade_all n s = Returns s' \<and> wheel {} s' W' \<and> clock s' T c' \<and> placed s' W' due T c' \<and> same_time s s'
    \<and> (\<forall>x. tm_active (timer_of s' x) = tm_active (timer_of s x)) \<and> (\<forall>k\<in>{1..<5}. spread T c' k)"
  using assms
proof (induction "5 - n" arbitrary: n s W c)
  case (Suc m)
  note P = Suc.prems
  have cn: "c n * span n = T"
  proof -
    obtain a where a: "T = span n * a" using P(6) ..
    have "T \<le> c n * span n" "c n * span n < T + span n" using P(2,4,5,7) by (auto simp: clock_def unspread_def)
    then have "a * span n \<le> c n * span n" "c n * span n < (a + 1) * span n" using a by (simp_all add: mult.commute)
    then have "a \<le> c n" "c n < a + 1" by (simp_all only: mult_le_cancel2 mult_less_cancel2 span_pos simp_thms)
    then show ?thesis using a by simp
  qed
  define c1 where "c1 = c(n := c n + 1)"
  obtain s1 W1 where C: "cascade_timers n s = Returns s1" "wheel {} s1 W1" "clock s1 T c1" "placed s1 W1 due T c1" "same_time s s1"
    "\<forall>x. tm_active (timer_of s1 x) = tm_active (timer_of s x)" "tv_index s1 n = (c n + 1) mod 64"
    using cascade_timers_law [OF P(1-5) cn] unfolding c1_def by blast
  have dn: "\<forall>k\<in>{1..<n + 1}. spread T c1 k" using P(8) cn by (auto simp: spread_def c1_def less_Suc_eq)
  show ?case
  proof (cases "tv_index s1 n = 1 \<and> n + 1 < 5")
    case True
    have "c n mod 64 = 0" using True C(7) by presburger
    then have "64 * span n dvd T" using cn by (auto simp: dvd_eq_mod_eq_0 [symmetric])
    moreover have "span (n + 1) = 64 * span n" using P(4) by (simp add: span_def power_add)
    ultimately have d: "span (n + 1) dvd T" by simp
    have u: "\<forall>k\<in>{n + 1..<5}. unspread T c1 k" using P(7) by (simp add: unspread_def c1_def)
    have "m = 5 - (n + 1)" "1 \<le> n + 1" "n + 1 < 5" using Suc.hyps(2) True by auto
    from Suc.hyps(1) [OF this(1) C(2-4) this(2,3) d u dn] obtain s' W' c' where
      "cascade_all (n + 1) s1 = Returns s'" "wheel {} s' W'" "clock s' T c'" "placed s' W' due T c'" "same_time s1 s'"
      "\<forall>x. tm_active (timer_of s' x) = tm_active (timer_of s1 x)" "\<forall>k\<in>{1..<5}. spread T c' k" by blast
    moreover have "cascade_all n s = cascade_all (n + 1) s1" using C(1) True by (simp add: cascade_all.simps [of n s])
    ultimately show ?thesis using C(6) same_time_trans [OF C(5)] by metis
  next
    case False
    have "spread T c1 k" if k: "n < k" "k < 5" for k
    proof (rule spread_if_odd [OF C(3)])
      have "tv_index s1 n \<noteq> 1" using False k by linarith
      then have nz: "c n mod 64 \<noteq> 0" using C(7) by presburger
      show "\<not> span k dvd T"
      proof
        assume "span k dvd T"
        then have "64 * span n dvd c n * span n" using span_dvd [OF P(4) k(1)] cn dvd_trans by blast
        then have "64 dvd c n" using span_pos [of n] by (simp only: dvd_times_right_cancel_iff)
        then show False using nz by (simp add: dvd_eq_mod_eq_0)
      qed
    qed (use k P(4) in auto)
    then have "\<forall>k\<in>{1..<5}. spread T c1 k" using dn by (metis Suc_eq_plus1 atLeastLessThan_iff not_less_eq)
    moreover have "cascade_all n s = Returns s1" using C(1) False by (auto simp: cascade_all.simps [of n s])
    ultimately show ?thesis using C by blast
  qed
qed simp

lemma same_settings_fields:
  assumes "same_settings s s'"
  shows "tm_expires (timer_of s' x) = tm_expires (timer_of s x)" "tm_handler (timer_of s' x) = tm_handler (timer_of s x)"
    "tm_arg (timer_of s' x) = tm_arg (timer_of s x)"
  using assms unfolding same_settings_def
  by (metis timer.select_convs timer.surjective timer.update_convs(2))+

lemma same_settingsI:
  assumes "global_ticks s' = global_ticks s" "\<And>x. tm_expires (timer_of s' x) = tm_expires (timer_of s x)"
    "\<And>x. tm_handler (timer_of s' x) = tm_handler (timer_of s x)" "\<And>x. tm_arg (timer_of s' x) = tm_arg (timer_of s x)"
  shows "same_settings s s'"
  using assms by (simp add: same_settings_def)

lemma same_settings_trans: "same_settings s s1 \<Longrightarrow> same_settings s1 s' \<Longrightarrow> same_settings s s'"
  using same_settings_fields [of s s1] same_settings_fields [of s1 s']
  by (intro same_settingsI) (auto simp: same_settings_def)

lemma handled_cong: "same_settings s s' \<Longrightarrow> handled s' f xs b = handled s f xs b"
  unfolding handled_def by (simp add: same_settings_fields)

lemma wheel_ring: "wheel {} s W \<Longrightarrow> k < 5 \<Longrightarrow> i < rings k \<Longrightarrow> ring (link_next s) (link_prev s) (VEC k i) (map TMR (W k i))"
  unfolding wheel_def by blast

lemma detach_law:
  assumes w: "wheel {} s W" and x: "W k i = xs @ x # ys"
  shows "\<exists>s'. ktimer_detach x s = Returns (True, s') \<and> wheel {} s' (taken k i (xs @ ys) W) \<and> same_time s s' \<and> tv_index s' = tv_index s
    \<and> \<not> tm_active (timer_of s' x) \<and> (\<forall>y. y \<noteq> x \<longrightarrow> timer_of s' y = timer_of s y)"
proof -
  let ?h = "VEC k i"
  have ki: "k < 5" "i < rings k" using w x unfolding wheel_def by (metis Nil_is_append_conv list.distinct(1))+
  have act: "tm_active (timer_of s x)" using w x unfolding wheel_def by (metis in_set_conv_decomp)
  have r: "ring (link_next s) (link_prev s) ?h (map TMR xs @ TMR x # map TMR ys)" using wheel_ring [OF w ki] x by simp
  obtain n where n: "link_next s (TMR x) = Some n" "n \<noteq> TMR x" "n \<in> set (?h # map TMR (W k i))"
    using ring_neighbours(1) [OF r] r x by (cases ys) (auto simp: ring_def)
  obtain p where p0: "final (map TMR xs) (Some ?h) = Some p" "p \<in> set (?h # map TMR xs)" using final_Some [of "map TMR xs" ?h] by blast
  have p: "link_prev s (TMR x) = Some p" "p \<noteq> TMR x" "p \<in> set (?h # map TMR (W k i))"
    using ring_neighbours(2) [OF r] p0 r x by (auto simp: ring_def)
  define s' where "s' = upd_timer x (\<lambda>y. y\<lparr>tm_active := False\<rparr>) (s\<lparr>link_prev := (link_prev s)(n := Some p), link_next := (link_next s)(p := Some n)\<rparr>)"
  have run: "ktimer_detach x s = Returns (True, s')" using act n p by (simp add: ktimer_detach_def Let_def s'_def)
  have ln: "link_next s' = (link_next s)(p := Some n)" "link_prev s' = (link_prev s)(n := Some p)" by (simp_all add: s'_def)
  let ?W = "taken k i (xs @ ys) W"
  have mem: "y \<in> set (?W j l) \<longleftrightarrow> y \<in> set (W j l) \<and> y \<noteq> x" for y j l
  proof (cases "j = k \<and> l = i")
    case True
    have "x \<notin> set (xs @ ys)" using r by (auto simp: ring_def)
    then show ?thesis using True x by (auto simp: taken_def)
  next
    case False
    then have "x \<notin> set (W j l)" using w x unfolding wheel_def by (metis in_set_conv_decomp)
    then show ?thesis using False by (auto simp: taken_def)
  qed
  have "ring (link_next s') (link_prev s') (VEC j l) (map TMR (?W j l))" if jl: "j < 5" "l < rings j" for j l
  proof (cases "j = k \<and> l = i")
    case True
    then show ?thesis using ring_unlink [OF r n(1) p(1)] by (simp add: ln taken_def)
  next
    case False
    have "n \<notin> set (VEC j l # map TMR (W j l))" "p \<notin> set (VEC j l # map TMR (W j l))"
      using n(3) p(3) False w unfolding wheel_def by auto
    then show ?thesis using w jl False by (auto simp: ln taken_def wheel_def)
  qed
  moreover have "\<forall>y a b c d. y \<in> set (?W a b) \<longrightarrow> y \<in> set (?W c d) \<longrightarrow> a = c \<and> b = d"
    using w unfolding mem wheel_def by blast
  moreover have "\<forall>a b. ?W a b \<noteq> [] \<longrightarrow> a < 5 \<and> b < rings a" using w ki by (auto simp: wheel_def taken_def)
  moreover have "\<forall>y. tm_active (timer_of s' y) \<longleftrightarrow> (\<exists>a b. y \<in> set (?W a b))"
    using w unfolding mem by (auto simp: wheel_def s'_def)
  ultimately have "wheel {} s' ?W" by (simp add: wheel_def)
  moreover have "same_time s s'" by (simp add: same_time_def s'_def)
  ultimately show ?thesis using run by (auto simp: s'_def)
qed

lemma unlinked_wheel:
  assumes "wheel {} s W" "\<not> tm_active (timer_of s x)"
  shows "wheel {} (s\<lparr>link_next := (link_next s)(TMR x := None), link_prev := (link_prev s)(TMR x := None)\<rparr>) W"
proof -
  have "x \<notin> set (W k i)" for k i using assms by (auto simp: wheel_def)
  then have "TMR x \<notin> set (VEC k i # map TMR (W k i))" for k i by auto
  then show ?thesis using assms(1) by (simp add: wheel_def)
qed

lemma wheel_cong:
  assumes "link_next s' = link_next s" "link_prev s' = link_prev s" "timer_of s' = timer_of s"
  shows "wheel X s' W = wheel X s W"
  using assms by (simp add: wheel_def)

lemma timers_truncate_eq:
  assumes "timers.truncate s' = timers.truncate s"
  shows "link_next s' = link_next s" "link_prev s' = link_prev s" "timer_of s' = timer_of s" "tv_index s' = tv_index s"
    "timer_ticks s' = timer_ticks s" "global_ticks s' = global_ticks s"
  using assms by (simp_all add: timers.defs)

lemma expire_loop_law:
  assumes "wheel {} s W" "tv_index s 0 = j" "W 0 j = xs" "acts_on call f" "j < rings 0"
  shows "\<exists>s'. expire_loop call s = Some (Returns s') \<and> wheel {} s' (taken 0 j [] W) \<and> same_settings s s' \<and> tv_index s' = tv_index s
    \<and> timer_ticks s' = timer_ticks s \<and> timers.more s' = handled s f xs (timers.more s)"
  using assms
proof (induction xs arbitrary: s W)
  case Nil
  have "link_next s (VEC 0 j) = Some (VEC 0 j)" using wheel_ring [OF Nil(1), of 0 j] Nil by simp
  moreover have "taken 0 j [] W = W" using Nil by (auto simp: taken_def fun_eq_iff)
  ultimately show ?case using Nil by (simp add: expire_loop.simps Let_def handled_def same_settings_def)
next
  case (Cons x xs)
  obtain s1 where D: "ktimer_detach x s = Returns (True, s1)" "wheel {} s1 (taken 0 j xs W)" "same_time s s1" "tv_index s1 = tv_index s"
    "\<not> tm_active (timer_of s1 x)" using detach_law [OF Cons.prems(1), of 0 j "[]" x xs] Cons.prems(3) by auto
  define s2 where "s2 = s1\<lparr>link_next := (link_next s1)(TMR x := None), link_prev := (link_prev s1)(TMR x := None)\<rparr>"
  obtain s3 where C: "call (tm_handler (timer_of s x)) (tm_arg (timer_of s x)) s2 = Returns s3" "timers.truncate s3 = timers.truncate s2"
    "timers.more s3 = f (tm_handler (timer_of s x)) (tm_arg (timer_of s x)) (timers.more s2)"
    using Cons.prems(4) unfolding acts_on_def by blast
  note F = timers_truncate_eq [OF C(2)]
  have "wheel {} s2 (taken 0 j xs W)" unfolding s2_def by (rule unlinked_wheel [OF D(2,5)])
  then have w3: "wheel {} s3 (taken 0 j xs W)" using wheel_cong [OF F(1-3)] by simp
  have s3: "tv_index s3 = tv_index s" "timer_ticks s3 = timer_ticks s" "timers.more s2 = timers.more s"
    using D(3,4) F by (simp_all add: s2_def same_time_def)
  have st: "same_settings s s3" using D(3) F by (simp add: same_settings_def same_time_def s2_def)
  have "tv_index s3 0 = j" "taken 0 j xs W 0 j = xs" using s3 Cons.prems(2) by (simp_all add: taken_def)
  from Cons.IH [OF w3 this Cons.prems(4,5)] obtain s' where
    R: "expire_loop call s3 = Some (Returns s')" "wheel {} s' (taken 0 j [] (taken 0 j xs W))" "same_settings s3 s'" "tv_index s' = tv_index s3"
      "timer_ticks s' = timer_ticks s3" "timers.more s' = handled s3 f xs (timers.more s3)" by blast
  have "link_next s (VEC 0 j) = Some (TMR x)" using wheel_ring [OF Cons.prems(1), of 0 j] Cons.prems(3,5) by (simp add: ring_def)
  then have "expire_loop call s = expire_loop call s3"
    using Cons.prems(2) D(1) C(1) expire_loop.simps [of call s] by (simp add: Let_def s2_def)
  moreover have "taken 0 j [] (taken 0 j xs W) = taken 0 j [] W" by (auto simp: taken_def fun_eq_iff)
  moreover have "handled s3 f xs (timers.more s3) = handled s f (x # xs) (timers.more s)"
    using handled_cong [OF st, of f xs] C(3) s3 by (simp add: handled_def)
  ultimately show ?case using R s3 same_settings_trans [OF st R(3)] by simp
qed

lemma wheel_unique: "wheel X s W \<Longrightarrow> x \<in> set (W k i) \<Longrightarrow> x \<in> set (W j l) \<Longrightarrow> k = j \<and> i = l"
  unfolding wheel_def by blast

lemma wheel_active: "wheel X s W \<Longrightarrow> tm_active (timer_of s x) \<longleftrightarrow> (\<exists>k i. x \<in> set (W k i))"
  unfolding wheel_def by blast

lemma wheel_range: "wheel X s W \<Longrightarrow> x \<in> set (W k i) \<Longrightarrow> k < 5 \<and> i < rings k"
proof -
  assume w: "wheel X s W" and x: "x \<in> set (W k i)"
  have "W k i \<noteq> []" using x by auto
  then show ?thesis using w unfolding wheel_def by blast
qed

lemma placed_0: "placed s W due T c \<Longrightarrow> x \<in> set (W 0 i) \<Longrightarrow> T \<le> due x \<and> due x < T + 256 \<and> i = due x mod 256"
  unfolding placed_def by (metis)

lemma due_now:
  assumes w: "wheel {} s W" and cl: "clock s T c" and pl: "placed s W due T c" and sp: "\<forall>k\<in>{1..<5}. spread T c k"
  shows "set (W 0 (T mod 256)) = {x. tm_active (timer_of s x) \<and> due x = T}"
proof (intro set_eqI iffI)
  fix x assume x: "x \<in> set (W 0 (T mod 256))"
  then have "T \<le> due x" "due x < T + 256" "T mod 256 = due x mod 256" using placed_0 [OF pl x] by blast+
  then have "due x = T" using mod_range_eq [of T "due x" 256] by simp
  moreover have "tm_active (timer_of s x)" using wheel_active [OF w] x by blast
  ultimately show "x \<in> {x. tm_active (timer_of s x) \<and> due x = T}" by simp
next
  fix x assume "x \<in> {x. tm_active (timer_of s x) \<and> due x = T}"
  then obtain k i where ki: "x \<in> set (W k i)" "due x = T" using wheel_active [OF w] by blast
  have "k < 5" using wheel_range [OF w ki(1)] by simp
  have "k = 0"
  proof (rule ccontr)
    assume k: "k \<noteq> 0"
    then have "T < c k * span k" using sp \<open>k < 5\<close> by (simp add: spread_def)
    moreover have "c k * span k \<le> T" using placedD(4) [OF pl ki(1) k] ki(2) by (simp add: less_eq_div_iff_mult_less_eq)
    ultimately show False by simp
  qed
  then have x0: "x \<in> set (W 0 i)" using ki(1) by simp
  then have "i = T mod 256" using placed_0 [OF pl x0] ki(2) by simp
  then show "x \<in> set (W 0 (T mod 256))" using x0 by simp
qed

lemma timer_round_law:
  assumes inv: "timers_inv s due T" and act: "acts_on call f"
  shows "\<exists>s' xs. timer_round call s = Returns s' \<and> timers_inv s' due (T + 1) \<and> distinct xs
    \<and> set xs = {x. tm_active (timer_of s x) \<and> due x = T} \<and> same_settings s s' \<and> timer_ticks s' = timer_ticks s + 1
    \<and> (\<forall>x. tm_active (timer_of s' x) \<longleftrightarrow> tm_active (timer_of s x) \<and> due x \<noteq> T) \<and> timers.more s' = handled s f xs (timers.more s)"
proof -
  obtain W c where I: "wheel {} s W" "clock s T c" "placed s W due T c" "\<forall>k\<in>{1..<5}. unspread T c k"
    using inv by (auto simp: timers_inv_def)
  have i0: "tv_index s 0 = T mod 256" using I(2) by (simp add: clock_def)
  have s256: "span 1 = 256" by (simp add: span_def)
  obtain s1 W1 c1 where A: "(if tv_index s 0 = 0 then cascade_all 1 s else Returns s) = Returns s1" "wheel {} s1 W1" "clock s1 T c1"
    "placed s1 W1 due T c1" "same_time s s1" "\<forall>x. tm_active (timer_of s1 x) = tm_active (timer_of s x)" "\<forall>k\<in>{1..<5}. spread T c1 k"
  proof (cases "T mod 256 = 0")
    case True
    then have "span 1 dvd T" using s256 by (simp add: dvd_eq_mod_eq_0)
    from cascade_all_law [OF I(1-3) _ _ this I(4)] show thesis using that True i0 by auto
  next
    case False
    have "spread T c k" if k: "1 \<le> k" "k < 5" for k
    proof (rule spread_if_odd [OF I(2) k])
      have "span 1 dvd span k"
      proof (cases "k = 1")
        case False
        then have "64 * span 1 dvd span k" using k by (intro span_dvd) auto
        then show ?thesis by (rule dvd_mult_right)
      qed simp
      moreover have "\<not> span 1 dvd T" unfolding s256 using False by (simp add: dvd_eq_mod_eq_0)
      ultimately show "\<not> span k dvd T" using dvd_trans by blast
    qed
    then show thesis using that [of s W c] I False i0 by (auto simp: same_time_def)
  qed
  let ?j = "T mod 256"
  have j: "tv_index s1 0 = ?j" "?j < rings 0" using A(3) by (simp_all add: clock_def rings_def)
  from expire_loop_law [OF A(2) j(1) refl act j(2)] obtain s2 where
    E: "expire_loop call s1 = Some (Returns s2)" "wheel {} s2 (taken 0 ?j [] W1)" "same_settings s1 s2" "tv_index s2 = tv_index s1"
      "timer_ticks s2 = timer_ticks s1" "timers.more s2 = handled s1 f (W1 0 ?j) (timers.more s1)" by blast
  define s' where "s' = s2\<lparr>timer_ticks := timer_ticks s2 + 1, tv_index := (tv_index s2)(0 := (tv_index s2 0 + 1) mod 256)\<rparr>"
  have run: "timer_round call s = Returns s'" using A(1) E(1) by (simp add: timer_round_def s'_def)
  have now: "set (W1 0 ?j) = {x. tm_active (timer_of s x) \<and> due x = T}" using due_now [OF A(2-4,7)] A(6) by simp
  have w: "wheel {} s' (taken 0 ?j [] W1)" using E(2) wheel_cong [of s' s2] by (simp add: s'_def)
  have cl: "clock s' (T + 1) c1"
  proof -
    have "T + 1 \<le> c1 k * span k \<and> c1 k * span k \<le> T + 1 + span k" if "1 \<le> k" "k < 5" for k
    proof -
      have "k \<in> {1..<5}" using that by simp
      then have "T < c1 k * span k" "c1 k * span k \<le> T + span k" using A(3,7) unfolding clock_def spread_def by blast+
      then show ?thesis by simp
    qed
    then show ?thesis using A(3) E(4,5) j(1) by (auto simp: clock_def s'_def mod_Suc_eq)
  qed
  have pl: "placed s' (taken 0 ?j [] W1) due (T + 1) c1"
  proof -
    have "T + 1 \<le> due x \<and> (if k = 0 then due x < T + 1 + 256 \<and> i = due x mod 256
       else due x < T + 1 + 2 ^ 31 \<and> tm_expires (timer_of s1 x) = of_nat (due x) \<and> i = (due x div span k) mod 64
          \<and> c1 k \<le> due x div span k \<and> due x div span k < c1 k + 64)" if x: "x \<in> set (taken 0 ?j [] W1 k i)" for k i x
    proof -
      have xi: "x \<in> set (W1 k i)" "\<not> (k = 0 \<and> i = ?j)" using x by (auto simp: taken_def split: if_splits)
      have "x \<notin> set (W1 0 ?j)" using xi A(2) unfolding wheel_def by blast
      moreover have "tm_active (timer_of s1 x)" using xi(1) A(2) unfolding wheel_def by blast
      ultimately have "due x \<noteq> T" using now A(6) by simp
      moreover have "T \<le> due x \<and> (if k = 0 then due x < T + 256 \<and> i = due x mod 256
       else due x < T + 2 ^ 31 \<and> tm_expires (timer_of s1 x) = of_nat (due x) \<and> i = (due x div span k) mod 64
          \<and> c1 k \<le> due x div span k \<and> due x div span k < c1 k + 64)" using A(4) xi(1) unfolding placed_def by blast
      ultimately show ?thesis by (simp split: if_splits)
    qed
    moreover have ex: "tm_expires (timer_of s' x) = tm_expires (timer_of s1 x)" for x
      using same_settings_fields(1) [OF E(3)] by (simp add: s'_def)
    ultimately show ?thesis unfolding placed_def ex by blast
  qed
  have "\<forall>k\<in>{1..<5}. unspread (T + 1) c1 k" using A(3) by (auto simp: unspread_def clock_def less_Suc_eq_le)
  then have ti: "timers_inv s' due (T + 1)" using w cl pl unfolding timers_inv_def by blast
  have ss: "same_settings s s1" using A(5) by (simp add: same_settings_def same_time_def)
  have "same_settings s2 s'" by (simp add: same_settings_def s'_def)
  then have ss': "same_settings s s'" using same_settings_trans ss E(3) by blast
  have act': "tm_active (timer_of s' x) \<longleftrightarrow> tm_active (timer_of s x) \<and> due x \<noteq> T" for x
  proof -
    have one: "x \<in> set (taken 0 ?j [] W1 k i) \<longleftrightarrow> x \<in> set (W1 k i) \<and> x \<notin> set (W1 0 ?j)" for k i
      using wheel_unique [OF A(2), of x k i 0 ?j] by (cases "k = 0 \<and> i = ?j") (auto simp: taken_def)
    have "tm_active (timer_of s' x) \<longleftrightarrow> (\<exists>k i. x \<in> set (taken 0 ?j [] W1 k i))" by (rule wheel_active [OF w])
    also have "\<dots> \<longleftrightarrow> (\<exists>k i. x \<in> set (W1 k i)) \<and> x \<notin> set (W1 0 ?j)" unfolding one by blast
    also have "\<dots> \<longleftrightarrow> tm_active (timer_of s x) \<and> due x \<noteq> T" using wheel_active [OF A(2), of x] A(6) now by auto
    finally show ?thesis .
  qed
  have "distinct (W1 0 ?j)" using wheel_ring [OF A(2), of 0 ?j] j(2) by (auto simp: ring_def distinct_map)
  moreover have "timers.more s' = handled s f (W1 0 ?j) (timers.more s)"
    using E(6) handled_cong [OF ss] A(5) by (simp add: s'_def same_time_def)
  moreover have "timer_ticks s' = timer_ticks s + 1" using A(5) E(5) by (simp add: s'_def same_time_def)
  ultimately show ?thesis using run ti now ss' act' by blast
qed

lemma run_timer_law:
  assumes "timers_inv s due T" "acts_on call f" "global_ticks s + 1 = of_nat (T + m)" "m \<le> 2 ^ 31"
  shows "\<exists>s' xs. run_timer_loop call s = Some (Returns s') \<and> timers_inv s' due (T + m) \<and> distinct xs
    \<and> set xs = {x. tm_active (timer_of s x) \<and> due x < T + m} \<and> sorted (map due xs)
    \<and> (\<forall>x. tm_active (timer_of s' x) \<longleftrightarrow> tm_active (timer_of s x) \<and> T + m \<le> due x) \<and> timers.more s' = handled s f xs (timers.more s)"
  using assms
proof (induction m arbitrary: s T)
  case (0 s T)
  have tt: "timer_ticks s = of_nat T" "\<And>x. tm_active (timer_of s x) \<Longrightarrow> T \<le> due x"
    using 0(1) unfolding timers_inv_def clock_def placed_def by (auto simp: wheel_active)
  have "global_ticks s - timer_ticks s = -1" using 0(3) tt(1) by (simp add: algebra_simps eq_neg_iff_add_eq_0)
  then have "run_timer_loop call s = Some (Returns s)" by (simp add: run_timer_loop.simps)
  moreover have "{x. tm_active (timer_of s x) \<and> due x < T} = {}" using tt(2) by fastforce
  moreover have "tm_active (timer_of s x) \<longleftrightarrow> tm_active (timer_of s x) \<and> T + 0 \<le> due x" for x using tt(2) [of x] by auto
  moreover have "timers_inv s due (T + 0)" using 0(1) by simp
  ultimately show ?case by (intro exI [of _ s] exI [of _ "[]"]) (simp add: handled_def)
next
  case (Suc m s T)
  have tt: "timer_ticks s = of_nat T" using Suc.prems(1) unfolding timers_inv_def clock_def by auto
  have "global_ticks s - timer_ticks s = of_nat m" using Suc.prems(3) tt by (simp add: algebra_simps)
  moreover have "unat (of_nat m :: u32) = m" using Suc.prems(4) by (intro unat_small) simp
  ultimately have go: "sint (global_ticks s - timer_ticks s) \<ge> 0" using sint_nonneg [of "of_nat m"] Suc.prems(4) by simp
  from timer_round_law [OF Suc.prems(1,2)] obtain s1 ys where
    R: "timer_round call s = Returns s1" "timers_inv s1 due (T + 1)" "distinct ys" "set ys = {x. tm_active (timer_of s x) \<and> due x = T}"
      "same_settings s s1" "\<forall>x. tm_active (timer_of s1 x) \<longleftrightarrow> tm_active (timer_of s x) \<and> due x \<noteq> T"
      "timers.more s1 = handled s f ys (timers.more s)" by blast
  have "global_ticks s1 + 1 = of_nat (T + 1 + m)" "m \<le> 2 ^ 31" using R(5) Suc.prems(3,4) by (simp_all add: same_settings_def)
  from Suc.IH [OF R(2) Suc.prems(2) this] obtain s' xs where
    L: "run_timer_loop call s1 = Some (Returns s')" "timers_inv s' due (T + 1 + m)" "distinct xs"
      "set xs = {x. tm_active (timer_of s1 x) \<and> due x < T + 1 + m}" "sorted (map due xs)"
      "\<forall>x. tm_active (timer_of s' x) \<longleftrightarrow> tm_active (timer_of s1 x) \<and> T + 1 + m \<le> due x"
      "timers.more s' = handled s1 f xs (timers.more s1)" by blast
  have lo: "T \<le> due x" if "tm_active (timer_of s x)" for x
    using Suc.prems(1) that unfolding timers_inv_def placed_def by (auto simp: wheel_active)
  have "run_timer_loop call s = Some (Returns s')" using go R(1) L(1) by (simp add: run_timer_loop.simps [of call s])
  moreover have "distinct (ys @ xs)" using R(3,4,6) L(3,4) by auto
  moreover have "set (ys @ xs) = {x. tm_active (timer_of s x) \<and> due x < T + Suc m}" using R(4,6) L(4) lo by auto
  moreover have "sorted (map due (ys @ xs))"
  proof -
    have "map due ys = replicate (length ys) T" using R(4) by (intro replicate_eqI) auto
    then have "sorted (map due ys)" by simp
    moreover have "\<forall>a\<in>set ys. \<forall>b\<in>set xs. due a \<le> due b" using R(4,6) L(4) lo by auto
    ultimately show ?thesis using L(5) by (simp add: sorted_append)
  qed
  moreover have "tm_active (timer_of s' x) \<longleftrightarrow> tm_active (timer_of s x) \<and> T + Suc m \<le> due x" for x
    using L(6) [rule_format, of x] R(6) [rule_format, of x] by auto
  moreover have "timers.more s' = handled s f (ys @ xs) (timers.more s)"
    using L(7) R(7) handled_cong [OF R(5)] by (simp add: handled_def)
  moreover have "timers_inv s' due (T + Suc m)" using L(2) by simp
  ultimately show ?case by (intro exI [of _ s'] exI [of _ "ys @ xs"]) blast
qed

section \<open>Starting and stopping timers\<close>

lemma placed_cong:
  assumes "\<And>k i x. x \<in> set (W k i) \<Longrightarrow> due x = due' x"
  shows "placed s W due T c = placed s W due' T c"
  unfolding placed_def by (intro all_cong1 ball_cong refl) (simp add: assms)

lemma timer_add_law:
  assumes inv: "timers_inv s due T" and x: "\<not> tm_active (timer_of s x)" "tm_expires (timer_of s x) = of_nat D" "T \<le> D" "D < T + 2 ^ 31"
  shows "\<exists>s'. ktimer_add x s = Returns s' \<and> timers_inv s' (due(x := D)) T \<and> same_time s s'
    \<and> (\<forall>y. tm_active (timer_of s' y) \<longleftrightarrow> y = x \<or> tm_active (timer_of s y))"
proof -
  obtain W c where I: "wheel {} s W" "clock s T c" "placed s W due T c" "\<forall>k\<in>{1..<5}. unspread T c k"
    using inv by (auto simp: timers_inv_def)
  have nx: "x \<notin> set (W k i)" for k i using I(1) x(1) wheel_active by blast
  let ?d = "due(x := D)"
  have "placed s W due T c = placed s W ?d T c" by (rule placed_cong) (use nx in auto)
  then have pl: "placed s W ?d T c" using I(3) by simp
  define K J where "K = level_of (?d x - T)" and "J = ring_of K (?d x)"
  have e: "\<forall>k i. x \<in> set (W k i) \<longrightarrow> (k, i) \<in> {}" "tm_expires (timer_of s x) = of_nat (?d x)" "T \<le> ?d x" "?d x < T + 2 ^ 31" "(K, J) \<notin> {}"
    using nx x(2-4) by simp_all
  from attach_law [OF I(1) e(1) I(2) pl e(2-4) K_def J_def e(5)] obtain s' where
    A: "ktimer_attach x s = Returns s'" "wheel {} s' (moved x K J W)" "clock s' T c" "placed s' (moved x K J W) ?d T c" "same_time s s'"
    by blast
  have "timers_inv s' (due(x := D)) T" using A(2-4) I(4) unfolding timers_inv_def by blast
  moreover have "tm_active (timer_of s' y) \<longleftrightarrow> y = x \<or> tm_active (timer_of s y)" for y
    using wheel_active [OF A(2), of y] wheel_active [OF I(1), of y] unfolding moved_members by simp
  moreover have "ktimer_add x s = Returns s'" using A(1) x(1) by (simp add: ktimer_add_def)
  ultimately show ?thesis using A(5) by blast
qed

lemma timer_remove_law:
  assumes inv: "timers_inv s due T" and x: "tm_active (timer_of s x)"
  shows "\<exists>s'. ktimer_remove x s = Returns (True, s') \<and> timers_inv s' due T \<and> same_time s s'
    \<and> (\<forall>y. tm_active (timer_of s' y) \<longleftrightarrow> y \<noteq> x \<and> tm_active (timer_of s y))"
proof -
  obtain W c where I: "wheel {} s W" "clock s T c" "placed s W due T c" "\<forall>k\<in>{1..<5}. unspread T c k"
    using inv by (auto simp: timers_inv_def)
  obtain k i xs ys where ki: "W k i = xs @ x # ys" using x wheel_active [OF I(1), of x] by (auto simp: in_set_conv_decomp)
  from detach_law [OF I(1) ki] obtain s1 where
    D: "ktimer_detach x s = Returns (True, s1)" "wheel {} s1 (taken k i (xs @ ys) W)" "same_time s s1" "tv_index s1 = tv_index s"
      "\<not> tm_active (timer_of s1 x)" "\<forall>y. y \<noteq> x \<longrightarrow> timer_of s1 y = timer_of s y" by blast
  define s' where "s' = s1\<lparr>link_next := (link_next s1)(TMR x := None), link_prev := (link_prev s1)(TMR x := None)\<rparr>"
  have w: "wheel {} s' (taken k i (xs @ ys) W)" unfolding s'_def by (rule unlinked_wheel [OF D(2,5)])
  have st: "same_time s s'" using D(3) by (simp add: s'_def same_time_def)
  have "set (taken k i (xs @ ys) W j l) \<subseteq> set (W j l)" for j l using ki by (auto simp: taken_def)
  then have "placed s' (taken k i (xs @ ys) W) due T c"
    using I(3) unfolding placed_def same_time_fields(1) [OF st] by blast
  moreover have "clock s' T c" using clock_same [OF I(2) st] D(4) by (simp add: s'_def)
  ultimately have "timers_inv s' due T" using w I(4) unfolding timers_inv_def by blast
  moreover have "tm_active (timer_of s' y) \<longleftrightarrow> y \<noteq> x \<and> tm_active (timer_of s y)" for y
    using D(5,6) by (cases "y = x") (simp_all add: s'_def)
  moreover have "ktimer_remove x s = Returns (True, s')" using D(1) by (simp add: ktimer_remove_def s'_def)
  ultimately show ?thesis using st by blast
qed

section \<open>Properties\<close>

lemma timers_base_fields:
  "timer_of timers_base = (\<lambda>x. \<lparr>tm_expires = (if x = 1 then 290 else 7), tm_active = False, tm_handler = Tmr_sleep, tm_arg = 10 * x\<rparr>)"
  "tv_index timers_base = (\<lambda>_. 0)" "timer_ticks timers_base = 0" "global_ticks timers_base = 300"
  by (simp_all only: timers_base_def sched.extend_def timers.fields_def timers.simps)

lemma timers_extend_fields:
  "timer_of (timers.extend r x) = timer_of r" "tv_index (timers.extend r x) = tv_index r" "timer_ticks (timers.extend r x) = timer_ticks r"
  "global_ticks (timers.extend r x) = global_ticks r" "timers.more (timers.extend r x) = x"
  by (simp_all only: timers.extend_def timers.simps)

lemma timers_example_fields:
  "timer_of timers_example x = \<lparr>tm_expires = (if x = 1 then 290 else 7), tm_active = False, tm_handler = Tmr_sleep, tm_arg = 10 * x\<rparr>"
  "tv_index timers_example k = 0" "timer_ticks timers_example = 0" "global_ticks timers_example = 300" "timers.more timers_example = []"
  "k < 5 \<Longrightarrow> i < rings k \<Longrightarrow> link_next timers_example (VEC k i) = Some (VEC k i)"
  "k < 5 \<Longrightarrow> i < rings k \<Longrightarrow> link_prev timers_example (VEC k i) = Some (VEC k i)"
  by (simp_all add: timers_example_def init_timers_def timers_base_fields timers_extend_fields rings_def Let_def)

lemma timers_example_inv: "timers_inv timers_example due 0"
proof -
  have "wheel {} timers_example (\<lambda>_ _. [])" by (simp add: wheel_def timers_example_fields)
  moreover have "clock timers_example 0 (\<lambda>_. 0)" by (simp add: clock_def timers_example_fields)
  ultimately show ?thesis unfolding timers_inv_def
    by (intro exI [of _ "\<lambda>_ _. []"] exI [of _ "\<lambda>_. 0"]) (simp add: placed_def unspread_def)
qed



text \<open>
  C35. Adding a timer that is not pending makes it pending for its time, up to \<open>2 ^ 31\<close> ticks
  ahead, and removing a pending timer makes it not pending; both keep the timers in order and the
  state of the other timers.
\<close>

theorem ktimer_add_remove_correct:
  assumes "timers_inv s due T" "\<not> tm_active (timer_of s x)" "tm_expires (timer_of s x) = of_nat D" "T \<le> D" "D < T + 2 ^ 31"
  shows "\<exists>s1 s2. ktimer_add x s = Returns s1 \<and> timers_inv s1 (due(x := D)) T
     \<and> (\<forall>y. tm_active (timer_of s1 y) \<longleftrightarrow> y = x \<or> tm_active (timer_of s y))
     \<and> ktimer_remove x s1 = Returns (True, s2) \<and> timers_inv s2 (due(x := D)) T
     \<and> (\<forall>y. tm_active (timer_of s2 y) \<longleftrightarrow> tm_active (timer_of s y))"
proof -
  from timer_add_law [OF assms] obtain s1 where
    A: "ktimer_add x s = Returns s1" "timers_inv s1 (due(x := D)) T" "\<forall>y. tm_active (timer_of s1 y) \<longleftrightarrow> y = x \<or> tm_active (timer_of s y)" by blast
  from timer_remove_law [OF A(2), of x] A(3) obtain s2 where
    R: "ktimer_remove x s1 = Returns (True, s2)" "timers_inv s2 (due(x := D)) T"
      "\<forall>y. tm_active (timer_of s2 y) \<longleftrightarrow> y \<noteq> x \<and> tm_active (timer_of s1 y)" by blast
  have "tm_active (timer_of s2 y) \<longleftrightarrow> tm_active (timer_of s y)" for y using A(3) R(3) assms(2) by auto
  then show ?thesis using A R by blast
qed

theorem ktimer_add_remove_correct_witness:
  "\<exists>s1 s2. ktimer_add 1 timers_example = Returns s1 \<and> tm_active (timer_of s1 1) \<and> ktimer_remove 1 s1 = Returns (True, s2)
     \<and> \<not> tm_active (timer_of s2 1)"
proof -
  have "\<not> tm_active (timer_of timers_example 1)" "tm_expires (timer_of timers_example 1) = of_nat 290" by (simp_all add: timers_example_fields)
  from ktimer_add_remove_correct [OF timers_example_inv [of "\<lambda>_. 0"] this] obtain s1 s2 where
    "ktimer_add 1 timers_example = Returns s1" "\<forall>y. tm_active (timer_of s1 y) \<longleftrightarrow> y = 1 \<or> tm_active (timer_of timers_example y)"
    "ktimer_remove 1 s1 = Returns (True, s2)" "\<forall>y. tm_active (timer_of s2 y) \<longleftrightarrow> tm_active (timer_of timers_example y)" by auto
  then show ?thesis by (auto simp: timers_example_fields)
qed

end
