(* ===== verification/Task.thy ===== *)
theory Task
  imports Timer
begin

text \<open>
  Tasks of \<^verbatim>\<open>src/src/sys/kernel/sched.c\<close>: procedures that a task queue hands to a thread of its own,
  one after the other, and the tasks of the idle thread. Tasks and task queues are numbered;
  number 0 is the task queue of the system.
\<close>

section \<open>Data\<close>

record task =
  k_proc :: "nat option"
  k_arg :: nat
  k_next :: "nat option"
  k_flags :: u32

record task_queue =
  tq_head :: "nat option"
  tq_tail :: "nat option"
  tq_thread :: "nat option"
  tq_maxsize :: int
  tq_size :: int
  tq_flags :: u32

record task_state = timers +
  task_of :: "nat \<Rightarrow> task"
  task_queue_of :: "nat \<Rightarrow> task_queue"
  idle_tasks_head :: "nat option"
  idle_tasks_tail :: "nat option"

abbreviation (input) sys_task_queue :: nat where "sys_task_queue \<equiv> 0"
abbreviation (input) TASK_QUEUE_ACTIVE :: u32 where "TASK_QUEUE_ACTIVE \<equiv> 1"
abbreviation (input) TASK_QUEUE_ACTIVE_TASK_INVALID :: u32 where "TASK_QUEUE_ACTIVE_TASK_INVALID \<equiv> 2"
abbreviation (input) TASK_QUEUED :: u32 where "TASK_QUEUED \<equiv> 1"
abbreviation (input) TASK_EXECUTING :: u32 where "TASK_EXECUTING \<equiv> 2"
abbreviation (input) THREAD_WAIT_TASK :: int where "THREAD_WAIT_TASK \<equiv> 2"

definition upd_task :: "nat \<Rightarrow> (task \<Rightarrow> task) \<Rightarrow> 'a task_state_scheme \<Rightarrow> 'a task_state_scheme" where
  "upd_task k f s = s\<lparr>task_of := (task_of s)(k := f (task_of s k))\<rparr>"

definition upd_tq :: "nat \<Rightarrow> (task_queue \<Rightarrow> task_queue) \<Rightarrow> 'a task_state_scheme \<Rightarrow> 'a task_state_scheme" where
  "upd_tq q f s = s\<lparr>task_queue_of := (task_queue_of s)(q := f (task_queue_of s q))\<rparr>"

section \<open>Queueing\<close>

definition init_task :: "nat \<Rightarrow> 'a task_state_scheme \<Rightarrow> 'a task_state_scheme" where
  "init_task k s = upd_task k (\<lambda>_. \<lparr>k_proc = None, k_arg = 0, k_next = None, k_flags = 0\<rparr>) s"

text \<open>
  A queue that is not given is the one of the system. The size limit \<open>-1\<close> is \<^verbatim>\<open>INFINITE\<close>. A NULL
  thread is a fault.
\<close>

definition queue_task ::
    "nat option \<Rightarrow> nat \<Rightarrow> nat option \<Rightarrow> nat \<Rightarrow> 'a task_state_scheme \<Rightarrow> (int \<times> 'a task_state_scheme) outcome" where
  "queue_task tq k proc arg s =
     (let q = (case tq of None \<Rightarrow> sys_task_queue | Some q \<Rightarrow> q) in
      if k_flags (task_of s k) AND TASK_QUEUED \<noteq> 0 then Returns (- EBUSY, s)
      else if tq_maxsize (task_queue_of s q) \<noteq> -1 \<and> tq_size (task_queue_of s q) \<ge> tq_maxsize (task_queue_of s q)
      then Returns (- EAGAIN, s)
      else
        let s = upd_task k (\<lambda>x. x\<lparr>k_proc := proc, k_arg := arg, k_next := None, k_flags := k_flags x OR TASK_QUEUED\<rparr>) s;
            s = (case tq_tail (task_queue_of s q) of
                   Some l \<Rightarrow> upd_tq q (\<lambda>x. x\<lparr>tq_tail := Some k\<rparr>) (upd_task l (\<lambda>x. x\<lparr>k_next := Some k\<rparr>) s)
                 | None \<Rightarrow> upd_tq q (\<lambda>x. x\<lparr>tq_head := Some k, tq_tail := Some k\<rparr>) s);
            s = upd_tq q (\<lambda>x. x\<lparr>tq_size := tq_size x + 1\<rparr>) s in
        bind_outcome
          (if tq_flags (task_queue_of s q) AND TASK_QUEUE_ACTIVE = 0 then
             (case tq_thread (task_queue_of s q) of
                None \<Rightarrow> Faults
              | Some t \<Rightarrow> if t_state (threads s t) = WAITING then kthread_ready t 0 0 s else Returns s)
           else Returns s) (\<lambda>s.
        Returns (0, s)))"

section \<open>The thread of a queue\<close>

partial_function (option) task_queue_wait ::
    "'a task_state_scheme cpu \<Rightarrow> nat \<Rightarrow> 'a task_state_scheme \<Rightarrow> 'a task_state_scheme outcome option" where
  "task_queue_wait cpu q s =
     (if tq_head (task_queue_of s q) = None
      then then_loop (kthread_wait cpu THREAD_WAIT_TASK s) (task_queue_wait cpu q)
      else Some (Returns s))"

declare task_queue_wait.simps [code]

definition task_queue_get :: "nat \<Rightarrow> 'a task_state_scheme \<Rightarrow> (nat \<times> 'a task_state_scheme) outcome" where
  "task_queue_get q s =
     (case tq_head (task_queue_of s q) of
        None \<Rightarrow> Faults
      | Some k \<Rightarrow>
          let s = upd_tq q (\<lambda>x. x\<lparr>tq_head := k_next (task_of s k)\<rparr>) s;
              s = (if tq_tail (task_queue_of s q) = Some k then upd_tq q (\<lambda>x. x\<lparr>tq_tail := None\<rparr>) s else s)
          in Returns (k, upd_tq q (\<lambda>x. x\<lparr>tq_size := tq_size x - 1\<rparr>) s))"

definition task_execute ::
    "'a task_state_scheme cpu \<Rightarrow> nat \<Rightarrow> nat \<Rightarrow> 'a task_state_scheme \<Rightarrow> 'a task_state_scheme outcome" where
  "task_execute cpu q k s =
     (let s = upd_task k (\<lambda>x. x\<lparr>k_flags := k_flags x AND NOT TASK_QUEUED\<rparr>) s in
      if k_flags (task_of s k) AND TASK_EXECUTING = 0 then
        let s = upd_task k (\<lambda>x. x\<lparr>k_flags := k_flags x OR TASK_EXECUTING\<rparr>) s;
            s = upd_tq q (\<lambda>x. x\<lparr>tq_flags := tq_flags x OR TASK_QUEUE_ACTIVE\<rparr>) s in
        case k_proc (task_of s k) of
          None \<Rightarrow> Faults
        | Some proc \<Rightarrow>
            bind_outcome (call_proc cpu proc (k_arg (task_of s k)) s) (\<lambda>s.
            let s = (if tq_flags (task_queue_of s q) AND TASK_QUEUE_ACTIVE_TASK_INVALID = 0
                     then upd_task k (\<lambda>x. x\<lparr>k_flags := k_flags x AND NOT TASK_EXECUTING\<rparr>) s else s)
            in Returns (upd_tq q (\<lambda>x. x\<lparr>tq_flags :=
                 tq_flags x AND NOT (TASK_QUEUE_ACTIVE OR TASK_QUEUE_ACTIVE_TASK_INVALID)\<rparr>) s))
      else Returns s)"

text \<open>One round of the endless loop of the thread.\<close>

definition task_queue_task ::
    "'a task_state_scheme cpu \<Rightarrow> nat \<Rightarrow> 'a task_state_scheme \<Rightarrow> 'a task_state_scheme outcome" where
  "task_queue_task cpu q s =
     bind_outcome (run_loop (task_queue_wait cpu q s)) (\<lambda>s.
     bind_outcome (task_queue_get q s) (\<lambda>(k, s). task_execute cpu q k s))"

section \<open>The idle thread\<close>

definition ksched_add_idle_task :: "nat \<Rightarrow> nat option \<Rightarrow> nat \<Rightarrow> 'a task_state_scheme \<Rightarrow> 'a task_state_scheme" where
  "ksched_add_idle_task k proc arg s =
     (let s = upd_task k (\<lambda>x. x\<lparr>k_proc := proc, k_arg := arg, k_next := None, k_flags := k_flags x OR TASK_QUEUED\<rparr>) s in
      case idle_tasks_tail s of
        Some l \<Rightarrow> (upd_task l (\<lambda>x. x\<lparr>k_next := Some k\<rparr>) s)\<lparr>idle_tasks_tail := Some k\<rparr>
      | None \<Rightarrow> s\<lparr>idle_tasks_head := Some k, idle_tasks_tail := Some k\<rparr>)"

partial_function (option) idle_tasks_loop ::
    "'a task_state_scheme cpu \<Rightarrow> nat option \<Rightarrow> 'a task_state_scheme \<Rightarrow> 'a task_state_scheme outcome option" where
  "idle_tasks_loop cpu k s =
     (case k of
        None \<Rightarrow> Some (Returns s)
      | Some k \<Rightarrow>
          if \<not> ksched_is_system_idle s then Some (Returns s)
          else
            let s = upd_task k (\<lambda>x. x\<lparr>k_flags := k_flags x OR TASK_EXECUTING\<rparr>) s in
            case k_proc (task_of s k) of
              None \<Rightarrow> Some Faults
            | Some proc \<Rightarrow>
                then_loop (call_proc cpu proc (k_arg (task_of s k)) s) (\<lambda>s.
                  let s = upd_task k (\<lambda>x. x\<lparr>k_flags := k_flags x AND NOT TASK_EXECUTING\<rparr>) s
                  in idle_tasks_loop cpu (k_next (task_of s k)) s))"

declare idle_tasks_loop.simps [code]

text \<open>One round of the endless loop of the idle thread; halting until the next interrupt changes nothing.\<close>

definition ksched_idle :: "'a task_state_scheme cpu \<Rightarrow> 'a task_state_scheme \<Rightarrow> 'a task_state_scheme outcome" where
  "ksched_idle cpu s =
     (let t = self s in
      bind_outcome (run_loop (idle_tasks_loop cpu (idle_tasks_head s) s)) (\<lambda>s.
      bind_outcome (kthread_ready t 0 0 s) (ksched_dispatch cpu)))"

end
