(* ===== verification/Waitlist.thy ===== *)
theory Waitlist
  imports Task
begin

text \<open>
  Objects that threads wait for, from \<^verbatim>\<open>src/src/include/os/object.h\<close>, and the wait lists of
  \<^verbatim>\<open>src/src/sys/kernel/object.c\<close>. A thread that waits has a list of wait blocks, one for each object
  it waits for, and each object has a queue of the wait blocks of the threads that wait for it.
  Objects and wait blocks are known by their addresses. An object is kept with the fields of the
  structures that begin with it: an event, a semaphore, a mutex, an I/O object or an I/O
  multiplexer. The object and the thread of one thread control block have the same address.
\<close>

section \<open>Data\<close>

datatype object_type =
    OBJECT_THREAD
  | OBJECT_EVENT
  | OBJECT_TIMER
  | OBJECT_MUTEX
  | OBJECT_SEMAPHORE
  | OBJECT_FILE
  | OBJECT_SOCKET
  | OBJECT_IOMUX
  | OBJECT_FILEMAP
  | OBJECT_OTHER

record object =
  o_type :: object_type
  signaled :: bool
  handle_count :: u16
  lock_count :: u16
  waitlist_head :: "nat option"
  waitlist_tail :: "nat option"
  manual_reset :: bool
  sem_count :: u32
  owner :: "nat option"
  recursion :: int
  iomux_of :: "nat option"
  io_context :: int
  io_next :: "nat option"
  io_prev :: "nat option"
  events_signaled :: u16
  events_monitored :: u16
  iomux_flags :: int
  ready_head :: "nat option"
  ready_tail :: "nat option"
  waiting_head :: "nat option"
  waiting_tail :: "nat option"

datatype waittype = WAIT_ALL | WAIT_ANY

record waitblock =
  wb_thread :: nat
  wb_object :: "nat option"
  wb_waittype :: waittype
  wb_waitkey :: int
  wb_next :: "nat option"
  next_wait :: "nat option"
  prev_wait :: "nat option"

record objects = task_state +
  obj :: "nat \<Rightarrow> object"
  waitblk :: "nat \<Rightarrow> waitblock"

definition upd_obj :: "nat \<Rightarrow> (object \<Rightarrow> object) \<Rightarrow> 'a objects_scheme \<Rightarrow> 'a objects_scheme" where
  "upd_obj ob f s = s\<lparr>obj := (obj s)(ob := f (obj s ob))\<rparr>"

definition upd_wb :: "nat \<Rightarrow> (waitblock \<Rightarrow> waitblock) \<Rightarrow> 'a objects_scheme \<Rightarrow> 'a objects_scheme" where
  "upd_wb w f s = s\<lparr>waitblk := (waitblk s)(w := f (waitblk s w))\<rparr>"

section \<open>The queue of an object\<close>

definition insert_in_waitlist :: "nat \<Rightarrow> nat \<Rightarrow> 'a objects_scheme \<Rightarrow> 'a objects_scheme" where
  "insert_in_waitlist ob w s =
     (let tail = waitlist_tail (obj s ob);
          s = upd_wb w (\<lambda>x. x\<lparr>next_wait := None, prev_wait := tail\<rparr>) s;
          s = (case tail of None \<Rightarrow> s | Some l \<Rightarrow> upd_wb l (\<lambda>x. x\<lparr>next_wait := Some w\<rparr>) s);
          s = upd_obj ob (\<lambda>x. x\<lparr>waitlist_tail := Some w\<rparr>) s
      in if waitlist_head (obj s ob) = None then upd_obj ob (\<lambda>x. x\<lparr>waitlist_head := Some w\<rparr>) s else s)"

definition remove_from_waitlist :: "nat \<Rightarrow> 'a objects_scheme \<Rightarrow> 'a objects_scheme outcome" where
  "remove_from_waitlist w s =
     (let s = (case next_wait (waitblk s w) of None \<Rightarrow> s
               | Some n \<Rightarrow> upd_wb n (\<lambda>x. x\<lparr>prev_wait := prev_wait (waitblk s w)\<rparr>) s);
          s = (case prev_wait (waitblk s w) of None \<Rightarrow> s
               | Some p \<Rightarrow> upd_wb p (\<lambda>x. x\<lparr>next_wait := next_wait (waitblk s w)\<rparr>) s) in
      case wb_object (waitblk s w) of
        None \<Rightarrow> Faults
      | Some ob \<Rightarrow>
          let s = (if waitlist_head (obj s ob) = Some w
                   then upd_obj ob (\<lambda>x. x\<lparr>waitlist_head := next_wait (waitblk s w)\<rparr>) s else s);
              s = (if waitlist_tail (obj s ob) = Some w
                   then upd_obj ob (\<lambda>x. x\<lparr>waitlist_tail := prev_wait (waitblk s w)\<rparr>) s else s)
          in Returns (upd_wb w (\<lambda>x. x\<lparr>wb_object := None, next_wait := None, prev_wait := None\<rparr>) s))"

section \<open>The blocks of a thread\<close>

text \<open>
  Whether the thread may run, walking its blocks. A thread that waits for any object of several
  may always run: \<open>all\<close> stays set when no block asks for all objects.
\<close>

partial_function (option) ready_to_run_loop ::
    "nat \<Rightarrow> bool \<Rightarrow> bool \<Rightarrow> nat option \<Rightarrow> 'a objects_scheme \<Rightarrow> (bool \<times> 'a objects_scheme) outcome option" where
  "ready_to_run_loop t some all w s =
     (case w of
        None \<Rightarrow> Some (Returns (some \<or> all, s))
      | Some w \<Rightarrow>
          (case wb_object (waitblk s w) of
             None \<Rightarrow> Some Faults
           | Some ob \<Rightarrow>
               let hit = signaled (obj s ob);
                   s = (if hit then upd_thread t (\<lambda>x. x\<lparr>waitkey := wb_waitkey (waitblk s w)\<rparr>) s else s);
                   (some, all) = (if wb_waittype (waitblk s w) = WAIT_ANY then (some \<or> hit, all) else (some, all \<and> hit))
               in ready_to_run_loop t some all (wb_next (waitblk s w)) s))"

declare ready_to_run_loop.simps [code]

definition thread_ready_to_run :: "nat \<Rightarrow> 'a objects_scheme \<Rightarrow> (bool \<times> 'a objects_scheme) outcome" where
  "thread_ready_to_run t s = run_loop (ready_to_run_loop t False True (waitlist (threads s t)) s)"

partial_function (option) cancel_wait_loop :: "nat option \<Rightarrow> 'a objects_scheme \<Rightarrow> 'a objects_scheme outcome option" where
  "cancel_wait_loop w s =
     (case w of
        None \<Rightarrow> Some (Returns s)
      | Some w \<Rightarrow> then_loop (remove_from_waitlist w s) (\<lambda>s. cancel_wait_loop (wb_next (waitblk s w)) s))"

declare cancel_wait_loop.simps [code]

definition cancel_wait :: "nat \<Rightarrow> 'a objects_scheme \<Rightarrow> 'a objects_scheme outcome" where
  "cancel_wait t s =
     bind_outcome (run_loop (cancel_wait_loop (waitlist (threads s t)) s)) (\<lambda>s.
       Returns (upd_thread t (\<lambda>x. x\<lparr>waitlist := None\<rparr>) s))"

definition release_thread :: "nat \<Rightarrow> 'a objects_scheme \<Rightarrow> 'a objects_scheme outcome" where
  "release_thread t s = bind_outcome (cancel_wait t s) (kthread_ready t 1 1)"

partial_function (option) release_waiters_loop :: "int \<Rightarrow> nat option \<Rightarrow> 'a objects_scheme \<Rightarrow> 'a objects_scheme outcome option" where
  "release_waiters_loop key w s =
     (case w of
        None \<Rightarrow> Some (Returns s)
      | Some w \<Rightarrow>
          let next = next_wait (waitblk s w); t = wb_thread (waitblk s w) in
          then_loop
            (bind_outcome (thread_ready_to_run t s) (\<lambda>(ready, s).
               if ready then release_thread t (upd_thread t (\<lambda>x. x\<lparr>waitkey := key\<rparr>) s) else Returns s))
            (release_waiters_loop key next))"

declare release_waiters_loop.simps [code]

definition release_waiters :: "nat \<Rightarrow> int \<Rightarrow> 'a objects_scheme \<Rightarrow> 'a objects_scheme outcome" where
  "release_waiters ob key s = run_loop (release_waiters_loop key (waitlist_head (obj s ob)) s)"

text \<open>The first waiting block whose thread may run; mutexes and file maps hand over to its thread.\<close>

partial_function (option) first_ready_loop :: "nat option \<Rightarrow> 'a objects_scheme \<Rightarrow> (nat option \<times> 'a objects_scheme) outcome option" where
  "first_ready_loop w s =
     (case w of
        None \<Rightarrow> Some (Returns (None, s))
      | Some w \<Rightarrow>
          then_loop (thread_ready_to_run (wb_thread (waitblk s w)) s) (\<lambda>(ready, s).
            if ready then Some (Returns (Some w, s)) else first_ready_loop (next_wait (waitblk s w)) s))"

declare first_ready_loop.simps [code]

section \<open>Objects\<close>

definition init_object :: "nat \<Rightarrow> object_type \<Rightarrow> 'a objects_scheme \<Rightarrow> 'a objects_scheme" where
  "init_object ob ty s =
     upd_obj ob (\<lambda>x. x\<lparr>o_type := ty, signaled := False, handle_count := 0, lock_count := 0,
                       waitlist_head := None, waitlist_tail := None\<rparr>) s"

text \<open>Setting all bytes of a thread to zero, its object included, and the object of type thread.\<close>

definition zero_thread :: thread where
  "zero_thread = \<lparr>t_state = INITIALIZED, quantum = 0, wait_reason = 0, t_flags = 0, priority = 0, base_priority = 0,
     t_id = 0, t_hndl = 0, has_tib = False, suspend_count = 0, entrypoint = 0, exitcode = 0, t_name = [],
     ruid = 0, rgid = 0, euid = 0, egid = 0, groups = [], curdir = [], blocked_signals = 0, pending_signals = 0,
     utime = 0, stime = 0, context_switches = 0, preempts = 0, t_next = None, t_prev = None,
     next_ready = None, prev_ready = None, waitlist = None, waitkey = 0\<rparr>"

definition init_thread :: "nat \<Rightarrow> int \<Rightarrow> 'a objects_scheme \<Rightarrow> 'a objects_scheme" where
  "init_thread t prio s =
     (let s = init_object t OBJECT_THREAD (upd_thread t (\<lambda>_. zero_thread) s);
          s = upd_timer t (\<lambda>_. \<lparr>tm_expires = 0, tm_active = False, tm_handler = Timerproc 0, tm_arg = 0\<rparr>) s;
          s = s\<lparr>link_next := (link_next s)(TMR t := None), link_prev := (link_prev s)(TMR t := None)\<rparr>;
          s = upd_thread t (\<lambda>x. x\<lparr>priority := prio, base_priority := prio, t_state := INITIALIZED, t_id := nexttid s\<rparr>) s
      in s\<lparr>nexttid := nexttid s + 1\<rparr>)"

definition kthread_exit :: "nat \<Rightarrow> 'a objects_scheme \<Rightarrow> 'a objects_scheme outcome" where
  "kthread_exit t s = release_waiters t (exitcode (threads s t)) (upd_obj t (\<lambda>x. x\<lparr>signaled := True\<rparr>) s)"

end
