(* ===== verification/Iomux.thy ===== *)
theory Iomux
  imports Waitlist
begin

text \<open>
  I/O multiplexers of \<^verbatim>\<open>src/src/sys/kernel/iomux.c\<close>: a multiplexer has the I/O objects attached to it
  in two queues, those with a monitored event that is signaled and those without, and hands the
  ready ones to the threads that wait for it. The select and poll calls on handles are with the
  handles.
\<close>

abbreviation (input) IOEVT_READ :: u16 where "IOEVT_READ \<equiv> 1"
abbreviation (input) IOEVT_WRITE :: u16 where "IOEVT_WRITE \<equiv> 2"
abbreviation (input) IOEVT_ERROR :: u16 where "IOEVT_ERROR \<equiv> 4"
abbreviation (input) IOEVT_ACCEPT :: u16 where "IOEVT_ACCEPT \<equiv> 8"
abbreviation (input) IOEVT_CONNECT :: u16 where "IOEVT_CONNECT \<equiv> 16"
abbreviation (input) IOEVT_CLOSE :: u16 where "IOEVT_CLOSE \<equiv> 32"

definition ISIOOBJECT :: "object \<Rightarrow> bool" where
  "ISIOOBJECT x \<longleftrightarrow> o_type x = OBJECT_SOCKET \<or> o_type x = OBJECT_FILE"

section \<open>The two queues\<close>

text \<open>Taking an object out of the chain it is in; the ends of the queue are set by the callers.\<close>

definition unchain_ioobject :: "nat \<Rightarrow> 'a objects_scheme \<Rightarrow> 'a objects_scheme" where
  "unchain_ioobject i s =
     (let s = (case io_next (obj s i) of None \<Rightarrow> s
               | Some n \<Rightarrow> upd_obj n (\<lambda>x. x\<lparr>io_prev := io_prev (obj s i)\<rparr>) s)
      in case io_prev (obj s i) of None \<Rightarrow> s
         | Some p \<Rightarrow> upd_obj p (\<lambda>x. x\<lparr>io_next := io_next (obj s i)\<rparr>) s)"

definition leave_waiting :: "nat \<Rightarrow> nat \<Rightarrow> 'a objects_scheme \<Rightarrow> 'a objects_scheme" where
  "leave_waiting m i s =
     (let s = (if waiting_head (obj s m) = Some i then upd_obj m (\<lambda>x. x\<lparr>waiting_head := io_next (obj s i)\<rparr>) s else s)
      in if waiting_tail (obj s m) = Some i then upd_obj m (\<lambda>x. x\<lparr>waiting_tail := io_prev (obj s i)\<rparr>) s else s)"

definition leave_ready :: "nat \<Rightarrow> nat \<Rightarrow> 'a objects_scheme \<Rightarrow> 'a objects_scheme" where
  "leave_ready m i s =
     (let s = (if ready_head (obj s m) = Some i then upd_obj m (\<lambda>x. x\<lparr>ready_head := io_next (obj s i)\<rparr>) s else s)
      in if ready_tail (obj s m) = Some i then upd_obj m (\<lambda>x. x\<lparr>ready_tail := io_prev (obj s i)\<rparr>) s else s)"

definition enter_ready :: "nat \<Rightarrow> nat \<Rightarrow> 'a objects_scheme \<Rightarrow> 'a objects_scheme" where
  "enter_ready m i s =
     (let tail = ready_tail (obj s m);
          s = upd_obj i (\<lambda>x. x\<lparr>io_next := None, io_prev := tail\<rparr>) s;
          s = (case tail of None \<Rightarrow> s | Some l \<Rightarrow> upd_obj l (\<lambda>x. x\<lparr>io_next := Some i\<rparr>) s);
          s = upd_obj m (\<lambda>x. x\<lparr>ready_tail := Some i\<rparr>) s;
          s = (if ready_head (obj s m) = None then upd_obj m (\<lambda>x. x\<lparr>ready_head := Some i\<rparr>) s else s)
      in upd_obj m (\<lambda>x. x\<lparr>signaled := True\<rparr>) s)"

definition enter_waiting :: "nat \<Rightarrow> nat \<Rightarrow> 'a objects_scheme \<Rightarrow> 'a objects_scheme" where
  "enter_waiting m i s =
     (let tail = waiting_tail (obj s m);
          s = upd_obj i (\<lambda>x. x\<lparr>io_next := None, io_prev := tail\<rparr>) s;
          s = (case tail of None \<Rightarrow> s | Some l \<Rightarrow> upd_obj l (\<lambda>x. x\<lparr>io_next := Some i\<rparr>) s);
          s = upd_obj m (\<lambda>x. x\<lparr>waiting_tail := Some i\<rparr>) s
      in if waiting_head (obj s m) = None then upd_obj m (\<lambda>x. x\<lparr>waiting_head := Some i\<rparr>) s else s)"

section \<open>Attaching and detaching\<close>

definition init_iomux :: "nat \<Rightarrow> int \<Rightarrow> 'a objects_scheme \<Rightarrow> 'a objects_scheme" where
  "init_iomux m flags s =
     upd_obj m (\<lambda>x. x\<lparr>iomux_flags := flags, ready_head := None, ready_tail := None,
                      waiting_head := None, waiting_tail := None\<rparr>) (init_object m OBJECT_IOMUX s)"

definition init_ioobject :: "nat \<Rightarrow> object_type \<Rightarrow> 'a objects_scheme \<Rightarrow> 'a objects_scheme" where
  "init_ioobject i ty s =
     upd_obj i (\<lambda>x. x\<lparr>iomux_of := None, io_context := 0, io_next := None, io_prev := None,
                      events_signaled := 0, events_monitored := 0\<rparr>) (init_object i ty s)"

definition detach_ioobject :: "nat \<Rightarrow> 'a objects_scheme \<Rightarrow> 'a objects_scheme" where
  "detach_ioobject i s =
     (case iomux_of (obj s i) of
        None \<Rightarrow> s
      | Some m \<Rightarrow>
          let s = unchain_ioobject i s;
              s = (if events_monitored (obj s i) AND events_signaled (obj s i) \<noteq> 0 then
                     let s = leave_ready m i s in
                     if ready_head (obj s m) = None then upd_obj m (\<lambda>x. x\<lparr>signaled := False\<rparr>) s else s
                   else leave_waiting m i s)
          in upd_obj i (\<lambda>x. x\<lparr>iomux_of := None, io_next := None, io_prev := None\<rparr>) s)"

partial_function (option) close_iomux_loop :: "nat option \<Rightarrow> 'a objects_scheme \<Rightarrow> 'a objects_scheme outcome option" where
  "close_iomux_loop i s =
     (case i of
        None \<Rightarrow> Some (Returns s)
      | Some i \<Rightarrow>
          close_iomux_loop (io_next (obj s i)) (upd_obj i (\<lambda>x. x\<lparr>iomux_of := None, io_next := None, io_prev := None\<rparr>) s))"

declare close_iomux_loop.simps [code]

definition close_iomux :: "nat \<Rightarrow> 'a objects_scheme \<Rightarrow> (int \<times> 'a objects_scheme) outcome" where
  "close_iomux m s =
     bind_outcome (run_loop (close_iomux_loop (ready_head (obj s m)) s)) (\<lambda>s.
     bind_outcome (run_loop (close_iomux_loop (waiting_head (obj s m)) s)) (\<lambda>s.
     Returns (0, s)))"

section \<open>Events\<close>

partial_function (option) release_waiting_loop ::
    "nat \<Rightarrow> nat option \<Rightarrow> nat option \<Rightarrow> 'a objects_scheme \<Rightarrow> 'a objects_scheme outcome option" where
  "release_waiting_loop m i w s =
     (case (i, w) of
        (Some i, Some w) \<Rightarrow>
          let next = next_wait (waitblk s w); t = wb_thread (waitblk s w) in
          then_loop (thread_ready_to_run t s) (\<lambda>(ready, s).
            if ready then
              let s = detach_ioobject i (upd_thread t (\<lambda>x. x\<lparr>waitkey := io_context (obj s i)\<rparr>) s) in
              then_loop (release_thread t s) (\<lambda>s. release_waiting_loop m (ready_head (obj s m)) next s)
            else release_waiting_loop m (Some i) next s)
      | _ \<Rightarrow> Some (Returns s))"

declare release_waiting_loop.simps [code]

definition release_waiting_threads :: "nat \<Rightarrow> 'a objects_scheme \<Rightarrow> 'a objects_scheme outcome" where
  "release_waiting_threads m s = run_loop (release_waiting_loop m (ready_head (obj s m)) (waitlist_head (obj s m)) s)"

text \<open>The last test reads the state of the I/O object where the comment speaks of the multiplexer.\<close>

definition queue_ioobject :: "nat \<Rightarrow> nat \<Rightarrow> u16 \<Rightarrow> int \<Rightarrow> 'a objects_scheme \<Rightarrow> (int \<times> 'a objects_scheme) outcome" where
  "queue_ioobject m i events context s =
     (if \<not> ISIOOBJECT (obj s i) then Returns (- EBADF, s)
      else if events = 0 then Returns (- EINVAL, s)
      else if iomux_of (obj s i) \<noteq> None \<and> iomux_of (obj s i) \<noteq> Some m then Returns (- EPERM, s)
      else
        let (events, s) = (if iomux_of (obj s i) \<noteq> None
                           then (events OR events_monitored (obj s i), detach_ioobject i s) else (events, s));
            s = upd_obj i (\<lambda>x. x\<lparr>iomux_of := Some m, events_monitored := events, io_context := context\<rparr>) s;
            s = (if events_monitored (obj s i) AND events_signaled (obj s i) \<noteq> 0 then enter_ready m i s
                 else enter_waiting m i s) in
        bind_outcome (if signaled (obj s i) then release_waiting_threads m s else Returns s) (\<lambda>s.
        Returns (0, s)))"

definition set_io_event :: "nat \<Rightarrow> u16 \<Rightarrow> 'a objects_scheme \<Rightarrow> 'a objects_scheme outcome" where
  "set_io_event i events s =
     (case iomux_of (obj s i) of
        Some m \<Rightarrow>
          if events_monitored (obj s i) AND events_signaled (obj s i) = 0 \<and> events_monitored (obj s i) AND events \<noteq> 0 then
            let s = upd_obj i (\<lambda>x. x\<lparr>events_signaled := events_signaled x OR events\<rparr>) s
            in release_waiting_threads m (enter_ready m i (leave_waiting m i (unchain_ioobject i s)))
          else Returns (upd_obj i (\<lambda>x. x\<lparr>events_signaled := events_signaled x OR events\<rparr>) s)
      | None \<Rightarrow>
          let s = upd_obj i (\<lambda>x. x\<lparr>events_signaled := events_signaled x OR events\<rparr>) s in
          if events_signaled (obj s i) AND IOEVT_READ \<noteq> 0
          then release_waiters i 0 (upd_obj i (\<lambda>x. x\<lparr>signaled := True\<rparr>) s)
          else Returns s)"

definition clear_io_event :: "nat \<Rightarrow> u16 \<Rightarrow> 'a objects_scheme \<Rightarrow> 'a objects_scheme" where
  "clear_io_event i events s =
     (let s = upd_obj i (\<lambda>x. x\<lparr>events_signaled := events_signaled x AND NOT events\<rparr>) s
      in if events_signaled (obj s i) AND IOEVT_READ = 0 then upd_obj i (\<lambda>x. x\<lparr>signaled := False\<rparr>) s else s)"

definition dequeue_event_from_iomux :: "nat \<Rightarrow> 'a objects_scheme \<Rightarrow> int \<times> 'a objects_scheme" where
  "dequeue_event_from_iomux m s =
     (case ready_head (obj s m) of
        None \<Rightarrow> (- ENOENT, s)
      | Some i \<Rightarrow> let s = detach_ioobject i s in (io_context (obj s i), s))"

end
