(* ===== verification/Object.thy ===== *)
theory Object
  imports Iomux
begin

text \<open>
  The objects of \<^verbatim>\<open>src/src/sys/kernel/object.c\<close>: entering an object that is signaled, waiting for one,
  for all and for any of several objects with a timeout, and the events, semaphores, mutexes,
  file maps and waitable timers that release the waiting threads.
\<close>

section \<open>Waitable timers\<close>

text \<open>The timer of a waitable timer has the address of its object. Times are compared with wrap-around.\<close>

definition time_before_eq :: "u32 \<Rightarrow> u32 \<Rightarrow> bool" where
  "time_before_eq a b \<longleftrightarrow> sint (b - a) \<ge> 0"

definition expire_waitable_timer :: "nat \<Rightarrow> 'a objects_scheme \<Rightarrow> 'a objects_scheme outcome" where
  "expire_waitable_timer ob s = release_waiters ob 0 (upd_obj ob (\<lambda>x. x\<lparr>signaled := True\<rparr>) s)"

definition init_waitable_timer :: "nat \<Rightarrow> u32 \<Rightarrow> 'a objects_scheme \<Rightarrow> 'a objects_scheme outcome" where
  "init_waitable_timer ob expires s =
     (let s = init_object ob OBJECT_TIMER s;
          s = ktimer_init ob Expire_waitable_timer ob s;
          s = upd_timer ob (\<lambda>x. x\<lparr>tm_expires := expires\<rparr>) s in
      if time_before_eq expires (global_ticks s) then Returns (upd_obj ob (\<lambda>x. x\<lparr>signaled := True\<rparr>) s)
      else ktimer_add ob s)"

definition modify_waitable_timer :: "nat \<Rightarrow> u32 \<Rightarrow> 'a objects_scheme \<Rightarrow> 'a objects_scheme outcome" where
  "modify_waitable_timer ob expires s = bind_outcome (ktimer_modify ob expires s) (\<lambda>(_, s). Returns s)"

definition cancel_waitable_timer :: "nat \<Rightarrow> 'a objects_scheme \<Rightarrow> 'a objects_scheme outcome" where
  "cancel_waitable_timer ob s =
     (if tm_active (timer_of s ob) then bind_outcome (ktimer_remove ob s) (\<lambda>(_, s). Returns s) else Returns s)"

text \<open>What the handlers of the timers of this kernel do; other handlers are a parameter.\<close>

definition timer_proc ::
    "(nat \<Rightarrow> nat \<Rightarrow> 'a objects_scheme \<Rightarrow> 'a objects_scheme outcome) \<Rightarrow> timerproc \<Rightarrow> nat
     \<Rightarrow> 'a objects_scheme \<Rightarrow> 'a objects_scheme outcome" where
  "timer_proc other p arg s =
     (case p of
        Tmr_sleep \<Rightarrow> tmr_sleep arg s
      | Tmr_alarm \<Rightarrow> tmr_alarm arg s
      | Expire_waitable_timer \<Rightarrow> expire_waitable_timer arg s
      | Timerproc n \<Rightarrow> other n arg s)"

definition timer_dpc ::
    "(nat \<Rightarrow> nat \<Rightarrow> 'a objects_scheme \<Rightarrow> 'a objects_scheme outcome) \<Rightarrow> 'a objects_scheme \<Rightarrow> 'a objects_scheme outcome" where
  "timer_dpc other s = run_timer_list (timer_proc other) s"

section \<open>Entering and waiting\<close>

definition enter_object :: "nat \<Rightarrow> 'a objects_scheme \<Rightarrow> int \<times> 'a objects_scheme" where
  "enter_object ob s =
     (case o_type (obj s ob) of
        OBJECT_THREAD \<Rightarrow> (exitcode (threads s ob), s)
      | OBJECT_EVENT \<Rightarrow> (0, if manual_reset (obj s ob) then s else upd_obj ob (\<lambda>x. x\<lparr>signaled := False\<rparr>) s)
      | OBJECT_MUTEX \<Rightarrow> (0, upd_obj ob (\<lambda>x. x\<lparr>signaled := False, owner := Some (self s), recursion := 1\<rparr>) s)
      | OBJECT_SEMAPHORE \<Rightarrow>
          let s = upd_obj ob (\<lambda>x. x\<lparr>sem_count := sem_count x - 1\<rparr>) s
          in (0, if sem_count (obj s ob) = 0 then upd_obj ob (\<lambda>x. x\<lparr>signaled := False\<rparr>) s else s)
      | OBJECT_IOMUX \<Rightarrow> dequeue_event_from_iomux ob s
      | OBJECT_FILEMAP \<Rightarrow> (0, upd_obj ob (\<lambda>x. x\<lparr>signaled := False\<rparr>) s)
      | _ \<Rightarrow> (0, s))"

text \<open>
  The addresses of the local variables of a call that waits: the wait blocks, the block of the
  timeout, and the timer of the timeout.
\<close>

record wait_frame =
  fr_wb :: "nat \<Rightarrow> nat"
  fr_wbtmo :: nat
  fr_timer :: nat

abbreviation (input) THREAD_WAIT_OBJECT :: int where "THREAD_WAIT_OBJECT \<equiv> 0"
abbreviation (input) MAX_WAIT_OBJECTS :: nat where "MAX_WAIT_OBJECTS \<equiv> 16"

definition add_waitblock :: "nat \<Rightarrow> nat \<Rightarrow> nat \<Rightarrow> waittype \<Rightarrow> int \<Rightarrow> 'a objects_scheme \<Rightarrow> 'a objects_scheme" where
  "add_waitblock w t ob ty key s =
     insert_in_waitlist ob w
       (upd_wb w (\<lambda>x. x\<lparr>wb_thread := t, wb_object := Some ob, wb_waittype := ty, wb_waitkey := key, wb_next := None\<rparr>) s)"

definition add_timeout :: "wait_frame \<Rightarrow> nat \<Rightarrow> nat \<Rightarrow> u32 \<Rightarrow> 'a objects_scheme \<Rightarrow> 'a objects_scheme outcome" where
  "add_timeout fr w t timeout s =
     (let timeout = (if timeout < MSECS_PER_TICK then MSECS_PER_TICK else timeout) in
      bind_outcome (init_waitable_timer (fr_timer fr) (global_ticks s + timeout div MSECS_PER_TICK) s) (\<lambda>s.
      let s = upd_wb w (\<lambda>x. x\<lparr>wb_next := Some (fr_wbtmo fr)\<rparr>) s
      in Returns (add_waitblock (fr_wbtmo fr) t (fr_timer fr) WAIT_ANY (- ETIMEOUT) s)))"

definition block_thread :: "'a objects_scheme cpu \<Rightarrow> nat \<Rightarrow> bool \<Rightarrow> 'a objects_scheme \<Rightarrow> 'a objects_scheme outcome" where
  "block_thread cpu t alertable s =
     (if alertable then
        bind_outcome (kthread_alertable_wait cpu THREAD_WAIT_OBJECT s) (\<lambda>(rc, s).
          if rc < 0 then
            bind_outcome (cancel_wait t s) (\<lambda>s. Returns (upd_thread t (\<lambda>x. x\<lparr>waitkey := rc\<rparr>) s))
          else Returns s)
      else kthread_wait cpu THREAD_WAIT_OBJECT s)"

definition wait_for_one_object ::
    "'a objects_scheme cpu \<Rightarrow> wait_frame \<Rightarrow> nat \<Rightarrow> u32 \<Rightarrow> bool \<Rightarrow> 'a objects_scheme \<Rightarrow> (int \<times> 'a objects_scheme) outcome" where
  "wait_for_one_object cpu fr ob timeout alertable s =
     (let t = self s; w = fr_wb fr 0 in
      if signaled (obj s ob) then Returns (enter_object ob s)
      else if o_type (obj s ob) = OBJECT_MUTEX \<and> owner (obj s ob) = Some t then
        Returns (0, upd_obj ob (\<lambda>x. x\<lparr>recursion := recursion x + 1\<rparr>) s)
      else if timeout = 0 then Returns (- ETIMEOUT, s)
      else
        let s = add_waitblock w t ob WAIT_ANY 0 (upd_thread t (\<lambda>x. x\<lparr>waitlist := Some w\<rparr>) s) in
        if timeout = INFINITE then
          bind_outcome (block_thread cpu t alertable s) (\<lambda>s. Returns (waitkey (threads s t), s))
        else
          bind_outcome (add_timeout fr w t timeout s) (\<lambda>s.
          bind_outcome (block_thread cpu t alertable s) (\<lambda>s.
          bind_outcome (cancel_waitable_timer (fr_timer fr) s) (\<lambda>s.
          Returns (waitkey (threads s t), s)))))"

definition wait_for_object ::
    "'a objects_scheme cpu \<Rightarrow> wait_frame \<Rightarrow> nat \<Rightarrow> u32 \<Rightarrow> 'a objects_scheme \<Rightarrow> (int \<times> 'a objects_scheme) outcome" where
  "wait_for_object cpu fr ob timeout s = wait_for_one_object cpu fr ob timeout False s"

text \<open>The wait blocks of several objects: each block follows the one before.\<close>

definition add_waitblocks :: "wait_frame \<Rightarrow> nat \<Rightarrow> waittype \<Rightarrow> nat list \<Rightarrow> 'a objects_scheme \<Rightarrow> 'a objects_scheme outcome" where
  "add_waitblocks fr t ty obs s =
     for_each [0..<length obs] (\<lambda>n s.
       let s = (if n = 0 then upd_thread t (\<lambda>x. x\<lparr>waitlist := Some (fr_wb fr n)\<rparr>) s
                else upd_wb (fr_wb fr (n - 1)) (\<lambda>x. x\<lparr>wb_next := Some (fr_wb fr n)\<rparr>) s)
       in Returns (add_waitblock (fr_wb fr n) t (obs ! n) ty (int n) s)) s"

definition wait_for_several ::
    "'a objects_scheme cpu \<Rightarrow> wait_frame \<Rightarrow> waittype \<Rightarrow> nat list \<Rightarrow> u32 \<Rightarrow> bool \<Rightarrow> 'a objects_scheme
     \<Rightarrow> (int \<times> 'a objects_scheme) outcome" where
  "wait_for_several cpu fr ty obs timeout alertable s =
     (let t = self s in
      bind_outcome (add_waitblocks fr t ty obs s) (\<lambda>s.
      bind_outcome (if timeout \<noteq> INFINITE then add_timeout fr (fr_wb fr (length obs - 1)) t timeout s else Returns s) (\<lambda>s.
      bind_outcome (block_thread cpu t alertable s) (\<lambda>s.
      bind_outcome (if timeout \<noteq> INFINITE then cancel_waitable_timer (fr_timer fr) s else Returns s) (\<lambda>s.
      Returns (waitkey (threads s t), s))))))"

definition sleep_instead :: "'a objects_scheme cpu \<Rightarrow> wait_frame \<Rightarrow> u32 \<Rightarrow> 'a objects_scheme \<Rightarrow> (int \<times> 'a objects_scheme) outcome" where
  "sleep_instead cpu fr timeout s =
     (if timeout = INFINITE then Returns (- EINVAL, s)
      else bind_outcome (msleep cpu (fr_timer fr) timeout s) (\<lambda>(rc, s). Returns (if rc > 0 then - EINTR else 0, s)))"

definition own_mutex :: "nat \<Rightarrow> 'a objects_scheme \<Rightarrow> bool" where
  "own_mutex ob s \<longleftrightarrow> o_type (obj s ob) = OBJECT_MUTEX \<and> owner (obj s ob) = Some (self s)"

definition all_signaled :: "nat list \<Rightarrow> 'a objects_scheme \<Rightarrow> bool" where
  "all_signaled obs s \<longleftrightarrow>
     list_all (\<lambda>ob. if o_type (obj s ob) = OBJECT_MUTEX then signaled (obj s ob) \<and> owner (obj s ob) = Some (self s)
                    else signaled (obj s ob)) obs"

primrec enter_all_objects :: "nat list \<Rightarrow> int \<Rightarrow> 'a objects_scheme \<Rightarrow> int \<times> 'a objects_scheme" where
  "enter_all_objects [] rc s = (rc, s)"
| "enter_all_objects (ob # obs) rc s =
     (if signaled (obj s ob) then let (r, s) = enter_object ob s in enter_all_objects obs (rc OR r) s
      else if own_mutex ob s then enter_all_objects obs rc (upd_obj ob (\<lambda>x. x\<lparr>recursion := recursion x + 1\<rparr>) s)
      else enter_all_objects obs rc s)"

definition wait_for_all_objects ::
    "'a objects_scheme cpu \<Rightarrow> wait_frame \<Rightarrow> nat list \<Rightarrow> u32 \<Rightarrow> bool \<Rightarrow> 'a objects_scheme
     \<Rightarrow> (int \<times> 'a objects_scheme) outcome" where
  "wait_for_all_objects cpu fr obs timeout alertable s =
     (if obs = [] then sleep_instead cpu fr timeout s
      else if length obs > MAX_WAIT_OBJECTS then Returns (- EINVAL, s)
      else if all_signaled obs s then Returns (enter_all_objects obs 0 s)
      else if timeout = 0 then Returns (- ETIMEOUT, s)
      else wait_for_several cpu fr WAIT_ALL obs timeout alertable s)"

text \<open>The first object that can be entered at once, with the result of the call.\<close>

primrec enter_any_object :: "nat \<Rightarrow> nat list \<Rightarrow> 'a objects_scheme \<Rightarrow> (int \<times> 'a objects_scheme) option" where
  "enter_any_object n [] s = None"
| "enter_any_object n (ob # obs) s =
     (if signaled (obj s ob) then let (rc, s) = enter_object ob s in Some (if rc \<noteq> 0 then rc else int n, s)
      else if own_mutex ob s then Some (int n, upd_obj ob (\<lambda>x. x\<lparr>recursion := recursion x + 1\<rparr>) s)
      else enter_any_object (n + 1) obs s)"

definition wait_for_any_object ::
    "'a objects_scheme cpu \<Rightarrow> wait_frame \<Rightarrow> nat list \<Rightarrow> u32 \<Rightarrow> bool \<Rightarrow> 'a objects_scheme
     \<Rightarrow> (int \<times> 'a objects_scheme) outcome" where
  "wait_for_any_object cpu fr obs timeout alertable s =
     (if obs = [] then sleep_instead cpu fr timeout s
      else if length obs > MAX_WAIT_OBJECTS then Returns (- EINVAL, s)
      else
        case enter_any_object 0 obs s of
          Some r \<Rightarrow> Returns r
        | None \<Rightarrow>
            if timeout = 0 then Returns (- ETIMEOUT, s)
            else wait_for_several cpu fr WAIT_ANY obs timeout alertable s)"

section \<open>Events\<close>

definition init_event :: "nat \<Rightarrow> bool \<Rightarrow> bool \<Rightarrow> 'a objects_scheme \<Rightarrow> 'a objects_scheme" where
  "init_event ob manual initial s =
     upd_obj ob (\<lambda>x. x\<lparr>manual_reset := manual, signaled := initial\<rparr>) (init_object ob OBJECT_EVENT s)"

text \<open>The walk of \<^verbatim>\<open>pulse_event\<close> goes on only after it released a thread.\<close>

partial_function (option) pulse_event_loop :: "nat \<Rightarrow> nat option \<Rightarrow> 'a objects_scheme \<Rightarrow> 'a objects_scheme outcome option" where
  "pulse_event_loop ob w s =
     (case w of
        None \<Rightarrow> Some (Returns s)
      | Some b \<Rightarrow>
          let next = next_wait (waitblk s b); t = wb_thread (waitblk s b) in
          then_loop (thread_ready_to_run t s) (\<lambda>(ready, s).
            if ready then
              then_loop (release_thread t s) (\<lambda>s.
                if \<not> manual_reset (obj s ob) then Some (Returns s) else pulse_event_loop ob next s)
            else pulse_event_loop ob (Some b) s))"

declare pulse_event_loop.simps [code]

definition pulse_event :: "nat \<Rightarrow> 'a objects_scheme \<Rightarrow> 'a objects_scheme outcome" where
  "pulse_event ob s =
     (let s = upd_obj ob (\<lambda>x. x\<lparr>signaled := True\<rparr>) s in
      bind_outcome (run_loop (pulse_event_loop ob (waitlist_head (obj s ob)) s)) (\<lambda>s.
      Returns (upd_obj ob (\<lambda>x. x\<lparr>signaled := False\<rparr>) s)))"

partial_function (option) set_event_loop :: "nat \<Rightarrow> nat option \<Rightarrow> 'a objects_scheme \<Rightarrow> 'a objects_scheme outcome option" where
  "set_event_loop ob w s =
     (case w of
        None \<Rightarrow> Some (Returns s)
      | Some b \<Rightarrow>
          let next = next_wait (waitblk s b); t = wb_thread (waitblk s b) in
          then_loop (thread_ready_to_run t s) (\<lambda>(ready, s).
            if ready then
              then_loop (release_thread t s) (\<lambda>s.
                if \<not> manual_reset (obj s ob) then Some (Returns (upd_obj ob (\<lambda>x. x\<lparr>signaled := False\<rparr>) s))
                else set_event_loop ob next s)
            else set_event_loop ob next s))"

declare set_event_loop.simps [code]

definition set_event :: "nat \<Rightarrow> 'a objects_scheme \<Rightarrow> 'a objects_scheme outcome" where
  "set_event ob s =
     (let s = upd_obj ob (\<lambda>x. x\<lparr>signaled := True\<rparr>) s
      in run_loop (set_event_loop ob (waitlist_head (obj s ob)) s))"

definition reset_event :: "nat \<Rightarrow> 'a objects_scheme \<Rightarrow> 'a objects_scheme" where
  "reset_event ob s = upd_obj ob (\<lambda>x. x\<lparr>signaled := False\<rparr>) s"

section \<open>Semaphores\<close>

definition init_sem :: "nat \<Rightarrow> u32 \<Rightarrow> 'a objects_scheme \<Rightarrow> 'a objects_scheme" where
  "init_sem ob initial s =
     upd_obj ob (\<lambda>x. x\<lparr>sem_count := initial, signaled := initial > 0\<rparr>) (init_object ob OBJECT_SEMAPHORE s)"

partial_function (option) release_sem_loop :: "nat \<Rightarrow> nat option \<Rightarrow> 'a objects_scheme \<Rightarrow> 'a objects_scheme outcome option" where
  "release_sem_loop ob w s =
     (case w of
        None \<Rightarrow> Some (Returns s)
      | Some b \<Rightarrow>
          let next = next_wait (waitblk s b); t = wb_thread (waitblk s b) in
          then_loop (thread_ready_to_run t s) (\<lambda>(ready, s).
            if ready then
              then_loop (release_thread t (upd_obj ob (\<lambda>x. x\<lparr>sem_count := sem_count x - 1\<rparr>) s)) (\<lambda>s.
                if sem_count (obj s ob) = 0 then Some (Returns (upd_obj ob (\<lambda>x. x\<lparr>signaled := False\<rparr>) s))
                else release_sem_loop ob next s)
            else release_sem_loop ob next s))"

declare release_sem_loop.simps [code]

definition release_sem :: "nat \<Rightarrow> u32 \<Rightarrow> 'a objects_scheme \<Rightarrow> (u32 \<times> 'a objects_scheme) outcome" where
  "release_sem ob count s =
     (let prevcount = sem_count (obj s ob);
          s = upd_obj ob (\<lambda>x. x\<lparr>sem_count := sem_count x + count\<rparr>) s in
      bind_outcome
        (if sem_count (obj s ob) > 0 then
           let s = upd_obj ob (\<lambda>x. x\<lparr>signaled := True\<rparr>) s
           in run_loop (release_sem_loop ob (waitlist_head (obj s ob)) s)
         else Returns s) (\<lambda>s.
      Returns (prevcount, s)))"

definition set_sem :: "nat \<Rightarrow> u32 \<Rightarrow> 'a objects_scheme \<Rightarrow> (u32 \<times> 'a objects_scheme) outcome" where
  "set_sem ob count s =
     (let prevcount = sem_count (obj s ob);
          s = upd_obj ob (\<lambda>x. x\<lparr>sem_count := count\<rparr>) s in
      bind_outcome
        (if sem_count (obj s ob) > 0 then
           let s = upd_obj ob (\<lambda>x. x\<lparr>signaled := True\<rparr>) s
           in run_loop (release_sem_loop ob (waitlist_head (obj s ob)) s)
         else Returns s) (\<lambda>s.
      Returns (prevcount, s)))"

section \<open>Mutexes and file maps\<close>

definition init_mutex :: "nat \<Rightarrow> bool \<Rightarrow> 'a objects_scheme \<Rightarrow> 'a objects_scheme" where
  "init_mutex ob owned s =
     upd_obj ob (\<lambda>x. x\<lparr>owner := (if owned then Some (self s) else None), signaled := \<not> owned,
                       recursion := (if owned then 1 else 0)\<rparr>) (init_object ob OBJECT_MUTEX s)"

definition release_mutex :: "nat \<Rightarrow> 'a objects_scheme \<Rightarrow> (int \<times> 'a objects_scheme) outcome" where
  "release_mutex ob s =
     (if owner (obj s ob) \<noteq> Some (self s) then Returns (- EPERM, s)
      else
        let s = upd_obj ob (\<lambda>x. x\<lparr>recursion := recursion x - 1\<rparr>) s in
        if recursion (obj s ob) > 0 then Returns (0, s)
        else
          let s = upd_obj ob (\<lambda>x. x\<lparr>signaled := True, owner := None\<rparr>) s in
          bind_outcome (run_loop (first_ready_loop (waitlist_head (obj s ob)) s)) (\<lambda>(w, s).
          bind_outcome
            (case w of
               None \<Rightarrow> Returns s
             | Some w \<Rightarrow>
                 let t = wb_thread (waitblk s w)
                 in release_thread t (upd_obj ob (\<lambda>x. x\<lparr>owner := Some t, recursion := 1, signaled := False\<rparr>) s)) (\<lambda>s.
          Returns (0, s))))"

definition unlock_filemap :: "nat \<Rightarrow> 'a objects_scheme \<Rightarrow> (int \<times> 'a objects_scheme) outcome" where
  "unlock_filemap ob s =
     (let s = upd_obj ob (\<lambda>x. x\<lparr>signaled := True\<rparr>) s in
      bind_outcome (run_loop (first_ready_loop (waitlist_head (obj s ob)) s)) (\<lambda>(w, s).
      bind_outcome
        (case w of
           None \<Rightarrow> Returns s
         | Some w \<Rightarrow> release_thread (wb_thread (waitblk s w)) (upd_obj ob (\<lambda>x. x\<lparr>signaled := False\<rparr>) s)) (\<lambda>s.
      Returns (0, s))))"

section \<open>Closing and destroying\<close>

text \<open>
  What other parts of the kernel do is a parameter: files and sockets are closed and destroyed, the
  stack and the information block of a user thread are released, and the debugger is told of its end.
\<close>

record 's services =
  close_file :: "nat \<Rightarrow> 's \<Rightarrow> (int \<times> 's) outcome"
  closesocket :: "nat \<Rightarrow> 's \<Rightarrow> (int \<times> 's) outcome"
  destroy_file :: "nat \<Rightarrow> 's \<Rightarrow> (int \<times> 's) outcome"
  free_user_memory :: "nat \<Rightarrow> 's \<Rightarrow> 's outcome"
  notify_exit_thread :: "nat \<Rightarrow> 's \<Rightarrow> 's outcome"

partial_function (option) close_waiters_loop :: "nat \<Rightarrow> 'a objects_scheme \<Rightarrow> 'a objects_scheme outcome option" where
  "close_waiters_loop ob s =
     (case waitlist_head (obj s ob) of
        None \<Rightarrow> Some (Returns s)
      | Some w \<Rightarrow>
          let t = wb_thread (waitblk s w)
          in then_loop (release_thread t (upd_thread t (\<lambda>x. x\<lparr>waitkey := - EINTR\<rparr>) s)) (close_waiters_loop ob))"

declare close_waiters_loop.simps [code]

definition close_object ::
    "'a objects_scheme services \<Rightarrow> nat \<Rightarrow> 'a objects_scheme \<Rightarrow> (int \<times> 'a objects_scheme) outcome" where
  "close_object sv ob s =
     bind_outcome (run_loop (close_waiters_loop ob s)) (\<lambda>s.
       case o_type (obj s ob) of
         OBJECT_TIMER \<Rightarrow> bind_outcome (cancel_waitable_timer ob s) (\<lambda>s. Returns (0, s))
       | OBJECT_FILE \<Rightarrow> close_file sv ob s
       | OBJECT_SOCKET \<Rightarrow> closesocket sv ob s
       | OBJECT_IOMUX \<Rightarrow> close_iomux ob s
       | OBJECT_OTHER \<Rightarrow> Returns (- EBADF, s)
       | _ \<Rightarrow> Returns (0, s))"

text \<open>
  From \<^verbatim>\<open>src/src/sys/kernel/sched.c\<close>: a terminated thread gives back its user memory and leaves the ring of threads, and
  a task frees its control block. The task is kept in the control block, and its procedure has number \<open>DESTROY_TCB\<close>.
\<close>

abbreviation (input) DESTROY_TCB :: nat where "DESTROY_TCB \<equiv> 2"
abbreviation (input) PAGES_PER_TCB :: int where "PAGES_PER_TCB \<equiv> 2"

definition destroy_tcb :: "nat \<Rightarrow> 'a task_state_scheme \<Rightarrow> 'a task_state_scheme outcome" where
  "destroy_tcb arg s =
     bind_outcome (kmem_free (of_nat arg) PAGES_PER_TCB s) (\<lambda>s.
       Returns (upd_tq sys_task_queue (\<lambda>x. x\<lparr>tq_flags := tq_flags x OR TASK_QUEUE_ACTIVE_TASK_INVALID\<rparr>) s))"

definition kthread_destroy ::
    "'a objects_scheme services \<Rightarrow> nat \<Rightarrow> 'a objects_scheme \<Rightarrow> (int \<times> 'a objects_scheme) outcome" where
  "kthread_destroy sv t s =
     (if t_state (threads s t) \<noteq> TERMINATED then Panics ''thread terminated in invalid state''
      else
        bind_outcome
          (if has_tib (threads s t) then
             bind_outcome (free_user_memory sv t s) (\<lambda>s. Returns (upd_thread t (\<lambda>x. x\<lparr>has_tib := False\<rparr>) s))
           else Returns s) (\<lambda>s.
        bind_outcome (notify_exit_thread sv t s) (\<lambda>s.
        bind_outcome (remove_thread t s) (\<lambda>s.
        bind_outcome (queue_task (Some sys_task_queue) t (Some DESTROY_TCB) t (init_task t s)) (\<lambda>(_, s).
        Returns (0, s))))))"

definition destroy_object ::
    "'a objects_scheme services \<Rightarrow> nat \<Rightarrow> 'a objects_scheme \<Rightarrow> (int \<times> 'a objects_scheme) outcome" where
  "destroy_object sv ob s =
     (case o_type (obj s ob) of
        OBJECT_THREAD \<Rightarrow> kthread_destroy sv ob s
      | OBJECT_FILE \<Rightarrow> destroy_file sv ob s
      | OBJECT_OTHER \<Rightarrow> Returns (- EBADF, s)
      | _ \<Rightarrow> bind_outcome (kfree (of_nat ob) s) (\<lambda>s. Returns (0, s)))"

end
