(* ===== verification/Hndl.thy ===== *)
theory Hndl
  imports Object
begin

text \<open>
  The handle table of \<^verbatim>\<open>src/src/sys/kernel/hndl.c\<close>. A used entry holds the address of an object, which
  has its top bit set, and a protection bit; a free entry holds the next free handle. The table
  grows by a page at a time.
\<close>

section \<open>Data\<close>

record handles = objects +
  htab :: "nat \<Rightarrow> u32"
  hfreelist :: u32
  htabsize :: nat

abbreviation (input) HEND :: u32 where "HEND \<equiv> 0x7FFFFFFF"
abbreviation (input) HTABBASE :: u32 where "HTABBASE \<equiv> 0x91000000"
abbreviation (input) HTAB_ENTRIES :: nat where "HTAB_ENTRIES \<equiv> 4194304"
abbreviation (input) HANDLES_PER_PAGE :: nat where "HANDLES_PER_PAGE \<equiv> 1024"
abbreviation (input) PFT_HTAB :: u8 where "PFT_HTAB \<equiv> 0x02"

definition HUSED :: "u32 \<Rightarrow> bool" where
  "HUSED x \<longleftrightarrow> x AND OSBASE \<noteq> 0"

definition HPROT :: "u32 \<Rightarrow> bool" where
  "HPROT x \<longleftrightarrow> x AND 1 \<noteq> 0"

definition HOBJ :: "u32 \<Rightarrow> nat" where
  "HOBJ x = unat (x AND NOT 1)"

definition set_htab :: "nat \<Rightarrow> u32 \<Rightarrow> 'a handles_scheme \<Rightarrow> 'a handles_scheme" where
  "set_htab h v s = s\<lparr>htab := (htab s)(h := v)\<rparr>"

text \<open>Entries beyond the size of the table are not mapped.\<close>

definition get_htab :: "nat \<Rightarrow> 'a handles_scheme \<Rightarrow> u32 outcome" where
  "get_htab h s = (if h < htabsize s then Returns (htab s h) else Faults)"

section \<open>The free list\<close>

definition push_free :: "nat \<Rightarrow> 'a handles_scheme \<Rightarrow> 'a handles_scheme" where
  "push_free h s = (set_htab h (hfreelist s) s)\<lparr>hfreelist := of_nat h\<rparr>"

definition expand_htab :: "'a handles_scheme \<Rightarrow> (int \<times> 'a handles_scheme) outcome" where
  "expand_htab s =
     (if htabsize s = HTAB_ENTRIES then Returns (- ENFILE, s)
      else
        bind_outcome (kpframe_alloc 1 PFT_HTAB s) (\<lambda>(pfn, s).
        bind_outcome (kpage_map (HTABBASE + of_nat (4 * htabsize s)) pfn (PT_WRITABLE OR PT_PRESENT) s) (\<lambda>s.
        let s = fold push_free (rev [htabsize s..<htabsize s + HANDLES_PER_PAGE]) s
        in Returns (0, s\<lparr>htabsize := htabsize s + HANDLES_PER_PAGE\<rparr>))))"

text \<open>The walk along the free list never moves on: \<open>fl\<close> is not advanced.\<close>

partial_function (option) freelist_loop :: "nat \<Rightarrow> u32 \<Rightarrow> 'a handles_scheme \<Rightarrow> (int \<times> 'a handles_scheme) outcome option" where
  "freelist_loop h fl s =
     (if fl = HEND then Some (Returns (- EBADF, s))
      else
        then_loop (get_htab (unat fl) s) (\<lambda>v.
          if v = of_nat h then Some (Returns (0, set_htab (unat fl) (htab s h) s))
          else freelist_loop h fl s))"

declare freelist_loop.simps [code]

definition remove_from_freelist :: "nat \<Rightarrow> 'a handles_scheme \<Rightarrow> (int \<times> 'a handles_scheme) outcome" where
  "remove_from_freelist h s =
     (if of_nat h = hfreelist s then Returns (0, s\<lparr>hfreelist := htab s h\<rparr>)
      else run_loop (freelist_loop h (hfreelist s) s))"

section \<open>Handles\<close>

definition hlookup :: "int \<Rightarrow> 'a handles_scheme \<Rightarrow> nat option" where
  "hlookup h s =
     (if h < 0 \<or> h \<ge> int (htabsize s) then None
      else if \<not> HUSED (htab s (nat h)) then None
      else Some (HOBJ (htab s (nat h))))"

definition halloc :: "nat \<Rightarrow> 'a handles_scheme \<Rightarrow> (int \<times> 'a handles_scheme) outcome" where
  "halloc ob s =
     bind_outcome (if hfreelist s = HEND then expand_htab s else Returns (0, s)) (\<lambda>(rc, s).
       if rc < 0 then Returns (rc, s)
       else
         let h = unat (hfreelist s) in
         bind_outcome (get_htab h s) (\<lambda>v.
           let s = set_htab h (of_nat ob) (s\<lparr>hfreelist := v\<rparr>)
           in Returns (int h, upd_obj ob (\<lambda>x. x\<lparr>handle_count := handle_count x + 1\<rparr>) s)))"

partial_function (option) hassign_expand :: "int \<Rightarrow> 'a handles_scheme \<Rightarrow> (int \<times> 'a handles_scheme) outcome option" where
  "hassign_expand h s =
     (if int (htabsize s) \<le> h then
        then_loop (expand_htab s) (\<lambda>(rc, s). if rc < 0 then Some (Returns (rc, s)) else hassign_expand h s)
      else Some (Returns (0, s)))"

declare hassign_expand.simps [code]

text \<open>The release of the object that a handle stood for, when that was its last handle.\<close>

definition drop_handle :: "'a handles_scheme services \<Rightarrow> nat \<Rightarrow> 'a handles_scheme \<Rightarrow> (int \<times> 'a handles_scheme) outcome" where
  "drop_handle sv ob s =
     bind_outcome (close_object sv ob s) (\<lambda>(rc, s).
     bind_outcome (if lock_count (obj s ob) = 0 then bind_outcome (destroy_object sv ob s) (\<lambda>(_, s). Returns s) else Returns s) (\<lambda>s.
     Returns (rc, s)))"

definition hassign :: "'a handles_scheme services \<Rightarrow> nat \<Rightarrow> int \<Rightarrow> 'a handles_scheme \<Rightarrow> (int \<times> 'a handles_scheme) outcome" where
  "hassign sv ob h s =
     (if h < 0 \<or> h > int HTAB_ENTRIES then Returns (- EBADF, s)
      else
        bind_outcome (run_loop (hassign_expand h s)) (\<lambda>(rc, s).
          if rc < 0 then Returns (rc, s)
          else
            bind_outcome
              (if \<not> HUSED (htab s (nat h)) then remove_from_freelist (nat h) s
               else if HPROT (htab s (nat h)) then Returns (- EACCES, s)
               else
                 let oo = HOBJ (htab s (nat h));
                     s = upd_obj oo (\<lambda>x. x\<lparr>handle_count := handle_count x - 1\<rparr>) s
                 in if handle_count (obj s oo) = 0 then drop_handle sv oo s else Returns (0, s)) (\<lambda>(rc, s).
            if rc < 0 then Returns (rc, s)
            else
              Returns (0, upd_obj ob (\<lambda>x. x\<lparr>handle_count := handle_count x + 1\<rparr>) (set_htab (nat h) (of_nat ob) s)))))"

definition hfree :: "'a handles_scheme services \<Rightarrow> int \<Rightarrow> 'a handles_scheme \<Rightarrow> (int \<times> 'a handles_scheme) outcome" where
  "hfree sv h s =
     (case hlookup h s of
        None \<Rightarrow> Returns (- EBADF, s)
      | Some ob \<Rightarrow>
          if HPROT (htab s (nat h)) then Returns (- EACCES, s)
          else
            let s = push_free (nat h) s;
                s = upd_obj ob (\<lambda>x. x\<lparr>handle_count := handle_count x - 1\<rparr>) s
            in if handle_count (obj s ob) > 0 then Returns (0, s) else drop_handle sv ob s)"

definition hprotect :: "int \<Rightarrow> 'a handles_scheme \<Rightarrow> int \<times> 'a handles_scheme" where
  "hprotect h s =
     (if hlookup h s = None then (- EBADF, s) else (0, set_htab (nat h) (htab s (nat h) OR 1) s))"

definition hunprotect :: "int \<Rightarrow> 'a handles_scheme \<Rightarrow> int \<times> 'a handles_scheme" where
  "hunprotect h s =
     (if hlookup h s = None then (- EBADF, s) else (0, set_htab (nat h) (htab s (nat h) AND NOT 1) s))"

text \<open>A type that is not given stands for \<^verbatim>\<open>OBJECT_ANY\<close>.\<close>

definition olock :: "int \<Rightarrow> object_type option \<Rightarrow> 'a handles_scheme \<Rightarrow> nat option \<times> 'a handles_scheme" where
  "olock h ty s =
     (case hlookup h s of
        None \<Rightarrow> (None, s)
      | Some ob \<Rightarrow>
          if ty \<noteq> None \<and> ty \<noteq> Some (o_type (obj s ob)) then (None, s)
          else if handle_count (obj s ob) = 0 then (None, s)
          else (Some ob, upd_obj ob (\<lambda>x. x\<lparr>lock_count := lock_count x + 1\<rparr>) s))"

definition orel :: "'a handles_scheme services \<Rightarrow> nat \<Rightarrow> 'a handles_scheme \<Rightarrow> (int \<times> 'a handles_scheme) outcome" where
  "orel sv ob s =
     (let s = upd_obj ob (\<lambda>x. x\<lparr>lock_count := lock_count x - 1\<rparr>) s
      in if lock_count (obj s ob) = 0 \<and> handle_count (obj s ob) = 0 then destroy_object sv ob s else Returns (0, s))"

end
