(* ===== verification/Select.thy ===== *)
theory Select
  imports Hndl
begin

text \<open>
  The select and poll calls of \<^verbatim>\<open>src/src/sys/kernel/iomux.c\<close>, which wait for events on several handles with
  a multiplexer of their own. A set of handles is the list of its members; \<open>m\<close> is the address of the
  local multiplexer and \<open>fr\<close> the frame of the wait.
\<close>

section \<open>Select\<close>

text \<open>The members with an event of the mask are moved to the front of the array.\<close>

fun check_fds_loop ::
    "'a handles_scheme services \<Rightarrow> u16 \<Rightarrow> nat list \<Rightarrow> nat \<Rightarrow> int list \<Rightarrow> 'a handles_scheme
     \<Rightarrow> (int \<times> int list \<times> 'a handles_scheme) outcome" where
  "check_fds_loop sv eventmask [] matches fds s = Returns (int matches, fds, s)"
| "check_fds_loop sv eventmask (n # ns) matches fds s =
     (case olock (fds ! n) None s of
        (None, s) \<Rightarrow> Returns (- EBADF, fds, s)
      | (Some i, s) \<Rightarrow>
          if \<not> ISIOOBJECT (obj s i) then bind_outcome (orel sv i s) (\<lambda>(_, s). Returns (- EBADF, fds, s))
          else
            let hit = (events_signaled (obj s i) AND eventmask \<noteq> 0);
                (fds, matches) = (if hit then (fds[matches := fds ! n], matches + 1) else (fds, matches)) in
            bind_outcome (orel sv i s) (\<lambda>(_, s). check_fds_loop sv eventmask ns matches fds s))"

definition check_fds ::
    "'a handles_scheme services \<Rightarrow> int list option \<Rightarrow> u16 \<Rightarrow> 'a handles_scheme
     \<Rightarrow> (int \<times> int list option \<times> 'a handles_scheme) outcome" where
  "check_fds sv fds eventmask s =
     (case fds of
        None \<Rightarrow> Returns (0, None, s)
      | Some fds \<Rightarrow>
          bind_outcome (check_fds_loop sv eventmask [0..<length fds] 0 fds s) (\<lambda>(rc, fds, s). Returns (rc, Some fds, s)))"

primrec add_fds_loop ::
    "'a handles_scheme services \<Rightarrow> nat \<Rightarrow> u16 \<Rightarrow> int list \<Rightarrow> 'a handles_scheme \<Rightarrow> (int \<times> 'a handles_scheme) outcome" where
  "add_fds_loop sv m eventmask [] s = Returns (0, s)"
| "add_fds_loop sv m eventmask (fd # fds) s =
     (case olock fd None s of
        (None, s) \<Rightarrow> Returns (- EBADF, s)
      | (Some i, s) \<Rightarrow>
          if \<not> ISIOOBJECT (obj s i) then bind_outcome (orel sv i s) (\<lambda>(_, s). Returns (- EBADF, s))
          else
            bind_outcome (queue_ioobject m i eventmask 0 s) (\<lambda>(rc, s).
              if rc < 0 then Returns (rc, s)
              else bind_outcome (orel sv i s) (\<lambda>(_, s). add_fds_loop sv m eventmask fds s)))"

definition add_fds_to_iomux ::
    "'a handles_scheme services \<Rightarrow> nat \<Rightarrow> int list option \<Rightarrow> u16 \<Rightarrow> 'a handles_scheme \<Rightarrow> (int \<times> 'a handles_scheme) outcome" where
  "add_fds_to_iomux sv m fds eventmask s =
     (case fds of None \<Rightarrow> Returns (0, s) | Some fds \<Rightarrow> add_fds_loop sv m eventmask fds s)"

type_synonym fd_sets = "int list option \<times> int list option \<times> int list option"

definition shorten :: "int \<Rightarrow> int list option \<Rightarrow> int list option" where
  "shorten n fds = map_option (take (nat n)) fds"

definition check_select ::
    "'a handles_scheme services \<Rightarrow> fd_sets \<Rightarrow> 'a handles_scheme \<Rightarrow> (int \<times> fd_sets \<times> 'a handles_scheme) outcome" where
  "check_select sv sets s =
     (case sets of (readfds, writefds, exceptfds) \<Rightarrow>
        bind_outcome (check_fds sv readfds (IOEVT_READ OR IOEVT_ACCEPT OR IOEVT_CLOSE) s) (\<lambda>(numread, readfds, s).
        if numread < 0 then Returns (numread, (readfds, writefds, exceptfds), s)
        else
          bind_outcome (check_fds sv writefds (IOEVT_WRITE OR IOEVT_CONNECT) s) (\<lambda>(numwrite, writefds, s).
          if numwrite < 0 then Returns (numwrite, (readfds, writefds, exceptfds), s)
          else
            bind_outcome (check_fds sv exceptfds IOEVT_ERROR s) (\<lambda>(numexcept, exceptfds, s).
            if numexcept < 0 then Returns (numexcept, (readfds, writefds, exceptfds), s)
            else if numread \<noteq> 0 \<or> numwrite \<noteq> 0 \<or> numexcept \<noteq> 0 then
              Returns (numread + numwrite + numexcept,
                       (shorten numread readfds, shorten numwrite writefds, shorten numexcept exceptfds), s)
            else Returns (0, (readfds, writefds, exceptfds), s)))))"

text \<open>The sets are added one after the other; the first failure ends the call.\<close>

definition add_sets_to_iomux ::
    "'a handles_scheme services \<Rightarrow> nat \<Rightarrow> fd_sets \<Rightarrow> 'a handles_scheme \<Rightarrow> (int \<times> 'a handles_scheme) outcome" where
  "add_sets_to_iomux sv m sets s =
     (case sets of (readfds, writefds, exceptfds) \<Rightarrow>
        bind_outcome (add_fds_to_iomux sv m readfds (IOEVT_READ OR IOEVT_ACCEPT OR IOEVT_CLOSE) s) (\<lambda>(rc, s).
        if rc < 0 then Returns (rc, s)
        else
          bind_outcome (add_fds_to_iomux sv m writefds (IOEVT_WRITE OR IOEVT_CONNECT) s) (\<lambda>(rc, s).
          if rc < 0 then Returns (rc, s) else add_fds_to_iomux sv m exceptfds IOEVT_ERROR s)))"

definition select ::
    "'a handles_scheme cpu \<Rightarrow> 'a handles_scheme services \<Rightarrow> wait_frame \<Rightarrow> nat \<Rightarrow> fd_sets \<Rightarrow> (int \<times> int) option
     \<Rightarrow> 'a handles_scheme \<Rightarrow> (int \<times> fd_sets \<times> 'a handles_scheme) outcome" where
  "select cpu sv fr m sets timeout s =
     bind_outcome (check_select sv sets s) (\<lambda>(rc, sets, s).
       if rc \<noteq> 0 then Returns (rc, sets, s)
       else
         let tmo = (case timeout of None \<Rightarrow> INFINITE | Some (sec, usec) \<Rightarrow> of_int sec * 1000 + of_int (sgn usec * (\<bar>usec\<bar> div 1000))) in
         if tmo = 0 then Returns (0, sets, s)
         else if timeout \<noteq> None \<and> sets = (None, None, None) then
           bind_outcome (msleep cpu (fr_timer fr) tmo s) (\<lambda>(rc, s). Returns (if rc > 0 then - EINTR else 0, sets, s))
         else
           bind_outcome (add_sets_to_iomux sv m sets (init_iomux m 0 s)) (\<lambda>(rc, s).
             if rc < 0 then bind_outcome (close_iomux m s) (\<lambda>(_, s). Returns (rc, sets, s))
             else
               bind_outcome (wait_for_object cpu fr m tmo s) (\<lambda>(rc, s).
                 if rc < 0 then
                   bind_outcome (close_iomux m s) (\<lambda>(_, s). Returns (if rc = - ETIMEOUT then 0 else rc, sets, s))
                 else
                   bind_outcome (check_select sv sets s) (\<lambda>(rc, sets, s).
                     let sets = (if rc = 0 then (case sets of (a, b, c) \<Rightarrow> (shorten 0 a, shorten 0 b, shorten 0 c)) else sets) in
                     bind_outcome (close_iomux m s) (\<lambda>(_, s). Returns (rc, sets, s))))))"

section \<open>Poll\<close>

record pollfd =
  p_fd :: int
  p_events :: u16
  p_revents :: u16

abbreviation (input) POLLIN :: u16 where "POLLIN \<equiv> 1"
abbreviation (input) POLLOUT :: u16 where "POLLOUT \<equiv> 4"
abbreviation (input) POLLERR :: u16 where "POLLERR \<equiv> 8"
abbreviation (input) POLLHUP :: u16 where "POLLHUP \<equiv> 16"
abbreviation (input) POLLNVAL :: u16 where "POLLNVAL \<equiv> 32"

definition poll_mask :: "u16 \<Rightarrow> u16" where
  "poll_mask events =
     IOEVT_ERROR OR IOEVT_CLOSE OR (if events AND POLLIN \<noteq> 0 then IOEVT_READ OR IOEVT_ACCEPT else 0)
       OR (if events AND POLLOUT \<noteq> 0 then IOEVT_WRITE OR IOEVT_CONNECT else 0)"

definition poll_revents :: "u16 \<Rightarrow> u16" where
  "poll_revents evs =
     (if evs AND (IOEVT_READ OR IOEVT_ACCEPT) \<noteq> 0 then POLLIN else 0)
       OR (if evs AND (IOEVT_WRITE OR IOEVT_CONNECT) \<noteq> 0 then POLLOUT else 0)
       OR (if evs AND IOEVT_ERROR \<noteq> 0 then POLLERR else 0) OR (if evs AND IOEVT_CLOSE \<noteq> 0 then POLLHUP else 0)"

text \<open>
  One handle: an object that is no I/O object is released twice, and for a handle that stands
  for no object the NULL pointer is released.
\<close>

definition check_pollfd ::
    "'a handles_scheme services \<Rightarrow> pollfd \<Rightarrow> 'a handles_scheme \<Rightarrow> (u16 \<times> 'a handles_scheme) outcome" where
  "check_pollfd sv p s =
     (if p_fd p < 0 then Returns (0, s)
      else
        case olock (p_fd p) None s of
          (None, s) \<Rightarrow> Faults
        | (Some i, s) \<Rightarrow>
            bind_outcome
              (if \<not> ISIOOBJECT (obj s i) then bind_outcome (orel sv i s) (\<lambda>(_, s). Returns (POLLNVAL, s))
               else Returns (poll_revents (poll_mask (p_events p) AND events_signaled (obj s i)), s)) (\<lambda>(revents, s).
            bind_outcome (orel sv i s) (\<lambda>(_, s). Returns (revents, s))))"

primrec check_poll ::
    "'a handles_scheme services \<Rightarrow> pollfd list \<Rightarrow> 'a handles_scheme \<Rightarrow> (int \<times> pollfd list \<times> 'a handles_scheme) outcome" where
  "check_poll sv [] s = Returns (0, [], s)"
| "check_poll sv (p # ps) s =
     bind_outcome (check_pollfd sv p s) (\<lambda>(revents, s).
     bind_outcome (check_poll sv ps s) (\<lambda>(ready, ps, s).
     Returns (if revents \<noteq> 0 then ready + 1 else ready, p\<lparr>p_revents := revents\<rparr> # ps, s)))"

definition add_fd_to_iomux ::
    "'a handles_scheme services \<Rightarrow> nat \<Rightarrow> int \<Rightarrow> u16 \<Rightarrow> 'a handles_scheme \<Rightarrow> (int \<times> 'a handles_scheme) outcome" where
  "add_fd_to_iomux sv m fd events s =
     (if fd < 0 then Returns (0, s)
      else
        case olock fd None s of
          (None, s) \<Rightarrow> Returns (- EBADF, s)
        | (Some i, s) \<Rightarrow>
            if \<not> ISIOOBJECT (obj s i) then bind_outcome (orel sv i s) (\<lambda>(_, s). Returns (- EBADF, s))
            else
              bind_outcome (queue_ioobject m i (poll_mask events) 0 s) (\<lambda>(rc, s).
                if rc < 0 then Returns (rc, s) else bind_outcome (orel sv i s) (\<lambda>(_, s). Returns (0, s))))"

primrec add_pollfds ::
    "'a handles_scheme services \<Rightarrow> nat \<Rightarrow> pollfd list \<Rightarrow> 'a handles_scheme \<Rightarrow> (int \<times> 'a handles_scheme) outcome" where
  "add_pollfds sv m [] s = Returns (0, s)"
| "add_pollfds sv m (p # ps) s =
     bind_outcome (add_fd_to_iomux sv m (p_fd p) (p_events p) s) (\<lambda>(rc, s).
       if rc < 0 then Returns (rc, s) else add_pollfds sv m ps s)"

text \<open>The array, where there is one, has \<open>nfds\<close> entries.\<close>

definition poll ::
    "'a handles_scheme cpu \<Rightarrow> 'a handles_scheme services \<Rightarrow> wait_frame \<Rightarrow> nat \<Rightarrow> pollfd list option \<Rightarrow> nat \<Rightarrow> u32
     \<Rightarrow> 'a handles_scheme \<Rightarrow> (int \<times> pollfd list option \<times> 'a handles_scheme) outcome" where
  "poll cpu sv fr m fds nfds timeout s =
     (if nfds = 0 then bind_outcome (msleep cpu (fr_timer fr) timeout s) (\<lambda>(rc, s). Returns (if rc > 0 then - EINTR else 0, fds, s))
      else
        case fds of
          None \<Rightarrow> Returns (- EINVAL, None, s)
        | Some ps \<Rightarrow>
            bind_outcome (check_poll sv ps s) (\<lambda>(rc, ps, s).
              if rc > 0 then Returns (rc, Some ps, s)
              else if timeout = 0 then Returns (0, Some ps, s)
              else
                bind_outcome (add_pollfds sv m ps (init_iomux m 0 s)) (\<lambda>(rc, s).
                  if rc < 0 then bind_outcome (close_iomux m s) (\<lambda>(_, s). Returns (rc, Some ps, s))
                  else
                    bind_outcome (wait_for_object cpu fr m timeout s) (\<lambda>(rc, s).
                      if rc < 0 then
                        bind_outcome (close_iomux m s) (\<lambda>(_, s). Returns (if rc = - ETIMEOUT then 0 else rc, Some ps, s))
                      else
                        bind_outcome (check_poll sv ps s) (\<lambda>(rc, ps, s).
                        bind_outcome (close_iomux m s) (\<lambda>(_, s). Returns (rc, Some ps, s)))))))"

end
