(* ===== verification/Hndl_Correct.thy ===== *)
theory Hndl_Correct
  imports Hndl Timer_Correct
begin

text \<open>
  Correctness of the handle table. The free entries form one list without repetition, of exactly
  the entries that are not used; allocation takes the first of them, and release puts it back.
\<close>

section \<open>The invariant\<close>

primrec free_chain :: "(nat \<Rightarrow> u32) \<Rightarrow> u32 \<Rightarrow> nat list \<Rightarrow> bool" where
  "free_chain tab fl [] \<longleftrightarrow> fl = HEND"
| "free_chain tab fl (h # hs) \<longleftrightarrow> fl = of_nat h \<and> free_chain tab (tab h) hs"

definition htab_inv :: "'a handles_scheme \<Rightarrow> nat list \<Rightarrow> bool" where
  "htab_inv s fs \<longleftrightarrow>
     free_chain (htab s) (hfreelist s) fs \<and> distinct fs \<and> set fs = {h. h < htabsize s \<and> \<not> HUSED (htab s h)}
     \<and> htabsize s \<le> HTAB_ENTRIES \<and> HANDLES_PER_PAGE dvd htabsize s"

text \<open>Objects are at even addresses of the kernel's half of the address space.\<close>

definition object_address :: "nat \<Rightarrow> bool" where
  "object_address ob \<longleftrightarrow> even ob \<and> 2147483648 \<le> ob \<and> ob < 4294967296"

abbreviation (input) table_of :: "'a handles_scheme \<Rightarrow> (nat \<Rightarrow> u32) \<times> u32 \<times> nat \<times> (nat \<Rightarrow> object)" where
  "table_of s \<equiv> (htab s, hfreelist s, htabsize s, obj s)"

text \<open>The state after a free handle was given to an object.\<close>

definition taken :: "nat \<Rightarrow> nat \<Rightarrow> 'a handles_scheme \<Rightarrow> 'a handles_scheme" where
  "taken ob h s = upd_obj ob (\<lambda>x. x\<lparr>handle_count := handle_count x + 1\<rparr>) (set_htab h (of_nat ob) (s\<lparr>hfreelist := htab s h\<rparr>))"

text \<open>A table of one page with the free handles 0, 1 and 2, and objects with one handle each.\<close>

definition example_object :: object where
  "example_object = \<lparr>o_type = OBJECT_EVENT, signaled = False, handle_count = 1, lock_count = 0, waitlist_head = None,
     waitlist_tail = None, manual_reset = False, sem_count = 0, owner = None, recursion = 0, iomux_of = None, io_context = 0,
     io_next = None, io_prev = None, events_signaled = 0, events_monitored = 0, iomux_flags = 0, ready_head = None,
     ready_tail = None, waiting_head = None, waiting_tail = None\<rparr>"

definition tasks_example :: task_state where
  "tasks_example = timers.extend timers_base
     (task_state.fields (\<lambda>_. \<lparr>k_proc = None, k_arg = 0, k_next = None, k_flags = 0\<rparr>)
       (\<lambda>_. \<lparr>tq_head = None, tq_tail = None, tq_thread = None, tq_maxsize = 0, tq_size = 0, tq_flags = 0\<rparr>) None None)"

definition objects_example :: objects where
  "objects_example = task_state.extend tasks_example
     (objects.fields (\<lambda>_. example_object)
       (\<lambda>_. \<lparr>wb_thread = 0, wb_object = None, wb_waittype = WAIT_ANY, wb_waitkey = 0, wb_next = None, next_wait = None, prev_wait = None\<rparr>))"

definition handles_example :: handles where
  "handles_example = objects.extend objects_example
     (handles.fields (\<lambda>h. if h = 0 then 1 else if h = 1 then 2 else if h = 2 then HEND else 0x80001000) 0 1024)"

section \<open>Entries\<close>

lemma HUSED_iff: "HUSED x \<longleftrightarrow> 2147483648 \<le> unat x"
proof -
  have "HUSED x \<longleftrightarrow> bit x 31" using and_exp_eq_0_iff_not_bit [of x 31] by (simp add: HUSED_def)
  also have "\<dots> \<longleftrightarrow> bit (unat x) 31" by (simp add: bit_unsigned_iff)
  also have "\<dots> \<longleftrightarrow> 2147483648 \<le> unat x"
  proof -
    have "unat x < 2 * 2147483648" using unat_u32_bound [of x] by simp
    then have "unat x div 2147483648 = (if unat x < 2147483648 then 0 else 1)" by (simp add: div_nat_eqI)
    then show ?thesis by (simp add: bit_iff_odd)
  qed
  finally show ?thesis .
qed

lemma unat_handle: "h < HTAB_ENTRIES \<Longrightarrow> unat (of_nat h :: u32) = h"
  by (simp add: unat_of_nat_u32)

lemma handle_not_used [simp]: "h < HTAB_ENTRIES \<Longrightarrow> \<not> HUSED (of_nat h)" "\<not> HUSED HEND"
  by (simp_all add: HUSED_iff unat_handle)

lemma handle_not_end: "h < HTAB_ENTRIES \<Longrightarrow> (of_nat h :: u32) \<noteq> HEND"
proof
  assume "h < HTAB_ENTRIES" "(of_nat h :: u32) = HEND"
  then have "h = unat HEND" using unat_handle by metis
  then show False using \<open>h < HTAB_ENTRIES\<close> by simp
qed

lemma object_entry:
  assumes "object_address ob"
  shows "HUSED (of_nat ob)" and "HOBJ (of_nat ob) = ob" and "\<not> HPROT (of_nat ob)"
proof -
  have u: "unat (of_nat ob :: u32) = ob" using assms by (simp add: object_address_def unat_of_nat_u32)
  then show "HUSED (of_nat ob)" using assms by (simp add: HUSED_iff object_address_def)
  have "unat ((of_nat ob :: u32) AND 1) = ob AND 1" using u by (simp add: unsigned_and_eq)
  also have "\<dots> = 0" using assms by (simp add: object_address_def and_one_eq)
  finally have z: "(of_nat ob :: u32) AND 1 = 0" by (simp add: unsigned_eq_0_iff)
  then show "\<not> HPROT (of_nat ob)" by (simp add: HPROT_def)
  have "(of_nat ob :: u32) = (of_nat ob AND NOT 1) OR (of_nat ob AND 1)"
    by (rule bit_word_eqI) (auto simp: bit_simps)
  then show "HOBJ (of_nat ob) = ob" using z u by (simp add: HOBJ_def)
qed

section \<open>The free list\<close>

lemma free_chain_other [simp]: "h \<notin> set hs \<Longrightarrow> free_chain (tab(h := v)) fl hs = free_chain tab fl hs"
  by (induction hs arbitrary: fl) auto

lemma push_free_fold:
  assumes "free_chain (htab s) (hfreelist s) fs" "distinct (hs @ fs)"
  shows "free_chain (htab (fold push_free (rev hs) s)) (hfreelist (fold push_free (rev hs) s)) (hs @ fs)
     \<and> (\<forall>h. h \<notin> set hs \<longrightarrow> htab (fold push_free (rev hs) s) h = htab s h)
     \<and> htabsize (fold push_free (rev hs) s) = htabsize s \<and> obj (fold push_free (rev hs) s) = obj s"
  using assms by (induction hs) (auto simp: push_free_def set_htab_def)

lemma free_chain_not_used:
  "free_chain tab fl hs \<Longrightarrow> \<forall>h\<in>set hs. h < HTAB_ENTRIES \<Longrightarrow> \<forall>h\<in>set hs. \<not> HUSED (tab h)"
proof (induction hs arbitrary: fl)
  case (Cons h hs)
  then show ?case by (cases hs) auto
qed simp

lemma kpframe_alloc_table:
  fixes s :: "'a handles_scheme"
  assumes "kpframe_alloc n tag s = Returns (pfn, s')"
  shows "table_of s' = table_of s"
proof -
  have "table_of (s2 :: 'a handles_scheme) = table_of s1" if "for_each [0..<unat n] (\<lambda>j. PFRAME_SET_TAG (i + j) tag) s1 = Returns s2" for i s1 s2
    by (rule for_each_frame [OF _ that]) (auto simp: PFRAME_SET_TAG_def split: if_splits)
  then show ?thesis using assms
    by (auto simp: kpframe_alloc_def bind_outcome_Returns_iff split: if_splits option.splits)
qed

lemma kpage_map_table:
  fixes s :: "'a handles_scheme"
  assumes "kpage_map va frame flags s = Returns s'"
  shows "table_of s' = table_of s"
  using assms kpframe_alloc_table
  by (fastforce simp: kpage_map_def bind_outcome_Returns_iff SET_PDE_def SET_PTE_def clear_ptab_def Let_def split: if_splits)

lemma expand_htab_law:
  assumes inv: "htab_inv s fs" and e: "expand_htab s = Returns (rc, s')"
  shows "if htabsize s = HTAB_ENTRIES then rc = - ENFILE \<and> s' = s
         else rc = 0 \<and> htab_inv s' ([htabsize s..<htabsize s + HANDLES_PER_PAGE] @ fs)
           \<and> htabsize s' = htabsize s + HANDLES_PER_PAGE \<and> obj s' = obj s \<and> (\<forall>h<htabsize s. htab s' h = htab s h)"
proof (cases "htabsize s = HTAB_ENTRIES")
  case True
  then show ?thesis using e by (simp add: expand_htab_def)
next
  case False
  let ?n = "htabsize s"
  define hs where "hs = [?n..<?n + HANDLES_PER_PAGE]"
  have hs: "distinct hs" "set hs = {?n..<?n + HANDLES_PER_PAGE}" by (simp_all only: hs_def distinct_upt set_upt)
  obtain pfn s1 s2 where a: "kpframe_alloc 1 PFT_HTAB s = Returns (pfn, s1)"
    "kpage_map (HTABBASE + of_nat (4 * htabsize s1)) pfn (PT_WRITABLE OR PT_PRESENT) s1 = Returns s2"
    and s': "rc = 0" "s' = (fold push_free (rev [htabsize s2..<htabsize s2 + HANDLES_PER_PAGE]) s2)
       \<lparr>htabsize := htabsize (fold push_free (rev [htabsize s2..<htabsize s2 + HANDLES_PER_PAGE]) s2) + HANDLES_PER_PAGE\<rparr>"
    using e False by (auto simp: expand_htab_def bind_outcome_Returns_iff Let_def)
  have t: "htab s2 = htab s" "hfreelist s2 = hfreelist s" "htabsize s2 = ?n" "obj s2 = obj s"
    using kpframe_alloc_table [OF a(1)] kpage_map_table [OF a(2)] by auto
  obtain k where k: "?n = 1024 * k" "?n \<le> HTAB_ENTRIES" using inv unfolding htab_inv_def by (elim conjE dvdE) simp
  then have "k < 4096" using False by simp
  then have "Suc k \<le> 4096" by simp
  then have room: "?n + HANDLES_PER_PAGE \<le> HTAB_ENTRIES" using k by linarith
  have fs: "distinct fs" "\<forall>h\<in>set fs. h < ?n" using inv by (simp_all add: htab_inv_def)
  then have d: "distinct (hs @ fs)" using hs by auto
  have s'2: "s' = (fold push_free (rev hs) s2)\<lparr>htabsize := htabsize (fold push_free (rev hs) s2) + HANDLES_PER_PAGE\<rparr>"
    using s'(2) unfolding t hs_def .
  have p: "free_chain (htab s') (hfreelist s') (hs @ fs)" "\<forall>h. h \<notin> set hs \<longrightarrow> htab s' h = htab s h"
    "htabsize s' = ?n + HANDLES_PER_PAGE" "obj s' = obj s"
    using push_free_fold [of s2 fs hs] inv d t s'2 by (simp_all add: htab_inv_def)
  have nu: "\<forall>h\<in>set (hs @ fs). \<not> HUSED (htab s' h)"
    using room fs(2) hs(2) by (intro free_chain_not_used [OF p(1)]) auto
  have used: "set fs = {h. h < ?n \<and> \<not> HUSED (htab s h)}" "HANDLES_PER_PAGE dvd ?n"
    using inv unfolding htab_inv_def by blast+
  have "h \<in> set (hs @ fs) \<longleftrightarrow> h < htabsize s' \<and> \<not> HUSED (htab s' h)" for h
  proof (cases "h < ?n")
    case True
    then show ?thesis using p(2,3) hs(2) used by simp
  next
    case False
    then show ?thesis using nu p(3) hs(2) used by auto
  qed
  then have "set (hs @ fs) = {h. h < htabsize s' \<and> \<not> HUSED (htab s' h)}" by blast
  moreover have "HANDLES_PER_PAGE dvd htabsize s'" unfolding p(3) using used(2) by simp
  ultimately have "htab_inv s' (hs @ fs)"
    using p(1) d room unfolding htab_inv_def p(3) by blast
  then show ?thesis using False s'(1) p(2-4) hs(2) unfolding hs_def [symmetric] by simp
qed

section \<open>Allocation and release\<close>

lemma htab_inv_mem: "htab_inv s fs \<Longrightarrow> h \<in> set fs \<longleftrightarrow> h < htabsize s \<and> \<not> HUSED (htab s h)"
  unfolding htab_inv_def by blast

lemma htab_inv_size: "htab_inv s fs \<Longrightarrow> h \<in> set fs \<Longrightarrow> h < HTAB_ENTRIES"
  using htab_inv_mem [of s fs h] unfolding htab_inv_def by linarith

lemma htab_inv_entry:
  assumes "htab_inv s (h # fs)"
  shows "h < htabsize s \<and> h < HTAB_ENTRIES \<and> hfreelist s = of_nat h \<and> \<not> HUSED (htab s h)"
proof -
  have "h < htabsize s \<and> \<not> HUSED (htab s h)" using htab_inv_mem [OF assms, of h] by simp
  moreover have "htabsize s \<le> HTAB_ENTRIES" "hfreelist s = of_nat h" using assms by (simp_all only: htab_inv_def free_chain.simps)
  ultimately show ?thesis by linarith
qed

lemma taken_simps [simp]:
  "htab (taken ob h s) = (htab s)(h := of_nat ob)" "hfreelist (taken ob h s) = htab s h" "htabsize (taken ob h s) = htabsize s"
  "obj (taken ob h s) = (obj s)(ob := (obj s ob)\<lparr>handle_count := handle_count (obj s ob) + 1\<rparr>)"
  by (simp_all add: taken_def upd_obj_def set_htab_def)

lemma taken_law:
  assumes inv: "htab_inv s (h # fs)" and ob: "object_address ob"
  shows "htab_inv (taken ob h s) fs" and "hlookup (int h) (taken ob h s) = Some ob"
    and "k \<noteq> int h \<Longrightarrow> hlookup k (taken ob h s) = hlookup k s"
proof -
  have d: "distinct (h # fs)" and c: "free_chain (htab s) (htab s h) fs"
    and sz: "htabsize s \<le> HTAB_ENTRIES" "HANDLES_PER_PAGE dvd htabsize s"
    using inv unfolding htab_inv_def free_chain.simps by blast+
  have "x \<in> set fs \<longleftrightarrow> x < htabsize s \<and> \<not> HUSED (((htab s)(h := of_nat ob)) x)" for x
    using htab_inv_mem [OF inv, of x] d object_entry(1) [OF ob] by (cases "x = h") simp_all
  then have "set fs = {x. x < htabsize s \<and> \<not> HUSED (((htab s)(h := of_nat ob)) x)}" by blast
  moreover have "free_chain ((htab s)(h := of_nat ob)) (htab s h) fs" "distinct fs" using c d by simp_all
  ultimately show "htab_inv (taken ob h s) fs" using sz unfolding htab_inv_def taken_simps by blast
  show "hlookup (int h) (taken ob h s) = Some ob"
    using htab_inv_entry [OF inv] object_entry [OF ob] by (simp add: hlookup_def)
  show "hlookup k (taken ob h s) = hlookup k s" if "k \<noteq> int h"
  proof (cases "k < 0")
    case False
    then have "nat k \<noteq> h" using that by auto
    then show ?thesis by (simp add: hlookup_def)
  qed (simp add: hlookup_def)
qed

lemma alloc_first:
  assumes "htab_inv s (h # fs)"
  shows "(let h = unat (hfreelist s) in
          bind_outcome (get_htab h s) (\<lambda>v.
            let s = set_htab h (of_nat ob) (s\<lparr>hfreelist := v\<rparr>)
            in Returns (int h, upd_obj ob (\<lambda>x. x\<lparr>handle_count := handle_count x + 1\<rparr>) s))) = Returns (int h, taken ob h s)"
  using htab_inv_entry [OF assms] unat_handle [of h] by (simp add: get_htab_def taken_def Let_def del: of_nat_unat)

lemma halloc_free: "htab_inv s (h # fs) \<Longrightarrow> halloc ob s = Returns (int h, taken ob h s)"
  using alloc_first [of s h fs ob] htab_inv_entry [of s h fs] handle_not_end [of h] by (simp add: halloc_def)

lemma halloc_full:
  assumes inv: "htab_inv s []" and e: "halloc ob s = Returns (h, s')"
  shows "h = - ENFILE \<and> htabsize s = HTAB_ENTRIES \<and> s' = s
     \<or> (\<exists>s1 fs. expand_htab s = Returns (0, s1) \<and> htab_inv s1 (htabsize s # fs) \<and> h = int (htabsize s) \<and> s' = taken ob (htabsize s) s1)"
proof -
  have fl: "hfreelist s = HEND" using inv by (simp add: htab_inv_def)
  then obtain rc s1 where x: "expand_htab s = Returns (rc, s1)"
    using e by (cases "expand_htab s") (auto simp: halloc_def)
  have r: "(if rc < 0 then Returns (rc, s1) else
        let h = unat (hfreelist s1) in
          bind_outcome (get_htab h s1) (\<lambda>v.
            let s = set_htab h (of_nat ob) (s1\<lparr>hfreelist := v\<rparr>)
            in Returns (int h, upd_obj ob (\<lambda>x. x\<lparr>handle_count := handle_count x + 1\<rparr>) s))) = Returns (h, s')"
    using e by (simp only: halloc_def fl simp_thms if_True x bind_outcome.simps prod.case)
  show ?thesis
  proof (cases "htabsize s = HTAB_ENTRIES")
    case True
    then have "rc = - ENFILE" "s1 = s" using expand_htab_law [OF inv x] by simp_all
    then show ?thesis using r True by simp
  next
    case False
    let ?fs = "[Suc (htabsize s)..<htabsize s + HANDLES_PER_PAGE]"
    have "[htabsize s..<htabsize s + HANDLES_PER_PAGE] = htabsize s # ?fs" by (rule upt_conv_Cons) simp
    then have "rc = 0" "htab_inv s1 (htabsize s # ?fs)"
      using expand_htab_law [OF inv x] False by (simp_all only: if_False append_Nil2)
    moreover from this have "(h, s') = (int (htabsize s), taken ob (htabsize s) s1)"
      using r by (simp only: alloc_first if_False less_irrefl outcome.inject)
    ultimately show ?thesis using x by blast
  qed
qed

lemma halloc_law:
  assumes inv: "htab_inv s fs" and ob: "object_address ob" and e: "halloc ob s = Returns (h, s')"
  shows "h = - ENFILE \<and> fs = [] \<and> htabsize s = HTAB_ENTRIES \<and> s' = s
     \<or> 0 \<le> h \<and> hlookup h s = None \<and> hlookup h s' = Some ob \<and> (\<forall>k. k \<noteq> h \<longrightarrow> hlookup k s' = hlookup k s)
       \<and> obj s' = (obj s)(ob := (obj s ob)\<lparr>handle_count := handle_count (obj s ob) + 1\<rparr>) \<and> (\<exists>fs'. htab_inv s' fs')"
proof (cases fs)
  case (Cons f gs)
  then have i: "htab_inv s (f # gs)" using inv by simp
  have "h = int f" "s' = taken ob f s" using halloc_free [OF i, of ob] e by simp_all
  moreover have "hlookup (int f) s = None" using htab_inv_entry [OF i] by (simp add: hlookup_def)
  ultimately show ?thesis using taken_law [OF i ob] by auto
next
  case Nil
  then have i: "htab_inv s []" using inv by simp
  consider "h = - ENFILE" "htabsize s = HTAB_ENTRIES" "s' = s"
    | s1 gs where "expand_htab s = Returns (0, s1)" "htab_inv s1 (htabsize s # gs)" "h = int (htabsize s)" "s' = taken ob (htabsize s) s1"
    using halloc_full [OF i e] by blast
  then show ?thesis
  proof cases
    case 1
    then show ?thesis using Nil by simp
  next
    case 2
    have x: "htabsize s \<noteq> HTAB_ENTRIES" "htabsize s1 = htabsize s + HANDLES_PER_PAGE" "obj s1 = obj s" "\<forall>k<htabsize s. htab s1 k = htab s k"
      and all: "htab_inv s1 ([htabsize s..<htabsize s + HANDLES_PER_PAGE] @ [])"
      using expand_htab_law [OF i 2(1)] by (simp_all only: split: if_splits) auto
    have "hlookup k s1 = hlookup k s" for k
    proof (cases "0 \<le> k \<and> int (htabsize s) \<le> k \<and> k < int (htabsize s1)")
      case True
      then have "nat k \<in> set ([htabsize s..<htabsize s + HANDLES_PER_PAGE] @ [])" using x(2) by (simp only: set_append set_upt) auto
      then have "\<not> HUSED (htab s1 (nat k))" using htab_inv_mem [OF all] by blast
      then show ?thesis using True by (simp add: hlookup_def)
    next
      case False
      then consider "k < 0" | "0 \<le> k" "k < int (htabsize s)" | "int (htabsize s1) \<le> k" by linarith
      then show ?thesis using x by cases (simp_all add: hlookup_def nat_less_iff)
    qed
    moreover have "hlookup (int (htabsize s)) s = None" by (simp add: hlookup_def)
    ultimately show ?thesis using 2 taken_law [OF 2(2) ob] x(3) by auto
  qed
qed

lemma hfree_taken:
  assumes inv: "htab_inv s (h # fs)" and ob: "object_address ob" and c: "handle_count (obj s ob) \<noteq> 0"
  shows "hfree sv (int h) (taken ob h s) = Returns (0, s)"
proof -
  let ?s = "taken ob h s"
  have undo: "upd_obj ob (\<lambda>x. x\<lparr>handle_count := handle_count x - 1\<rparr>) (push_free h ?s) = s"
    using htab_inv_entry [OF inv] by (simp add: push_free_def set_htab_def upd_obj_def taken_def)
  have "\<not> HPROT (htab ?s (nat (int h)))" using object_entry(3) [OF ob] by simp
  then show ?thesis
    using taken_law(2) [OF inv ob] c undo by (simp add: hfree_def Let_def word_neq_0_conv)
qed

lemma freelist_loop_stuck:
  assumes "freelist_loop h fl s = Some r"
  shows "fl = HEND \<or> unat fl \<ge> htabsize s \<or> htab s (unat fl) = of_nat h"
  by (rule freelist_loop.raw_induct [where P = "\<lambda>h fl s r. fl = HEND \<or> unat fl \<ge> htabsize s \<or> htab s (unat fl) = of_nat h", OF _ assms])
     (fastforce simp: get_htab_def split: if_splits)

lemma remove_from_freelist_law:
  assumes "htab_inv s fs"
  shows "remove_from_freelist h s =
     (case fs of
        [] \<Rightarrow> if of_nat h = HEND then Returns (0, s\<lparr>hfreelist := htab s h\<rparr>) else Returns (- EBADF, s)
      | f # gs \<Rightarrow>
          if of_nat h = (of_nat f :: u32) then Returns (0, s\<lparr>hfreelist := htab s h\<rparr>)
          else if htab s f = of_nat h then Returns (0, set_htab f (htab s h) s)
          else Diverges)"
proof (cases fs)
  case Nil
  then have "hfreelist s = HEND" using assms by (simp add: htab_inv_def)
  then show ?thesis using Nil by (simp add: remove_from_freelist_def freelist_loop.simps)
next
  case (Cons f gs)
  note e = htab_inv_entry [OF assms [unfolded Cons]]
  have n: "hfreelist s \<noteq> HEND" "unat (hfreelist s) = f" using e handle_not_end [of f] unat_handle [of f] by simp_all
  have "freelist_loop h (hfreelist s) s = (if htab s f = of_nat h then Some (Returns (0, set_htab f (htab s h) s)) else None)"
  proof (cases "htab s f = of_nat h")
    case True
    then show ?thesis using n e by (subst freelist_loop.simps) (simp add: get_htab_def)
  next
    case False
    then show ?thesis using freelist_loop_stuck [of h "hfreelist s" s] n e by (cases "freelist_loop h (hfreelist s) s") auto
  qed
  then show ?thesis using Cons e by (simp add: remove_from_freelist_def)
qed

lemma protect_entry:
  assumes "HUSED x"
  shows "HUSED (x OR 1)" "HPROT (x OR 1)" "HOBJ (x OR 1) = HOBJ x"
proof -
  have h: "HUSED y \<longleftrightarrow> bit y 31" for y using and_exp_eq_0_iff_not_bit [of y 31] by (simp add: HUSED_def)
  show "HUSED (x OR 1)" using assms by (simp add: h bit_or_iff)
  have "(x OR 1) AND 1 = 1" by (rule bit_word_eqI) (auto simp: bit_simps)
  then show "HPROT (x OR 1)" by (simp add: HPROT_def)
  have "(x OR 1) AND NOT 1 = x AND NOT 1" by (rule bit_word_eqI) (auto simp: bit_simps)
  then show "HOBJ (x OR 1) = HOBJ x" by (simp only: HOBJ_def)
qed

lemma hprotect_law:
  assumes "hlookup h s = Some ob"
  shows "fst (hprotect h s) = 0" "hlookup k (snd (hprotect h s)) = hlookup k s" "HPROT (htab (snd (hprotect h s)) (nat h))"
    and "htabsize (snd (hprotect h s)) = htabsize s"
proof -
  have u: "HUSED (htab s (nat h))" "0 \<le> h" "h < int (htabsize s)" using assms by (auto simp: hlookup_def split: if_splits)
  show "fst (hprotect h s) = 0" "HPROT (htab (snd (hprotect h s)) (nat h))" "htabsize (snd (hprotect h s)) = htabsize s"
    using assms protect_entry [OF u(1)] by (simp_all add: hprotect_def set_htab_def)
  show "hlookup k (snd (hprotect h s)) = hlookup k s"
    using assms protect_entry [OF u(1)] u by (auto simp: hprotect_def set_htab_def hlookup_def)
qed

lemma in_first_two: "h \<in> set (take 2 (f # gs)) \<longleftrightarrow> h = f \<or> (\<exists>hs. gs = h # hs)"
  by (cases gs) (auto simp: numeral_2_eq_2)

lemma removed_chain:
  assumes inv: "htab_inv s fs" and h: "h \<in> set (take 2 fs)"
  shows "\<exists>s'. remove_from_freelist h s = Returns (0, s') \<and> free_chain (htab s') (hfreelist s') (remove1 h fs)"
proof -
  obtain f gs where fs: "fs = f # gs" using h by (cases fs) auto
  have c: "free_chain (htab s) (htab s f) gs" "distinct fs" using inv unfolding fs htab_inv_def free_chain.simps by blast+
  show ?thesis
  proof (cases "h = f")
    case True
    then show ?thesis using remove_from_freelist_law [OF inv, of h] c fs by simp
  next
    case False
    then obtain hs where gs: "gs = h # hs" using h unfolding fs in_first_two by blast
    have "h < HTAB_ENTRIES" "f < HTAB_ENTRIES"
      using htab_inv_size [OF inv, of h] htab_inv_size [OF inv, of f] fs gs by simp_all
    then have "(of_nat h :: u32) \<noteq> of_nat f" using False unat_handle by metis
    then have "remove_from_freelist h s = Returns (0, set_htab f (htab s h) s)"
      using remove_from_freelist_law [OF inv, of h] c fs gs by simp
    then show ?thesis using c fs gs False htab_inv_entry [OF inv [unfolded fs]] by (simp add: set_htab_def)
  qed
qed

lemma remove_diverges:
  assumes inv: "htab_inv s fs" and h: "h < HTAB_ENTRIES" "fs \<noteq> []" "h \<notin> set (take 2 fs)"
  shows "remove_from_freelist h s = Diverges"
proof -
  obtain f gs where fs: "fs = f # gs" using h by (cases fs) auto
  have c: "free_chain (htab s) (htab s f) gs" using inv unfolding fs htab_inv_def free_chain.simps by blast
  have lim: "\<forall>x\<in>set fs. x < HTAB_ENTRIES" using htab_inv_size [OF inv] by blast
  have inj: "(of_nat x :: u32) = of_nat h \<longleftrightarrow> x = h" if "x \<in> set fs" for x using lim that h(1) unat_handle by metis
  have h': "h \<noteq> f" "\<forall>hs. gs \<noteq> h # hs" using h(3) unfolding fs in_first_two by blast+
  have "(of_nat h :: u32) \<noteq> of_nat f" using inj [of f] fs h'(1) by (metis list.set_intros(1))
  moreover have "htab s f \<noteq> of_nat h" using c inj handle_not_end [OF h(1)] h'(2) fs by (cases gs) auto
  ultimately show ?thesis using remove_from_freelist_law [OF inv, of h] fs by simp
qed

lemma handles_example_fields:
  "htab handles_example = (\<lambda>h. if h = 0 then 1 else if h = 1 then 2 else if h = 2 then HEND else 0x80001000)"
  "hfreelist handles_example = 0" "htabsize handles_example = 1024"
  by (simp_all only: handles_example_def objects.extend_def handles.fields_def handles.simps)

lemma handles_example_obj: "obj handles_example = (\<lambda>_. example_object)"
  by (simp only: handles_example_def objects_example_def objects.extend_def handles.fields_def task_state.extend_def
    objects.fields_def objects.simps)

lemma handles_example_inv: "htab_inv handles_example [0, 1, 2]"
proof -
  have "{h. h < 1024 \<and> \<not> HUSED (htab handles_example h)} = {0, 1, 2}"
    unfolding handles_example_fields HUSED_iff by (auto split: if_splits)
  then show ?thesis unfolding htab_inv_def by (simp add: handles_example_fields)
qed

section \<open>The properties\<close>



text \<open>C23. Releasing a handle that was just allocated for an object with other handles gives back exactly the
  state before: the table, its free list and the handle count of the object.\<close>

theorem halloc_hfree_roundtrip:
  assumes "htab_inv s fs" and "fs \<noteq> []" and "object_address ob" and "handle_count (obj s ob) \<noteq> 0"
  shows "bind_outcome (halloc ob s) (\<lambda>(h, s). hfree sv h s) = Returns (0, s)"
proof -
  have "htab_inv s (hd fs # tl fs)" using assms by simp
  then show ?thesis using halloc_free hfree_taken assms(3,4) by fastforce
qed

theorem halloc_hfree_roundtrip_witness:
  "\<forall>sv. bind_outcome (halloc 0x80002000 handles_example) (\<lambda>(h, s). hfree sv h s) = Returns (0, handles_example)"
  using halloc_hfree_roundtrip [OF handles_example_inv, where ob = "0x80002000"]
  by (simp add: object_address_def handles_example_obj example_object_def)

text \<open>C24. A protected handle cannot be released or given to another object: both calls refuse and change nothing.
  Protecting a handle changes no lookup.\<close>

theorem hprotect_safe:
  assumes "hlookup h s = Some ob" and "hprotect h s = (rc, s')" and "htabsize s \<le> HTAB_ENTRIES"
  shows "rc = 0 \<and> (\<forall>k. hlookup k s' = hlookup k s) \<and> hfree sv h s' = Returns (- EACCES, s')
     \<and> hassign sv ob' h s' = Returns (- EACCES, s')"
proof -
  have p: "rc = 0" "\<And>k. hlookup k s' = hlookup k s" "HPROT (htab s' (nat h))" "htabsize s' = htabsize s"
    using hprotect_law [OF assms(1)] assms(2) by simp_all
  have u: "HUSED (htab s' (nat h))" "0 \<le> h" "h < int (htabsize s')"
    using p(2) [of h] assms(1) by (auto simp: hlookup_def split: if_splits)
  have "hassign_expand h s' = Some (Returns (0, s'))" using u by (subst hassign_expand.simps) simp
  then have "hassign sv ob' h s' = Returns (- EACCES, s')" using u p assms(3) by (simp add: hassign_def)
  then show ?thesis using p assms(1) by (simp add: hfree_def)
qed

theorem hprotect_safe_witness:
  "\<forall>sv. hfree sv 3 (snd (hprotect 3 handles_example)) = Returns (- EACCES, snd (hprotect 3 handles_example))"
  using hprotect_safe [where h = 3 and s = handles_example and ob = "0x80001000" and rc = "fst (hprotect 3 handles_example)"
      and s' = "snd (hprotect 3 handles_example)"]
  by (simp add: hlookup_def handles_example_fields HUSED_iff HOBJ_def)

text \<open>C25. Taking a given handle off the free list works for the first and the second of the list, and is refused when
  the list is empty; for any other handle, free or not, the search never ends.\<close>

theorem remove_from_freelist_termination:
  assumes "htab_inv s fs" and "h < HTAB_ENTRIES"
  shows "(h \<in> set (take 2 fs) \<longrightarrow>
           (\<exists>s'. remove_from_freelist h s = Returns (0, s') \<and> free_chain (htab s') (hfreelist s') (remove1 h fs)))
     \<and> (fs = [] \<longrightarrow> remove_from_freelist h s = Returns (- EBADF, s))
     \<and> (fs \<noteq> [] \<and> h \<notin> set (take 2 fs) \<longrightarrow> remove_from_freelist h s = Diverges)"
proof (intro conjI impI)
  show "remove_from_freelist h s = Returns (- EBADF, s)" if "fs = []"
    using remove_from_freelist_law [OF assms(1), of h] handle_not_end [OF assms(2)] that by simp
qed (use removed_chain [OF assms(1)] remove_diverges [OF assms] in blast)+

theorem remove_from_freelist_termination_witness:
  "remove_from_freelist 2 handles_example = Diverges \<and> (\<exists>s'. remove_from_freelist 1 handles_example = Returns (0, s'))"
  using remove_from_freelist_termination [OF handles_example_inv, where h = 2] remove_from_freelist_termination [OF handles_example_inv, where h = 1]
  by auto

end
