(* ===== verification/User.thy ===== *)
theory User
  imports Sched_Correct
begin

text \<open>
  The credentials of threads in \<^verbatim>\<open>src/src/sys/kernel/user.c\<close>: the real and effective users and groups of
  the running thread, the calls that change them, and the permission check. User 0 is the
  superuser. The lemmas show that a thread without privileges never gains any, and that the
  check grants what the permission bits of the thread's class grant.
\<close>

section \<open>Model\<close>

abbreviation (input) NGROUPS_MAX :: int where "NGROUPS_MAX \<equiv> 8"

definition getuid :: "'a sched_scheme \<Rightarrow> u16" where
  "getuid s = ruid (threads s (self s))"

definition setuid :: "u16 \<Rightarrow> 'a sched_scheme \<Rightarrow> int \<times> 'a sched_scheme" where
  "setuid uid s =
     (let t = self s in
      if euid (threads s t) = 0 then (0, upd_thread t (\<lambda>x. x\<lparr>ruid := uid, euid := uid\<rparr>) s)
      else if uid = ruid (threads s t) then (0, upd_thread t (\<lambda>x. x\<lparr>euid := uid\<rparr>) s)
      else (- EPERM, s))"

definition getgid :: "'a sched_scheme \<Rightarrow> u16" where
  "getgid s = rgid (threads s (self s))"

definition setgid :: "u16 \<Rightarrow> 'a sched_scheme \<Rightarrow> int \<times> 'a sched_scheme" where
  "setgid gid s =
     (let t = self s in
      if euid (threads s t) = 0 then (0, upd_thread t (\<lambda>x. x\<lparr>rgid := gid, egid := gid\<rparr>) s)
      else if gid = rgid (threads s t) then (0, upd_thread t (\<lambda>x. x\<lparr>egid := gid\<rparr>) s)
      else (- EPERM, s))"

definition geteuid :: "'a sched_scheme \<Rightarrow> u16" where
  "geteuid s = euid (threads s (self s))"

definition seteuid :: "u16 \<Rightarrow> 'a sched_scheme \<Rightarrow> int \<times> 'a sched_scheme" where
  "seteuid uid s =
     (let t = self s in
      if euid (threads s t) = 0 \<or> uid = ruid (threads s t) then (0, upd_thread t (\<lambda>x. x\<lparr>euid := uid\<rparr>) s)
      else (- EPERM, s))"

definition getegid :: "'a sched_scheme \<Rightarrow> u16" where
  "getegid s = egid (threads s (self s))"

definition setegid :: "u16 \<Rightarrow> 'a sched_scheme \<Rightarrow> int \<times> 'a sched_scheme" where
  "setegid gid s =
     (let t = self s in
      if euid (threads s t) = 0 \<or> gid = rgid (threads s t) then (0, upd_thread t (\<lambda>x. x\<lparr>egid := gid\<rparr>) s)
      else (- EPERM, s))"

text \<open>The buffer of the caller, where there is one, receives the groups at its front.\<close>

definition getgroups :: "int \<Rightarrow> u16 list option \<Rightarrow> 'a sched_scheme \<Rightarrow> int \<times> u16 list option" where
  "getgroups sz buf s =
     (let gs = groups (threads s (self s)) in
      case buf of
        None \<Rightarrow> (- EINVAL, None)
      | Some b \<Rightarrow> if sz < int (length gs) then (- EINVAL, buf) else (int (length gs), Some (gs @ drop (length gs) b)))"

definition setgroups :: "int \<Rightarrow> u16 list option \<Rightarrow> 'a sched_scheme \<Rightarrow> int \<times> 'a sched_scheme" where
  "setgroups sz buf s =
     (let t = self s in
      if euid (threads s t) \<noteq> 0 then (- EPERM, s)
      else
        case buf of
          None \<Rightarrow> (- EINVAL, s)
        | Some b \<Rightarrow>
            if sz < 0 \<or> sz > NGROUPS_MAX then (- EINVAL, s)
            else (0, upd_thread t (\<lambda>x. x\<lparr>groups := take (nat sz) b\<rparr>) s))"

definition check :: "int \<Rightarrow> u16 \<Rightarrow> u16 \<Rightarrow> int \<Rightarrow> 'a sched_scheme \<Rightarrow> int" where
  "check mode uid gid access s =
     (let t = threads s (self s) in
      if euid t = 0 then 0
      else
        let access = (if euid t \<noteq> uid then drop_bit 3 access else access);
            access = (if euid t \<noteq> uid \<and> egid t \<noteq> gid then drop_bit 3 access else access)
        in if mode AND access = access then 0 else - EACCES)"

section \<open>Privileges\<close>

text \<open>The calls a thread can make to change its credentials.\<close>

datatype cred_call =
    Setuid u16
  | Setgid u16
  | Seteuid u16
  | Setegid u16
  | Setgroups int "u16 list option"

primrec cred_result :: "cred_call \<Rightarrow> 'a sched_scheme \<Rightarrow> int \<times> 'a sched_scheme" where
  "cred_result (Setuid u) s = setuid u s"
| "cred_result (Setgid g) s = setgid g s"
| "cred_result (Seteuid u) s = seteuid u s"
| "cred_result (Setegid g) s = setegid g s"
| "cred_result (Setgroups n b) s = setgroups n b s"

inductive cred_reach :: "'a sched_scheme \<Rightarrow> 'a sched_scheme \<Rightarrow> bool" where
  start: "cred_reach s s"
| call: "cred_reach s s' \<Longrightarrow> cred_reach s (snd (cred_result c s'))"

definition unprivileged :: "thread \<Rightarrow> bool" where
  "unprivileged t \<longleftrightarrow> ruid t \<noteq> 0 \<and> euid t \<noteq> 0"

text \<open>What a thread without privileges can make of its credentials.\<close>

definition cred_bound :: "thread \<Rightarrow> thread \<Rightarrow> bool" where
  "cred_bound t t' \<longleftrightarrow>
     ruid t' = ruid t \<and> rgid t' = rgid t \<and> groups t' = groups t \<and> euid t' \<in> {euid t, ruid t} \<and> egid t' \<in> {egid t, rgid t}"

text \<open>The three permission bits that apply to a thread: those of the owner, the group or the others.\<close>

definition class_bits :: "thread \<Rightarrow> u16 \<Rightarrow> u16 \<Rightarrow> int \<Rightarrow> int" where
  "class_bits t uid gid mode =
     drop_bit (if euid t = uid then 6 else if egid t = gid then 3 else 0) mode"

text \<open>A thread of user 7 that acts for user 9.\<close>

definition user_example :: "unit sched_scheme" where
  "user_example = upd_thread 0 (\<lambda>x. x\<lparr>ruid := 7, euid := 9\<rparr>) (sched_example\<lparr>self := 0\<rparr>)"

section \<open>Lemmas\<close>

lemmas cred_defs = setuid_def setgid_def seteuid_def setegid_def setgroups_def upd_thread_def Let_def

lemma cred_result_self [simp]: "self (snd (cred_result c s)) = self s"
  by (cases c) (auto simp: cred_defs split: option.split)

lemma cred_result_others: "t \<noteq> self s \<Longrightarrow> threads (snd (cred_result c s)) t = threads s t"
  by (cases c) (auto simp: cred_defs split: option.split)

lemma cred_result_bound:
  assumes "unprivileged t" "cred_bound t (threads s (self s))"
  shows "cred_bound t (threads (snd (cred_result c s)) (self s))"
  using assms by (cases c) (auto simp: cred_defs cred_bound_def unprivileged_def split: option.split)

lemma cred_reach_law:
  assumes "cred_reach s s'" "unprivileged (threads s (self s))"
  shows "self s' = self s \<and> cred_bound (threads s (self s)) (threads s' (self s))
     \<and> (\<forall>t. t \<noteq> self s \<longrightarrow> threads s' t = threads s t)"
  using assms
proof induction
  case (call s s' c)
  then show ?case using cred_result_bound [of "threads s (self s)" s' c] cred_result_others [of _ s' c] by simp
qed (simp add: cred_bound_def)

lemma and_drop_bit_class:
  fixes m p :: int
  assumes "0 \<le> p" "p < 8"
  shows "m AND push_bit k p = push_bit k p \<longleftrightarrow> drop_bit k m AND p = p"
proof -
  have "m AND push_bit k p = push_bit k (drop_bit k m AND p)" by (rule bit_eqI) (auto simp: bit_simps)
  then show ?thesis by (simp add: push_bit_eq_mult)
qed

lemma check_law:
  assumes "0 \<le> p" "p < 8"
  shows "check mode uid gid (push_bit 6 p) s =
     (if euid (threads s (self s)) = 0 \<or> class_bits (threads s (self s)) uid gid mode AND p = p then 0 else - EACCES)"
proof -
  have "drop_bit 3 (push_bit 6 p) = push_bit 3 p" "drop_bit 3 (push_bit 3 p) = p"
    by (simp_all add: push_bit_eq_mult drop_bit_eq_div)
  then show ?thesis
    using and_drop_bit_class [OF assms, of mode 6] and_drop_bit_class [OF assms, of mode 3]
    by (simp add: check_def class_bits_def Let_def)
qed

section \<open>The properties\<close>

text \<open>C7. A thread whose real and effective users are not the superuser cannot gain privileges by any
  sequence of credential calls: its real user and group and its groups stay, its effective user
  and group are among those it had, and no other thread changes.\<close>

theorem credentials_safe:
  assumes "cred_reach s s'" and "unprivileged (threads s (self s))"
  shows "cred_bound (threads s (self s)) (threads s' (self s)) \<and> unprivileged (threads s' (self s))
     \<and> self s' = self s \<and> (\<forall>t. t \<noteq> self s \<longrightarrow> threads s' t = threads s t)"
  using cred_reach_law [OF assms] assms(2) by (auto simp: cred_bound_def unprivileged_def)

theorem credentials_safe_witness:
  "cred_bound (threads user_example 0) (threads (snd (cred_result (Setuid 0) user_example)) 0)
     \<and> unprivileged (threads (snd (cred_result (Setuid 0) user_example)) 0)"
  using credentials_safe [OF cred_reach.call [OF cred_reach.start, of user_example "Setuid 0"]]
  by (simp add: user_example_def unprivileged_def upd_thread_def)

text \<open>C32. For a request in the bits of the owner, the permission check is the textbook one: the
  superuser may do everything, and any other thread what the bits of its class grant.\<close>

theorem check_equivalence:
  assumes "0 \<le> p" and "p < 8"
  shows "check mode uid gid (push_bit 6 p) s = 0
     \<longleftrightarrow> euid (threads s (self s)) = 0 \<or> class_bits (threads s (self s)) uid gid mode AND p = p"
  by (simp add: check_law [OF assms])

theorem check_equivalence_witness:
  "check 416 9 1 (push_bit 6 6) user_example = 0 \<and> check 416 1 1 (push_bit 6 2) user_example \<noteq> 0"
  using check_equivalence [of 6 416 9 1 user_example] check_equivalence [of 2 416 1 1 user_example]
  by (simp add: user_example_def class_bits_def upd_thread_def sched_example_fields drop_bit_eq_div)

end
