(* ===== verification/Queue.thy ===== *)
theory Queue
  imports Hndl_Correct
begin

text \<open>
  Message queues of \<^verbatim>\<open>src/src/sys/kernel/queue.c\<close>: a ring buffer with one semaphore that counts the
  messages and one that counts the free places. A queue at an address has its first semaphore
  at this address and the other one behind it. The lemmas show that a queue refines a list of
  bounded length.
\<close>

section \<open>Model\<close>

record queue =
  q_size :: int
  q_in :: int
  q_out :: int
  q_elems :: u32
  q_slots :: "int \<Rightarrow> nat"

record queues = handles +
  queue_of :: "nat \<Rightarrow> queue"

definition upd_queue :: "nat \<Rightarrow> (queue \<Rightarrow> queue) \<Rightarrow> 'a queues_scheme \<Rightarrow> 'a queues_scheme" where
  "upd_queue q f s = s\<lparr>queue_of := (queue_of s)(q := f (queue_of s q))\<rparr>"

abbreviation (input) notempty :: "nat \<Rightarrow> nat" where "notempty q \<equiv> q"
abbreviation (input) notfull :: "nat \<Rightarrow> nat" where "notfull q \<equiv> q + 20"
abbreviation (input) SIZEOF_QUEUE :: int where "SIZEOF_QUEUE \<equiv> 56"

definition alloc_queue :: "int \<Rightarrow> 'a queues_scheme \<Rightarrow> (nat option \<times> 'a queues_scheme) outcome" where
  "alloc_queue sz s =
     bind_outcome (kmalloc SIZEOF_QUEUE s) (\<lambda>(a, s).
       if a = 0 then Returns (None, s)
       else
         bind_outcome (kmalloc (sint (of_int (sz * 4) :: u32)) s) (\<lambda>(e, s).
           if e = 0 then bind_outcome (kfree a s) (\<lambda>s. Returns (None, s))
           else
             let q = unat a;
                 s = upd_queue q (\<lambda>x. x\<lparr>q_elems := e\<rparr>) s;
                 s = init_sem (notempty q) 0 (init_sem (notfull q) (of_int sz) s)
             in Returns (Some q, upd_queue q (\<lambda>x. x\<lparr>q_size := sz, q_in := 0, q_out := 0\<rparr>) s)))"

definition free_queue :: "nat \<Rightarrow> 'a queues_scheme \<Rightarrow> 'a queues_scheme outcome" where
  "free_queue q s = bind_outcome (kfree (q_elems (queue_of s q)) s) (kfree (of_nat q))"

definition wrap_index :: "int \<Rightarrow> int \<Rightarrow> int" where
  "wrap_index sz i = (if i + 1 = sz then 0 else i + 1)"

definition enqueue ::
    "'a queues_scheme cpu \<Rightarrow> wait_frame \<Rightarrow> nat \<Rightarrow> nat \<Rightarrow> u32 \<Rightarrow> 'a queues_scheme \<Rightarrow> (int \<times> 'a queues_scheme) outcome" where
  "enqueue cpu fr q msg timeout s =
     bind_outcome (wait_for_object cpu fr (notfull q) timeout s) (\<lambda>(rc, s).
       if rc < 0 then Returns (- ETIMEOUT, s)
       else
         let s = upd_queue q (\<lambda>x. x\<lparr>q_slots := (q_slots x)(q_in x := msg), q_in := wrap_index (q_size x) (q_in x)\<rparr>) s
         in bind_outcome (release_sem (notempty q) 1 s) (\<lambda>(_, s). Returns (0, s)))"

text \<open>The result 0 is the NULL pointer.\<close>

definition dequeue ::
    "'a queues_scheme cpu \<Rightarrow> wait_frame \<Rightarrow> nat \<Rightarrow> u32 \<Rightarrow> 'a queues_scheme \<Rightarrow> (nat \<times> 'a queues_scheme) outcome" where
  "dequeue cpu fr q timeout s =
     bind_outcome (wait_for_object cpu fr (notempty q) timeout s) (\<lambda>(rc, s).
       if rc < 0 then Returns (0, s)
       else
         let msg = q_slots (queue_of s q) (q_out (queue_of s q));
             s = upd_queue q (\<lambda>x. x\<lparr>q_out := wrap_index (q_size x) (q_out x)\<rparr>) s
         in bind_outcome (release_sem (notfull q) 1 s) (\<lambda>(_, s). Returns (msg, s)))"

section \<open>The contract of a bounded queue\<close>

text \<open>A semaphore with the given count on which no thread waits.\<close>

definition sem_holds :: "object \<Rightarrow> nat \<Rightarrow> bool" where
  "sem_holds x n \<longleftrightarrow>
     o_type x = OBJECT_SEMAPHORE \<and> sem_count x = of_nat n \<and> (signaled x \<longleftrightarrow> n > 0) \<and> waitlist_head x = None"

definition queue_holds :: "nat \<Rightarrow> nat \<Rightarrow> 'a queues_scheme \<Rightarrow> nat list \<Rightarrow> bool" where
  "queue_holds n q s xs \<longleftrightarrow>
     (let x = queue_of s q in
      0 < n \<and> n < 2 ^ 31 \<and> length xs \<le> n \<and> q_size x = int n \<and> 0 \<le> q_out x \<and> q_out x < int n
      \<and> q_in x = (q_out x + int (length xs)) mod int n
      \<and> (\<forall>i<length xs. q_slots x ((q_out x + int i) mod int n) = xs ! i)
      \<and> sem_holds (obj s (notempty q)) (length xs) \<and> sem_holds (obj s (notfull q)) (n - length xs))"

text \<open>Several messages one after the other.\<close>

primrec put_all :: "('m \<Rightarrow> 's \<Rightarrow> (int \<times> 's) outcome) \<Rightarrow> 'm list \<Rightarrow> 's \<Rightarrow> 's outcome" where
  "put_all put_in [] s = Returns s"
| "put_all put_in (m # ms) s = bind_outcome (put_in m s) (\<lambda>(_, s). put_all put_in ms s)"

primrec take_all :: "('s \<Rightarrow> ('m \<times> 's) outcome) \<Rightarrow> nat \<Rightarrow> 's \<Rightarrow> ('m list \<times> 's) outcome" where
  "take_all take_out 0 s = Returns ([], s)"
| "take_all take_out (Suc k) s =
     bind_outcome (take_out s) (\<lambda>(m, s). bind_outcome (take_all take_out k s) (\<lambda>(ms, s). Returns (m # ms, s)))"

text \<open>A queue with two places, empty.\<close>

definition queue_example :: queues where
  "queue_example = handles.extend handles_example
     (queues.fields (\<lambda>_. \<lparr>q_size = 2, q_in = 1, q_out = 1, q_elems = 0x80003000, q_slots = (\<lambda>_. 0)\<rparr>))
     \<lparr>obj := (\<lambda>ob. example_object\<lparr>o_type := OBJECT_SEMAPHORE, sem_count := (if ob = 20 then 2 else 0), signaled := (ob = 20)\<rparr>)\<rparr>"

text \<open>
  A queue of at most \<open>cap\<close> messages: a message enters at the end while there is room, and
  leaves at the front; neither waits.
\<close>

locale bounded_fifo =
  fixes content :: "'s \<Rightarrow> 'm list \<Rightarrow> bool"
    and cap :: nat
    and put_in :: "'m \<Rightarrow> 's \<Rightarrow> (int \<times> 's) outcome"
    and take_out :: "'s \<Rightarrow> ('m \<times> 's) outcome"
  assumes put_law: "content s xs \<Longrightarrow> length xs < cap \<Longrightarrow> \<exists>s'. put_in m s = Returns (0, s') \<and> content s' (xs @ [m])"
    and take_law: "content s (x # xs) \<Longrightarrow> \<exists>s'. take_out s = Returns (x, s') \<and> content s' xs"
begin

lemma put_all_law:
  "content s xs \<Longrightarrow> length xs + length ms \<le> cap \<Longrightarrow> \<exists>s'. put_all put_in ms s = Returns s' \<and> content s' (xs @ ms)"
proof (induction ms arbitrary: s xs)
  case (Cons m ms)
  obtain s1 where "put_in m s = Returns (0, s1)" "content s1 (xs @ [m])"
    using put_law [OF Cons.prems(1), of m] Cons.prems(2) by auto
  moreover have "length (xs @ [m]) + length ms \<le> cap" using Cons.prems(2) by simp
  ultimately show ?case using Cons.IH [of s1 "xs @ [m]"] by simp
qed simp

lemma take_all_law: "content s (ms @ xs) \<Longrightarrow> \<exists>s'. take_all take_out (length ms) s = Returns (ms, s') \<and> content s' xs"
proof (induction ms arbitrary: s)
  case (Cons m ms)
  obtain s1 where "take_out s = Returns (m, s1)" "content s1 (ms @ xs)" using take_law [of s m "ms @ xs"] Cons.prems by auto
  then show ?case using Cons.IH [of s1] by force
qed simp

lemma in_order:
  assumes "content s xs" "length xs + length ms \<le> cap"
  shows "\<exists>s1 s2. put_all put_in ms s = Returns s1 \<and> take_all take_out (length (xs @ ms)) s1 = Returns (xs @ ms, s2) \<and> content s2 []"
proof -
  obtain s1 where "put_all put_in ms s = Returns s1" "content s1 ((xs @ ms) @ [])" using put_all_law [OF assms] by auto
  then show ?thesis using take_all_law by blast
qed

end

section \<open>Semaphores without waiting threads\<close>

lemma of_nat_zero_u32: "n < 2 ^ 32 \<Longrightarrow> (of_nat n :: u32) = 0 \<longleftrightarrow> n = 0"
proof -
  assume n: "n < 2 ^ 32"
  have "(of_nat n :: u32) = 0 \<longleftrightarrow> unat (of_nat n :: u32) = 0" by (rule unsigned_eq_0_iff [symmetric])
  then show ?thesis by (simp only: unat_of_nat_u32 [OF n])
qed

lemma wait_sem:
  fixes s :: "'a queues_scheme"
  assumes h: "sem_holds (obj s ob) (Suc n)" and n: "n < 2 ^ 31"
  shows "\<exists>s'. wait_for_object cpu fr ob timeout s = Returns (0, s') \<and> sem_holds (obj s' ob) n
     \<and> (\<forall>x. x \<noteq> ob \<longrightarrow> obj s' x = obj s x) \<and> queue_of s' = queue_of s"
proof -
  have sg: "signaled (obj s ob)" "o_type (obj s ob) = OBJECT_SEMAPHORE" "waitlist_head (obj s ob) = None"
    and c: "sem_count (obj s ob) - 1 = of_nat n" using h by (simp_all add: sem_holds_def)
  have z: "(of_nat n :: u32) = 0 \<longleftrightarrow> n = 0" using n by (intro of_nat_zero_u32) simp
  let ?s = "upd_obj ob (\<lambda>x. x\<lparr>sem_count := sem_count x - 1\<rparr>) s"
  let ?s' = "if n = 0 then upd_obj ob (\<lambda>x. x\<lparr>signaled := False\<rparr>) ?s else ?s"
  have "sem_count (obj ?s ob) = 0 \<longleftrightarrow> n = 0" using c z by (simp add: upd_obj_def)
  then have "wait_for_object cpu fr ob timeout s = Returns (0, ?s')"
    using sg(1,2) by (simp add: wait_for_object_def wait_for_one_object_def enter_object_def Let_def)
  moreover have "sem_holds (obj ?s' ob) n" using sg c by (simp add: sem_holds_def upd_obj_def)
  moreover have "(\<forall>x. x \<noteq> ob \<longrightarrow> obj ?s' x = obj s x) \<and> queue_of ?s' = queue_of s" by (simp add: upd_obj_def)
  ultimately show ?thesis by blast
qed

lemma release_sem_free:
  fixes s :: "'a queues_scheme"
  assumes h: "sem_holds (obj s ob) n" and n: "n < 2 ^ 31"
  shows "\<exists>s'. release_sem ob 1 s = Returns (of_nat n, s') \<and> sem_holds (obj s' ob) (Suc n)
     \<and> (\<forall>x. x \<noteq> ob \<longrightarrow> obj s' x = obj s x) \<and> queue_of s' = queue_of s"
proof -
  let ?s = "upd_obj ob (\<lambda>x. x\<lparr>sem_count := sem_count x + 1\<rparr>) s"
  let ?s' = "upd_obj ob (\<lambda>x. x\<lparr>signaled := True\<rparr>) ?s"
  have c: "sem_count (obj s ob) = of_nat n" "waitlist_head (obj ?s' ob) = None" "sem_count (obj ?s ob) = of_nat (Suc n)"
    using h by (simp_all add: sem_holds_def upd_obj_def add.commute)
  have "Suc n < 2 ^ 32" using n by simp
  then have "(of_nat (Suc n) :: u32) \<noteq> 0" using of_nat_zero_u32 [of "Suc n"] by blast
  then have "sem_count (obj ?s ob) > 0" using c(3) word_neq_0_conv by metis
  moreover have "release_sem_loop ob None ?s' = Some (Returns ?s')" by (subst release_sem_loop.simps) simp
  ultimately have "release_sem ob 1 s = Returns (of_nat n, ?s')"
    using c(1,2) by (simp add: release_sem_def Let_def del: of_nat_Suc)
  moreover have "sem_holds (obj ?s' ob) (Suc n)" using h c(3) by (simp add: sem_holds_def upd_obj_def)
  moreover have "(\<forall>x. x \<noteq> ob \<longrightarrow> obj ?s' x = obj s x) \<and> queue_of ?s' = queue_of s" by (simp add: upd_obj_def)
  ultimately show ?thesis by blast
qed

lemma wait_sem_empty: "sem_holds (obj s ob) 0 \<Longrightarrow> wait_for_object cpu fr ob 0 s = Returns (- ETIMEOUT, s)"
  by (simp add: wait_for_object_def wait_for_one_object_def sem_holds_def Let_def)

section \<open>The ring buffer\<close>

lemma wrap_mod: "0 \<le> i \<Longrightarrow> i < int n \<Longrightarrow> wrap_index (int n) i = (i + 1) mod int n"
  by (auto simp: wrap_index_def)

lemma ring_slot_inj:
  assumes "i < n" "j < n" "(b + int i) mod int n = (b + int j) mod int n"
  shows "i = j"
proof (rule ccontr)
  assume "i \<noteq> j"
  moreover have "int n dvd int i - int j" using assms(3) by (simp add: mod_eq_dvd_iff)
  ultimately have "\<bar>int n\<bar> \<le> \<bar>int i - int j\<bar>" by (intro dvd_imp_le_int) simp_all
  then show False using assms(1,2) by linarith
qed

lemma ring_step: "((b + 1) mod n + k) mod n = (b + (1 + k)) mod (n :: int)" "((b + k) mod n + 1) mod n = (b + (1 + k)) mod n"
  by (simp_all add: mod_simps add_ac)

lemma upd_queue_simps [simp]:
  "obj (upd_queue q f s) = obj s" "queue_of (upd_queue q f s) q = f (queue_of s q)"
  by (simp_all add: upd_queue_def)

lemma enqueue_law:
  assumes h: "queue_holds n q s xs" and room: "length xs < n"
  shows "\<exists>s'. enqueue cpu fr q m timeout s = Returns (0, s') \<and> queue_holds n q s' (xs @ [m])"
proof -
  let ?x = "queue_of s q" and ?k = "length xs"
  note h' = h [unfolded queue_holds_def Let_def]
  have "n - ?k = Suc (n - ?k - 1)" using room by simp
  then have full: "sem_holds (obj s (notfull q)) (Suc (n - ?k - 1))" using h' by metis
  then obtain s1 where s1: "wait_for_object cpu fr (notfull q) timeout s = Returns (0, s1)" "sem_holds (obj s1 (notfull q)) (n - ?k - 1)"
    "\<forall>x. x \<noteq> notfull q \<longrightarrow> obj s1 x = obj s x" "queue_of s1 = queue_of s"
    using wait_sem [OF full, of cpu fr timeout] h' by (meson diff_le_self le_less_trans less_imp_diff_less)
  define s2 where "s2 = upd_queue q (\<lambda>x. x\<lparr>q_slots := (q_slots x)(q_in x := m), q_in := wrap_index (q_size x) (q_in x)\<rparr>) s1"
  have x2: "queue_of s2 q = ?x\<lparr>q_slots := (q_slots ?x)(q_in ?x := m), q_in := wrap_index (q_size ?x) (q_in ?x)\<rparr>"
    and o2: "obj s2 = obj s1" by (simp_all add: s2_def s1(4))
  have e: "sem_holds (obj s2 (notempty q)) ?k" using h' s1(3) o2 by simp
  obtain s3 where s3: "release_sem (notempty q) 1 s2 = Returns (of_nat ?k, s3)" "sem_holds (obj s3 (notempty q)) (Suc ?k)"
    "\<forall>x. x \<noteq> notempty q \<longrightarrow> obj s3 x = obj s2 x" "queue_of s3 = queue_of s2"
    using release_sem_free [OF e] h' by (meson le_less_trans)
  have "enqueue cpu fr q m timeout s = Returns (0, s3)" using s1(1) s3(1) by (simp add: enqueue_def s2_def Let_def)
  moreover have "queue_holds n q s3 (xs @ [m])"
    unfolding queue_holds_def Let_def s3(4) x2
  proof (intro conjI allI impI)
    show "q_in (?x\<lparr>q_slots := (q_slots ?x)(q_in ?x := m), q_in := wrap_index (q_size ?x) (q_in ?x)\<rparr>)
       = (q_out (?x\<lparr>q_slots := (q_slots ?x)(q_in ?x := m), q_in := wrap_index (q_size ?x) (q_in ?x)\<rparr>) + int (length (xs @ [m]))) mod int n"
      using h' wrap_mod [of "q_in ?x" n] by (simp add: ring_step)
    show "q_slots (?x\<lparr>q_slots := (q_slots ?x)(q_in ?x := m), q_in := wrap_index (q_size ?x) (q_in ?x)\<rparr>)
        ((q_out (?x\<lparr>q_slots := (q_slots ?x)(q_in ?x := m), q_in := wrap_index (q_size ?x) (q_in ?x)\<rparr>) + int i) mod int n) = (xs @ [m]) ! i"
      if "i < length (xs @ [m])" for i
      using that h' room ring_slot_inj [of i n ?k "q_out ?x"] by (cases "i = ?k") (auto simp: nth_append)
    show "sem_holds (obj s3 (notfull q)) (n - length (xs @ [m]))" using s1(2) s3(3) o2 by simp
    show "sem_holds (obj s3 (notempty q)) (length (xs @ [m]))" using s3(2) by simp
  qed (use h' room in simp_all)
  ultimately show ?thesis by blast
qed

lemma dequeue_law:
  assumes h: "queue_holds n q s (m # xs)"
  shows "\<exists>s'. dequeue cpu fr q timeout s = Returns (m, s') \<and> queue_holds n q s' xs"
proof -
  let ?x = "queue_of s q" and ?k = "length xs"
  note h' = h [unfolded queue_holds_def Let_def]
  have k: "?k < n" "n < 2 ^ 31" "sem_holds (obj s (notempty q)) (Suc ?k)" using h' by simp_all
  have slots: "\<forall>i. i < length (m # xs) \<longrightarrow> q_slots ?x ((q_out ?x + int i) mod int n) = (m # xs) ! i" using h' by blast
  have ms: "q_slots ?x (q_out ?x) = m" using spec [OF slots, of 0] h' by simp
  obtain s1 where s1: "wait_for_object cpu fr (notempty q) timeout s = Returns (0, s1)" "sem_holds (obj s1 (notempty q)) ?k"
    "\<forall>x. x \<noteq> notempty q \<longrightarrow> obj s1 x = obj s x" "queue_of s1 = queue_of s"
    using wait_sem [OF k(3), of cpu fr timeout] k by (meson less_trans)
  define s2 where "s2 = upd_queue q (\<lambda>x. x\<lparr>q_out := wrap_index (q_size x) (q_out x)\<rparr>) s1"
  have x2: "queue_of s2 q = ?x\<lparr>q_out := (q_out ?x + 1) mod int n\<rparr>" and o2: "obj s2 = obj s1"
    using h' wrap_mod [of "q_out ?x" n] by (simp_all add: s2_def s1(4))
  have f: "sem_holds (obj s2 (notfull q)) (n - Suc ?k)" using h' s1(3) o2 by simp
  obtain s3 where s3: "release_sem (notfull q) 1 s2 = Returns (of_nat (n - Suc ?k), s3)" "sem_holds (obj s3 (notfull q)) (Suc (n - Suc ?k))"
    "\<forall>x. x \<noteq> notfull q \<longrightarrow> obj s3 x = obj s2 x" "queue_of s3 = queue_of s2"
    using release_sem_free [OF f] k by (meson diff_le_self le_less_trans)
  have "dequeue cpu fr q timeout s = Returns (m, s3)" using s1(1,4) s3(1) ms by (simp add: dequeue_def s2_def Let_def)
  moreover have "queue_holds n q s3 xs"
    unfolding queue_holds_def Let_def s3(4) x2
  proof (intro conjI allI impI)
    show "q_in (?x\<lparr>q_out := (q_out ?x + 1) mod int n\<rparr>) = (q_out (?x\<lparr>q_out := (q_out ?x + 1) mod int n\<rparr>) + int (length xs)) mod int n"
      using h' by (simp add: ring_step)
    show "q_slots (?x\<lparr>q_out := (q_out ?x + 1) mod int n\<rparr>) ((q_out (?x\<lparr>q_out := (q_out ?x + 1) mod int n\<rparr>) + int i) mod int n) = xs ! i"
      if "i < length xs" for i
      using that spec [OF slots, of "Suc i"] by (simp add: ring_step)
    show "sem_holds (obj s3 (notempty q)) (length xs)" using s1(2) s3(3) o2 by simp
    show "sem_holds (obj s3 (notfull q)) (n - length xs)" using s3(2) k by (simp add: Suc_diff_Suc)
  qed (use h' k in simp_all)
  ultimately show ?thesis by blast
qed

interpretation bq: bounded_fifo "queue_holds n q" n "\<lambda>m. enqueue cpu fr q m timeout" "dequeue cpu fr q timeout" for n q cpu fr timeout
  by unfold_locales (auto intro: enqueue_law dequeue_law)

lemma enqueue_full: "queue_holds n q s xs \<Longrightarrow> length xs = n \<Longrightarrow> enqueue cpu fr q m 0 s = Returns (- ETIMEOUT, s)"
  using wait_sem_empty [of s "notfull q" cpu fr] by (simp add: enqueue_def queue_holds_def Let_def)

lemma dequeue_empty: "queue_holds n q s [] \<Longrightarrow> dequeue cpu fr q 0 s = Returns (0, s)"
  using wait_sem_empty [of s "notempty q" cpu fr] by (simp add: dequeue_def queue_holds_def Let_def)

lemma alloc_queue_empty:
  assumes "alloc_queue sz s = Returns (Some q, s')" "0 < sz" "sz < 2 ^ 31"
  shows "queue_holds (nat sz) q s' []"
proof -
  obtain e s1 where s': "s' = upd_queue q (\<lambda>x. x\<lparr>q_size := sz, q_in := 0, q_out := 0\<rparr>)
      (init_sem (notempty q) 0 (init_sem (notfull q) (of_int sz) (upd_queue q (\<lambda>x. x\<lparr>q_elems := e\<rparr>) s1)))"
    using assms(1) by (auto simp: alloc_queue_def bind_outcome_Returns_iff Let_def split: if_splits)
  have z: "(of_int sz :: u32) = of_nat (nat sz)" using assms(2) by simp
  have "(of_nat (nat sz) :: u32) \<noteq> 0" using of_nat_zero_u32 [of "nat sz"] assms(2,3) by simp
  then have "(of_int sz :: u32) > 0" unfolding z using word_neq_0_conv by blast
  then show ?thesis
    using assms(2,3) unfolding s' by (simp add: queue_holds_def sem_holds_def init_sem_def init_object_def upd_obj_def upd_queue_def Let_def)
qed

lemma queue_example_holds: "queue_holds 2 0 queue_example []"
  by (simp add: queue_holds_def sem_holds_def queue_example_def handles.extend_def queues.fields_def example_object_def Let_def)

section \<open>The property\<close>

text \<open>C4. A message queue refines a list of bounded length. A new queue is empty; a message enters at the end while there
  is room, and leaves at the front; a full or empty queue refuses without waiting when asked not to wait. So what is
  sent is received, in the same order.\<close>

theorem queue_refines_list:
  assumes "queue_holds n q s xs"
  shows "(\<forall>sz s1 s2. alloc_queue sz s1 = Returns (Some q, s2) \<and> 0 < sz \<and> sz < 2 ^ 31 \<longrightarrow> queue_holds (nat sz) q (s2 :: 'a queues_scheme) [])
     \<and> (length xs < n \<longrightarrow> (\<exists>s'. enqueue cpu fr q m timeout s = Returns (0, s') \<and> queue_holds n q s' (xs @ [m])))
     \<and> (length xs = n \<longrightarrow> enqueue cpu fr q m 0 s = Returns (- ETIMEOUT, s))
     \<and> (xs \<noteq> [] \<longrightarrow> (\<exists>s'. dequeue cpu fr q timeout s = Returns (hd xs, s') \<and> queue_holds n q s' (tl xs)))
     \<and> (xs = [] \<longrightarrow> dequeue cpu fr q 0 s = Returns (0, s))
     \<and> (length xs + length ms \<le> n \<longrightarrow>
          (\<exists>s1 s2. put_all (\<lambda>m. enqueue cpu fr q m timeout) ms s = Returns s1
             \<and> take_all (dequeue cpu fr q timeout) (length (xs @ ms)) s1 = Returns (xs @ ms, s2) \<and> queue_holds n q s2 []))"
proof (intro conjI impI allI)
  show "queue_holds (nat sz) q s2 []" if "alloc_queue sz s1 = Returns (Some q, s2) \<and> 0 < sz \<and> sz < 2 ^ 31" for sz and s1 s2 :: "'a queues_scheme"
    using alloc_queue_empty that by blast
  show "\<exists>s'. enqueue cpu fr q m timeout s = Returns (0, s') \<and> queue_holds n q s' (xs @ [m])" if "length xs < n"
    by (rule enqueue_law [OF assms that])
  show "enqueue cpu fr q m 0 s = Returns (- ETIMEOUT, s)" if "length xs = n" by (rule enqueue_full [OF assms that])
  show "\<exists>s'. dequeue cpu fr q timeout s = Returns (hd xs, s') \<and> queue_holds n q s' (tl xs)" if "xs \<noteq> []"
    using dequeue_law [of n q s "hd xs" "tl xs" cpu fr timeout] assms that by simp
  show "dequeue cpu fr q 0 s = Returns (0, s)" if "xs = []" by (rule dequeue_empty [OF assms [unfolded that]])
qed (rule bq.in_order [OF assms])

theorem queue_refines_list_witness:
  "\<forall>cpu fr. \<exists>s1 s2. put_all (\<lambda>m. enqueue cpu fr 0 m 0) [7, 9] queue_example = Returns s1
     \<and> take_all (dequeue cpu fr 0 0) 2 s1 = Returns ([7, 9], s2)"
  using queue_refines_list [OF queue_example_holds, where ms = "[7, 9]" and timeout = 0]
  by (simp add: numeral_2_eq_2 del: put_all.simps take_all.simps) blast

end
