(* ===== verification/Mutex.thy ===== *)
theory Mutex
  imports Hndl_Correct
begin

text \<open>
  Correctness of mutexes: a mutex is either free and signaled, or it has an owner that holds it at
  least once and is not signaled. Releasing it hands it to the first waiting thread that may run.
\<close>

section \<open>The invariant\<close>

definition mutex_ok :: "object \<Rightarrow> bool" where
  "mutex_ok x \<longleftrightarrow> (if owner x = None then signaled x else \<not> signaled x \<and> 0 < recursion x)"

text \<open>The part of the objects that waiting and waking do not change.\<close>

definition lock_state :: "'a objects_scheme \<Rightarrow> nat \<Rightarrow> object_type \<times> bool \<times> nat option \<times> int" where
  "lock_state s ob = (o_type (obj s ob), signaled (obj s ob), owner (obj s ob), recursion (obj s ob))"

text \<open>The blocks of a queue of waiting threads, from its head.\<close>

inductive queued :: "'a objects_scheme \<Rightarrow> nat option \<Rightarrow> nat \<Rightarrow> bool" where
  head: "queued s (Some w) w"
| later: "queued s (next_wait (waitblk s v)) w \<Longrightarrow> queued s (Some v) w"

text \<open>A mutex at address 0 that the running thread, number 0, holds once.\<close>

definition mutex_example :: handles where
  "mutex_example = handles_example
     \<lparr>obj := \<lambda>_. example_object\<lparr>o_type := OBJECT_MUTEX, owner := Some 0, recursion := 1\<rparr>\<rparr>"

section \<open>Waking keeps the locks\<close>

lemma lock_state_upd [simp]:
  "lock_state (upd_thread t f s) = lock_state s" "lock_state (upd_wb w g s) = lock_state s"
  by (simp_all add: lock_state_def upd_thread_def upd_wb_def fun_eq_iff)

lemma obj_upd_thread [simp]: "obj (upd_thread t f s) = obj s" "waitblk (upd_thread t f s) = waitblk s"
  by (simp_all add: upd_thread_def)

lemma ready_to_run_loop_lock:
  assumes "ready_to_run_loop t some al w s = Some r"
  shows "\<forall>b s'. r = Returns (b, s') \<longrightarrow> lock_state s' = lock_state s"
  by (rule ready_to_run_loop.raw_induct
      [where P = "\<lambda>t some al w s r. \<forall>b s'. r = Returns (b, s') \<longrightarrow> lock_state s' = lock_state s", OF _ assms])
     (fastforce simp: Let_def split: option.splits if_splits prod.splits)

lemma ready_to_run_loop_waitblk:
  assumes "ready_to_run_loop t some al w s = Some r"
  shows "\<forall>b s'. r = Returns (b, s') \<longrightarrow> waitblk s' = waitblk s"
  by (rule ready_to_run_loop.raw_induct
      [where P = "\<lambda>t some al w s r. \<forall>b s'. r = Returns (b, s') \<longrightarrow> waitblk s' = waitblk s", OF _ assms])
     (fastforce simp: Let_def split: option.splits if_splits prod.splits)

lemma thread_ready_waitblk: "thread_ready_to_run t s = Returns (b, s') \<Longrightarrow> waitblk s' = waitblk s"
  using ready_to_run_loop_waitblk by (fastforce simp: thread_ready_to_run_def run_loop_def split: option.splits)

lemma thread_ready_lock: "thread_ready_to_run t s = Returns (b, s') \<Longrightarrow> lock_state s' = lock_state s"
  using ready_to_run_loop_lock by (fastforce simp: thread_ready_to_run_def run_loop_def split: option.splits)

lemma remove_from_waitlist_lock: "remove_from_waitlist w s = Returns s' \<Longrightarrow> lock_state s' = lock_state s"
  by (auto simp: remove_from_waitlist_def Let_def upd_obj_def upd_wb_def lock_state_def fun_eq_iff split: option.splits if_splits)

lemma cancel_wait_loop_lock:
  assumes "cancel_wait_loop w s = Some r"
  shows "\<forall>s'. r = Returns s' \<longrightarrow> lock_state s' = lock_state s"
proof (rule cancel_wait_loop.raw_induct [where P = "\<lambda>w s r. \<forall>s'. r = Returns s' \<longrightarrow> lock_state s' = lock_state s", OF _ assms])
  fix loop :: "nat option \<Rightarrow> 'a objects_scheme \<Rightarrow> 'a objects_scheme outcome option" and w s r
  assume IH: "\<And>w s r. loop w s = Some r \<Longrightarrow> \<forall>s'. r = Returns s' \<longrightarrow> lock_state s' = lock_state s"
    and e: "(case w of None \<Rightarrow> Some (Returns s)
      | Some w \<Rightarrow> then_loop (remove_from_waitlist w s) (\<lambda>s. loop (wb_next (waitblk s w)) s)) = Some r"
  show "\<forall>s'. r = Returns s' \<longrightarrow> lock_state s' = lock_state s"
  proof (cases w)
    case (Some v)
    show ?thesis
    proof (cases "remove_from_waitlist v s")
      case (Returns s1)
      then show ?thesis using IH [of "wb_next (waitblk s1 v)" s1 r] e Some remove_from_waitlist_lock [OF Returns] by simp
    qed (use e Some in auto)
  qed (use e in auto)
qed

lemma cancel_wait_lock: "cancel_wait t s = Returns s' \<Longrightarrow> lock_state s' = lock_state s"
  using cancel_wait_loop_lock by (fastforce simp: cancel_wait_def bind_outcome_Returns_iff run_loop_def split: option.splits)

lemma obj_insert_ready:
  fixes s :: "'a objects_scheme"
  shows "insert_ready_head t s = Returns s' \<Longrightarrow> obj s' = obj s" and "insert_ready_tail t s = Returns s' \<Longrightarrow> obj s' = obj s"
  by (simp_all add: insert_ready_head_def insert_ready_tail_def bind_outcome_Returns_iff Let_def split: option.splits) auto

lemma obj_kthread_ready:
  fixes s :: "'a objects_scheme"
  assumes "kthread_ready t c b s = Returns s'"
  shows "obj s' = obj s"
proof -
  have pre: "obj (if priority (threads u t) > priority (threads u (self u)) then u\<lparr>preempt := True\<rparr> else u) = obj u" for u :: "'a objects_scheme"
    by simp
  have fin: "obj s' = obj u" if "bind_outcome (if q then insert_ready_head t u else insert_ready_tail t (upd_thread t f u))
      (\<lambda>s. Returns (if priority (threads s t) > priority (threads s (self s)) then s\<lparr>preempt := True\<rparr> else s)) = Returns s'" for q f u
    using that obj_insert_ready(1) [of t u] obj_insert_ready(2) [of t "upd_thread t f u"] pre
    by (cases q) (auto simp only: bind_outcome_Returns_iff if_True if_False outcome.inject obj_upd_thread)
  define u where "u = upd_thread t (\<lambda>x. x\<lparr>priority := boosted x b\<rparr>) (upd_thread t (\<lambda>x. x\<lparr>quantum := quantum x - c\<rparr>) s)"
  have o: "obj u = obj s" by (simp only: u_def obj_upd_thread)
  note e = assms [unfolded kthread_ready_def Let_def, folded u_def]
  consider "suspend_count (threads s t) > 0"
    | "\<not> suspend_count (threads s t) > 0" "t_flags (threads s t) AND THREAD_INTERRUPTED \<noteq> 0 \<and> t_state (threads s t) = READY"
    | "\<not> suspend_count (threads s t) > 0" "\<not> (t_flags (threads s t) AND THREAD_INTERRUPTED \<noteq> 0 \<and> t_state (threads s t) = READY)" "t_state (threads u t) = READY"
    | "\<not> suspend_count (threads s t) > 0" "\<not> (t_flags (threads s t) AND THREAD_INTERRUPTED \<noteq> 0 \<and> t_state (threads s t) = READY)" "t_state (threads u t) \<noteq> READY"
    by blast
  then show ?thesis
  proof cases
    case 1
    then have "s' = upd_thread t (\<lambda>x. x\<lparr>t_state := SUSPENDED\<rparr>) s" using e by (simp only: if_True outcome.inject)
    then show ?thesis by (simp only: obj_upd_thread)
  next
    case 2
    then show ?thesis using e by (simp only: if_True if_False simp_thms outcome.inject)
  next
    case 3
    then show ?thesis using e by (simp only: if_True if_False simp_thms outcome.distinct)
  next
    case 4
    have "obj s' = obj (upd_thread t (\<lambda>x. x\<lparr>t_state := READY\<rparr>) u)"
      by (rule fin) (rule e [unfolded if_not_P [OF 4(1)] if_not_P [OF 4(2)] if_not_P [OF 4(3)]])
    then show ?thesis by (simp only: obj_upd_thread o)
  qed
qed

lemma release_thread_lock:
  assumes "release_thread t s = Returns s'"
  shows "lock_state s' = lock_state s"
proof -
  obtain s1 where s1: "cancel_wait t s = Returns s1" "kthread_ready t 1 1 s1 = Returns s'"
    using assms unfolding release_thread_def bind_outcome_Returns_iff by blast
  have "lock_state s' = lock_state s1" unfolding lock_state_def obj_kthread_ready [OF s1(2)] ..
  then show ?thesis using cancel_wait_lock [OF s1(1)] by (rule trans)
qed

lemma queued_cong: "queued s h w \<Longrightarrow> waitblk s' = waitblk s \<Longrightarrow> queued s' h w"
  by (induction rule: queued.induct) (auto intro: queued.intros)

lemma first_ready_law:
  assumes "first_ready_loop h s = Some r"
  shows "\<forall>b s'. r = Returns (b, s') \<longrightarrow> lock_state s' = lock_state s \<and> waitblk s' = waitblk s \<and> (\<forall>w. b = Some w \<longrightarrow> queued s h w)"
proof (rule first_ready_loop.raw_induct [where P = "\<lambda>h s r. \<forall>b s'. r = Returns (b, s') \<longrightarrow>
    lock_state s' = lock_state s \<and> waitblk s' = waitblk s \<and> (\<forall>w. b = Some w \<longrightarrow> queued s h w)", OF _ assms])
  fix loop :: "nat option \<Rightarrow> 'a objects_scheme \<Rightarrow> (nat option \<times> 'a objects_scheme) outcome option" and h s r
  assume IH: "\<And>h s r. loop h s = Some r \<Longrightarrow> \<forall>b s'. r = Returns (b, s') \<longrightarrow>
      lock_state s' = lock_state s \<and> waitblk s' = waitblk s \<and> (\<forall>w. b = Some w \<longrightarrow> queued s h w)"
    and e: "(case h of None \<Rightarrow> Some (Returns (None, s))
      | Some w \<Rightarrow> then_loop (thread_ready_to_run (wb_thread (waitblk s w)) s) (\<lambda>(ready, s).
            if ready then Some (Returns (Some w, s)) else loop (next_wait (waitblk s w)) s)) = Some r"
  show "\<forall>b s'. r = Returns (b, s') \<longrightarrow> lock_state s' = lock_state s \<and> waitblk s' = waitblk s \<and> (\<forall>w. b = Some w \<longrightarrow> queued s h w)"
  proof (cases h)
    case (Some v)
    show ?thesis
    proof (cases "thread_ready_to_run (wb_thread (waitblk s v)) s")
      case (Returns p)
      obtain ready s1 where p: "p = (ready, s1)" by (cases p)
      have f: "lock_state s1 = lock_state s" "waitblk s1 = waitblk s"
        using thread_ready_lock thread_ready_waitblk Returns p by blast+
      show ?thesis
      proof (cases ready)
        case True
        then show ?thesis using e Some Returns p f by (auto intro: queued.head)
      next
        case False
        then have l: "loop (next_wait (waitblk s v)) s1 = Some r" using e Some Returns p f by simp
        have "queued s (Some v) w" if "queued s1 (next_wait (waitblk s v)) w" for w
          using queued_cong [OF that, of s] f(2) by (simp add: queued.later)
        then show ?thesis using IH [OF l] f unfolding Some by simp
      qed
    qed (use e Some in auto)
  qed (use e in auto)
qed

lemma release_mutex_law:
  assumes e: "release_mutex ob s = Returns (rc, s')" and own: "owner (obj s ob) = Some (self s)" and one: "\<not> 1 < recursion (obj s ob)"
  shows "rc = 0 \<and> (\<forall>x. x \<noteq> ob \<longrightarrow> lock_state s' x = lock_state s x)
     \<and> (owner (obj s' ob) = None \<and> signaled (obj s' ob)
        \<or> (\<exists>w. queued s (waitlist_head (obj s ob)) w \<and> owner (obj s' ob) = Some (wb_thread (waitblk s w))
             \<and> recursion (obj s' ob) = 1 \<and> \<not> signaled (obj s' ob)))"
proof -
  define u where "u = upd_obj ob (\<lambda>x. x\<lparr>signaled := True, owner := None\<rparr>) (upd_obj ob (\<lambda>x. x\<lparr>recursion := recursion x - 1\<rparr>) s)"
  have u: "waitblk u = waitblk s" "waitlist_head (obj u ob) = waitlist_head (obj s ob)" "owner (obj u ob) = None" "signaled (obj u ob)"
    "\<forall>x. x \<noteq> ob \<longrightarrow> lock_state u x = lock_state s x" by (simp_all add: u_def upd_obj_def lock_state_def)
  have nr: "\<not> 0 < recursion (obj (upd_obj ob (\<lambda>x. x\<lparr>recursion := recursion x - 1\<rparr>) s) ob)" using one by (simp add: upd_obj_def)
  note e1 = e [unfolded release_mutex_def Let_def, folded u_def]
  obtain w s1 where f: "run_loop (first_ready_loop (waitlist_head (obj u ob)) u) = Returns (w, s1)"
    and r: "bind_outcome (case w of None \<Rightarrow> Returns s1
        | Some w \<Rightarrow> release_thread (wb_thread (waitblk s1 w))
            (upd_obj ob (\<lambda>x. x\<lparr>owner := Some (wb_thread (waitblk s1 w)), recursion := 1, signaled := False\<rparr>) s1))
        (\<lambda>s. Returns (0, s)) = Returns (rc, s')"
    using e1 nr own by (auto simp: bind_outcome_Returns_iff)
  have fl: "lock_state s1 = lock_state u" "waitblk s1 = waitblk s" "\<forall>v. w = Some v \<longrightarrow> queued s (waitlist_head (obj s ob)) v"
    using first_ready_law [of "waitlist_head (obj u ob)" u] f u(1,2) queued_cong [of u _ _ s]
    by (auto simp: run_loop_def split: option.splits)
  show ?thesis
  proof (cases w)
    case None
    then have "s' = s1" "rc = 0" using r by simp_all
    then show ?thesis using fl(1) u by (auto simp: lock_state_def fun_eq_iff)
  next
    case (Some v)
    let ?t = "wb_thread (waitblk s v)"
    have x: "release_thread ?t (upd_obj ob (\<lambda>x. x\<lparr>owner := Some ?t, recursion := 1, signaled := False\<rparr>) s1) = Returns s'" "rc = 0"
      using r Some fl(2) by (auto simp: bind_outcome_Returns_iff)
    have "lock_state s' = lock_state (upd_obj ob (\<lambda>x. x\<lparr>owner := Some ?t, recursion := 1, signaled := False\<rparr>) s1)"
      by (rule release_thread_lock [OF x(1)])
    then have "lock_state s' ob = (o_type (obj s1 ob), False, Some ?t, 1)" "\<forall>x. x \<noteq> ob \<longrightarrow> lock_state s' x = lock_state s1 x"
      by (simp_all add: lock_state_def upd_obj_def)
    then show ?thesis using x(2) fl u(5) Some by (auto simp: lock_state_def)
  qed
qed

lemma release_mutex_nobody:
  assumes "waitlist_head (obj s ob) = None" "owner (obj s ob) = Some (self s)"
  shows "\<exists>s'. release_mutex ob s = Returns (0, s')"
proof -
  have "first_ready_loop None u = Some (Returns (None, u))" for u :: "'a objects_scheme" by (subst first_ready_loop.simps) simp
  then show ?thesis using assms by (simp add: release_mutex_def upd_obj_def Let_def)
qed

lemma release_mutex_cases:
  assumes ok: "mutex_ok (obj s ob)" and e: "release_mutex ob s = Returns (rc, s')"
  shows "mutex_ok (obj s' ob) \<and> (\<forall>x. x \<noteq> ob \<longrightarrow> lock_state s' x = lock_state s x)
     \<and> (if owner (obj s ob) \<noteq> Some (self s) then rc = - EPERM \<and> s' = s
        else if 1 < recursion (obj s ob) then
          rc = 0 \<and> owner (obj s' ob) = Some (self s) \<and> recursion (obj s' ob) = recursion (obj s ob) - 1
        else rc = 0 \<and> (owner (obj s' ob) = None
          \<or> (\<exists>w. queued s (waitlist_head (obj s ob)) w \<and> owner (obj s' ob) = Some (wb_thread (waitblk s w)))))"
proof -
  consider (no) "owner (obj s ob) \<noteq> Some (self s)" | (more) "owner (obj s ob) = Some (self s)" "1 < recursion (obj s ob)"
    | (one) "owner (obj s ob) = Some (self s)" "\<not> 1 < recursion (obj s ob)" by blast
  then show ?thesis
  proof cases
    case no
    then show ?thesis using e ok by (simp add: release_mutex_def)
  next
    case more
    then show ?thesis using e ok by (auto simp: release_mutex_def upd_obj_def lock_state_def mutex_ok_def Let_def)
  next
    case one
    then show ?thesis using release_mutex_law [OF e] by (auto simp: mutex_ok_def)
  qed
qed

lemma mutex_example_fields: "obj mutex_example = (\<lambda>_. example_object\<lparr>o_type := OBJECT_MUTEX, owner := Some 0, recursion := 1\<rparr>)"
  by (simp add: mutex_example_def)

lemma mutex_example_self: "self mutex_example = 0"
  by (simp add: mutex_example_def handles_example_def objects.extend_def objects_example_def task_state.extend_def
    tasks_example_def timers.extend_def timers_base_def sched.extend_def sched_example_def dpc_state.extend_def sched.fields_def)

section \<open>The property\<close>

text \<open>C5. Releasing a mutex keeps it consistent. A thread that does not own it is refused and nothing changes; an owner that
  holds it more than once goes on owning it, one time less; otherwise the mutex becomes free, or it belongs to a thread
  that was waiting for it, never to any other. No other object gets a new owner or is signaled. Without waiting
  threads the call returns.\<close>

theorem release_mutex_handover:
  assumes "mutex_ok (obj s ob)"
  shows "(waitlist_head (obj s ob) = None \<longrightarrow> (\<exists>rc s'. release_mutex ob s = Returns (rc, s')))
     \<and> (\<forall>rc s'. release_mutex ob s = Returns (rc, s') \<longrightarrow>
          mutex_ok (obj s' ob) \<and> (\<forall>x. x \<noteq> ob \<longrightarrow> lock_state s' x = lock_state s x)
          \<and> (if owner (obj s ob) \<noteq> Some (self s) then rc = - EPERM \<and> s' = s
             else if 1 < recursion (obj s ob) then
               rc = 0 \<and> owner (obj s' ob) = Some (self s) \<and> recursion (obj s' ob) = recursion (obj s ob) - 1
             else rc = 0 \<and> (owner (obj s' ob) = None
                \<or> (\<exists>w. queued s (waitlist_head (obj s ob)) w \<and> owner (obj s' ob) = Some (wb_thread (waitblk s w))))))"
proof (rule conjI)
  show "waitlist_head (obj s ob) = None \<longrightarrow> (\<exists>rc s'. release_mutex ob s = Returns (rc, s'))"
    using release_mutex_nobody [of s ob] by (cases "owner (obj s ob) = Some (self s)") (auto simp: release_mutex_def)
qed (use release_mutex_cases [OF assms] in blast)

theorem release_mutex_handover_witness:
  "\<exists>rc s'. release_mutex 0 mutex_example = Returns (rc, s') \<and> rc = 0 \<and> mutex_ok (obj s' 0)"
  using release_mutex_handover [of mutex_example 0]
  by (auto simp: mutex_example_fields mutex_example_self example_object_def mutex_ok_def)

end
