(* ===== verification/Threads.thy ===== *)
theory Threads
  imports Hndl
begin

text \<open>
  The life of kernel threads in \<^verbatim>\<open>src/src/sys/kernel/sched.c\<close>: their creation from the page allocator, the thread of a task
  queue, the start of the scheduler, and the end of a thread. The address of a thread control block is the number of
  its thread, its object and its alarm timer. The first stack frame of a new thread is not part of the state. The
  parameter \<open>notify\<close> is what the debugger does when it is told of a new thread.
\<close>

abbreviation (input) PFT_TCB :: u8 where "PFT_TCB \<equiv> 0x0C"
abbreviation (input) THREAD_NAME_LEN :: nat where "THREAD_NAME_LEN \<equiv> 16"

section \<open>Creation\<close>

definition kthread_create :: "int \<Rightarrow> 'a objects_scheme \<Rightarrow> (nat option \<times> 'a objects_scheme) outcome" where
  "kthread_create prio s =
     bind_outcome (kmem_alloc_align PAGES_PER_TCB PAGES_PER_TCB PFT_TCB s) (\<lambda>(a, s).
       if a = 0 then Returns (None, s)
       else
         let t = unat a; s = init_thread t prio s in
         case threadlist s of
           None \<Rightarrow> Faults
         | Some l \<Rightarrow>
             bind_outcome (insert_before l t s) (\<lambda>s.
               Returns (Some t, if priority (threads s t) > priority (threads s (self s)) then s\<lparr>preempt := True\<rparr> else s)))"

definition kthread_create_kland ::
    "(nat \<Rightarrow> nat \<Rightarrow> 'a objects_scheme \<Rightarrow> 'a objects_scheme outcome) \<Rightarrow> nat \<Rightarrow> int \<Rightarrow> string option \<Rightarrow> 'a objects_scheme
     \<Rightarrow> (nat option \<times> 'a objects_scheme) outcome" where
  "kthread_create_kland notify startaddr prio name s =
     bind_outcome (kthread_create prio s) (\<lambda>(r, s).
       case r of
         None \<Rightarrow> Returns (None, s)
       | Some t \<Rightarrow>
           let s = (case name of None \<Rightarrow> s | Some n \<Rightarrow> upd_thread t (\<lambda>x. x\<lparr>t_name := take (THREAD_NAME_LEN - 1) n\<rparr>) s);
               s = upd_thread t (\<lambda>x. x\<lparr>entrypoint := startaddr\<rparr>) s in
           bind_outcome (kthread_ready t 0 0 s) (\<lambda>s.
           bind_outcome (notify t startaddr s) (\<lambda>s.
           Returns (Some t, s))))"

text \<open>The thread of a task queue runs the procedure \<open>task_queue_task\<close>, whose address is the first argument.\<close>

definition init_task_queue ::
    "nat \<Rightarrow> (nat \<Rightarrow> nat \<Rightarrow> 'a objects_scheme \<Rightarrow> 'a objects_scheme outcome) \<Rightarrow> nat \<Rightarrow> int \<Rightarrow> int \<Rightarrow> string option
     \<Rightarrow> 'a objects_scheme \<Rightarrow> (int \<times> 'a objects_scheme) outcome" where
  "init_task_queue task_proc notify q prio maxsize name s =
     (let s = upd_tq q (\<lambda>_. \<lparr>tq_head = None, tq_tail = None, tq_thread = None, tq_maxsize = maxsize, tq_size = 0, tq_flags = 0\<rparr>) s in
      bind_outcome (kthread_create_kland notify task_proc prio name s) (\<lambda>(t, s).
      Returns (0, upd_tq q (\<lambda>x. x\<lparr>tq_thread := t\<rparr>) s)))"

section \<open>The start of the scheduler\<close>

text \<open>The length of the system task queue is not bounded: \<^verbatim>\<open>INFINITE\<close> is \<open>- 1\<close> as an integer.\<close>

definition ksched_init ::
    "nat \<Rightarrow> (nat \<Rightarrow> nat \<Rightarrow> 'a objects_scheme \<Rightarrow> 'a objects_scheme outcome) \<Rightarrow> 'a objects_scheme \<Rightarrow> 'a objects_scheme outcome" where
  "ksched_init task_proc notify s =
     (let idle = self s;
          s = s\<lparr>dpc_queue_head := None, dpc_queue_tail := None, ready_queue_head := (\<lambda>_. None), ready_queue_tail := (\<lambda>_. None),
                threadlist := Some idle\<rparr>;
          s = init_object idle OBJECT_THREAD s;
          s = upd_thread idle (\<lambda>_. zero_thread\<lparr>priority := PRIORITY_SYSIDLE, t_state := RUNNING, t_next := Some idle, t_prev := Some idle,
                t_name := ''idle''\<rparr>) s;
          s = upd_timer idle (\<lambda>_. \<lparr>tm_expires = 0, tm_active = False, tm_handler = Timerproc 0, tm_arg = 0\<rparr>) s;
          s = s\<lparr>link_next := (link_next s)(TMR idle := None), link_prev := (link_prev s)(TMR idle := None),
                thread_ready_summary := 1\<rparr> in
      bind_outcome (init_task_queue task_proc notify sys_task_queue PRIORITY_NORMAL (- 1) (Some ''systask'') s) (\<lambda>(_, s).
      Returns s))"

section \<open>The end of a thread\<close>

definition kthread_terminate ::
    "'a handles_scheme cpu \<Rightarrow> 'a handles_scheme services \<Rightarrow> int \<Rightarrow> 'a handles_scheme \<Rightarrow> 'a handles_scheme outcome" where
  "kthread_terminate cpu sv code s =
     (let t = self s; s = upd_thread t (\<lambda>x. x\<lparr>t_state := TERMINATED, exitcode := code\<rparr>) s in
      bind_outcome (ktimer_remove t s) (\<lambda>(_, s).
      bind_outcome (kthread_exit t s) (\<lambda>s.
      bind_outcome (hfree sv (t_hndl (threads s t)) (snd (hunprotect (t_hndl (threads s t)) s))) (\<lambda>(_, s).
      ksched_dispatch cpu s))))"

end
