(* ===== verification/Vmm.thy ===== *)
theory Vmm
  imports Threads
begin

text \<open>
  User memory of \<^verbatim>\<open>src/src/sys/kernel/vmm.c\<close> and the user threads of \<^verbatim>\<open>src/src/sys/kernel/sched.c\<close> that live in it. The map of the
  user's half of the address space is a resource map; pages are committed with frames from the frame database. A
  file map has an object of its own, at its address. The content of user pages is not part of the state, except for the
  thread information block of each thread.
\<close>

section \<open>Data\<close>

record filemap =
  fm_file :: int
  fm_offset :: int
  fm_addr :: u32
  fm_size :: u32
  fm_protect :: u32
  fm_pages :: int
  fm_self :: int

record tib =
  tib_except :: u32
  tib_stacktop :: u32
  tib_stacklimit :: u32
  tib_self :: u32
  tib_pid :: int
  tib_tid :: int
  tib_tlsbase :: u32
  tib_peb :: u32
  tib_stackbase :: u32
  tib_hndl :: int

record vmm = handles +
  vmap :: rmap
  filemap_of :: "nat \<Rightarrow> filemap"
  tib_of :: "nat \<Rightarrow> tib"
  peb :: u32

definition upd_tib :: "nat \<Rightarrow> (tib \<Rightarrow> tib) \<Rightarrow> 'a vmm_scheme \<Rightarrow> 'a vmm_scheme" where
  "upd_tib t f s = s\<lparr>tib_of := (tib_of s)(t := f (tib_of s t))\<rparr>"

abbreviation (input) VMAP_ENTRIES :: u32 where "VMAP_ENTRIES \<equiv> 1024"
abbreviation (input) VMEM_START :: u32 where "VMEM_START \<equiv> 0x10000"
abbreviation (input) PAGE_READWRITE :: u32 where "PAGE_READWRITE \<equiv> 0x04"
abbreviation (input) PAGE_GUARD :: u32 where "PAGE_GUARD \<equiv> 0x100"
abbreviation (input) MEM_COMMIT :: u32 where "MEM_COMMIT \<equiv> 0x1000"
abbreviation (input) MEM_RESERVE :: u32 where "MEM_RESERVE \<equiv> 0x2000"
abbreviation (input) MEM_DECOMMIT :: u32 where "MEM_DECOMMIT \<equiv> 0x4000"
abbreviation (input) MEM_RELEASE :: u32 where "MEM_RELEASE \<equiv> 0x8000"
abbreviation (input) MEM_ALIGN64K :: u32 where "MEM_ALIGN64K \<equiv> 0x10000000"
abbreviation (input) PT_PROTECTMASK :: u32 where "PT_PROTECTMASK \<equiv> PT_WRITABLE OR PT_USER OR PT_GUARD"
abbreviation (input) BAD_PROTECT :: u32 where "BAD_PROTECT \<equiv> 0xFFFFFFFF"
abbreviation (input) PFT_VM :: u8 where "PFT_VM \<equiv> 0x13"
abbreviation (input) PFT_STACK :: u8 where "PFT_STACK \<equiv> 0x0F"
abbreviation (input) PFT_TIB :: u8 where "PFT_TIB \<equiv> 0x15"
abbreviation (input) SIZEOF_FILEMAP :: int where "SIZEOF_FILEMAP \<equiv> 48"
abbreviation (input) SIZEOF_TIB :: u32 where "SIZEOF_TIB \<equiv> 4096"
abbreviation (input) TLS_OFFSET :: u32 where "TLS_OFFSET \<equiv> 0xE10"

section \<open>Ranges and protection\<close>

definition valid_range :: "u32 \<Rightarrow> u32 \<Rightarrow> 'a vmm_scheme \<Rightarrow> bool outcome" where
  "valid_range addr sz s =
     (let pages = PAGES sz in
      if addr < VMEM_START then Returns False
      else if KERNELSPACE (addr + pages * PAGESIZE) then Returns False
      else bind_outcome (krmap_get_status (vmap s) (BTOP addr) pages) (\<lambda>st. Returns (st = 1)))"

definition pte_flags_from_protect :: "u32 \<Rightarrow> u32" where
  "pte_flags_from_protect protect =
     (if protect = 0x01 then 0
      else if protect = 0x02 \<or> protect = 0x10 \<or> protect = 0x20 then PT_USER
      else if protect = 0x04 \<or> protect = 0x40 then PT_USER OR PT_WRITABLE
      else if protect = 0x102 \<or> protect = 0x110 \<or> protect = 0x120 then PT_GUARD
      else if protect = 0x104 \<or> protect = 0x140 then PT_GUARD OR PT_WRITABLE
      else BAD_PROTECT)"

definition kvmm_initialize :: "'a vmm_scheme \<Rightarrow> 'a vmm_scheme outcome" where
  "kvmm_initialize s =
     bind_outcome (kmalloc (int 1024 * 8) s) (\<lambda>(a, s).
       case krmap_initialize (if a = 0 then None else Some (take 1024 (vmap s))) VMAP_ENTRIES of
         (rc, None) \<Rightarrow> if rc \<noteq> 0 then Panics ''Error initializing virtual memory map'' else Faults
       | (rc, Some m) \<Rightarrow>
           if rc \<noteq> 0 then Panics ''Error initializing virtual memory map''
           else
             bind_outcome (krmap_free m (BTOP VMEM_START) (BTOP (OSBASE - VMEM_START))) (\<lambda>(_, m).
             Returns (s\<lparr>vmap := m\<rparr>)))"

section \<open>Allocation and release\<close>

text \<open>Commits pages one after the other; False when no frame is left. What was committed so far stays.\<close>

primrec vm_commit :: "nat \<Rightarrow> u32 \<Rightarrow> u32 \<Rightarrow> u8 \<Rightarrow> 'a vmm_scheme \<Rightarrow> (bool \<times> 'a vmm_scheme) outcome" where
  "vm_commit 0 vaddr flags tag s = Returns (True, s)"
| "vm_commit (Suc n) vaddr flags tag s =
     bind_outcome
       (if kpage_is_mapped s vaddr \<noteq> 0 then
          bind_outcome (kpage_set_flags vaddr (flags OR PT_PRESENT) s) (\<lambda>s. Returns (True, s))
        else
          bind_outcome (kpframe_alloc 1 tag s) (\<lambda>(pfn, s).
            if pfn = INVALID_PFRAME then Returns (False, s)
            else bind_outcome (kpage_map vaddr pfn (flags OR PT_PRESENT) s) (\<lambda>s. Returns (True, s)))) (\<lambda>(ok, s).
       if ok then vm_commit n (vaddr + PAGESIZE) flags tag s else Returns (False, s))"

text \<open>The reservation of a range: at an address of the map's choice, or at the given one. The address 0 stands for failure.\<close>

definition vm_reserve :: "u32 \<Rightarrow> u32 \<Rightarrow> bool \<Rightarrow> 'a vmm_scheme \<Rightarrow> (u32 \<times> 'a vmm_scheme) outcome" where
  "vm_reserve address pages align64k s =
     (if address = 0 then
        bind_outcome (if align64k then krmap_alloc_align (vmap s) pages 16 else krmap_alloc (vmap s) pages) (\<lambda>(off, m).
        Returns (PTOB off, s\<lparr>vmap := m\<rparr>))
      else
        bind_outcome (krmap_reserve (Some (vmap s)) (BTOP address) pages) (\<lambda>(rc, m).
          case m of
            None \<Rightarrow> Faults
          | Some m \<Rightarrow> Returns (if rc \<noteq> 0 then 0 else address, s\<lparr>vmap := m\<rparr>)))"

text \<open>The result is the address, 0 for NULL, and the error code.\<close>

definition vmalloc ::
    "u32 \<Rightarrow> u32 \<Rightarrow> u32 \<Rightarrow> u32 \<Rightarrow> u8 \<Rightarrow> 'a vmm_scheme \<Rightarrow> (u32 \<times> int \<times> 'a vmm_scheme) outcome" where
  "vmalloc address sz ty protect tag s =
     (let pages = PAGES sz; flags = pte_flags_from_protect protect in
      if sz = 0 then Returns (0, - EINVAL, s)
      else if ty AND MEM_COMMIT \<noteq> 0 \<and> flags = BAD_PROTECT then Returns (0, - EINVAL, s)
      else
        let address = PAGEADDR address;
            ty = (if address = 0 \<and> ty AND MEM_COMMIT \<noteq> 0 then ty OR MEM_RESERVE else ty);
            tag = (if tag = 0 then PFT_VM else tag) in
        bind_outcome
          (if ty AND MEM_RESERVE \<noteq> 0 then
             bind_outcome (vm_reserve address pages (ty AND MEM_ALIGN64K \<noteq> 0) s) (\<lambda>(a, s).
             Returns (a, if a = 0 then - ENOMEM else 0, s))
           else
             bind_outcome (valid_range address sz s) (\<lambda>ok. Returns (if ok then (address, 0, s) else (0, - EFAULT, s)))) (\<lambda>(a, rc, s).
          if rc \<noteq> 0 then Returns (0, rc, s)
          else if ty AND MEM_COMMIT \<noteq> 0 then
            bind_outcome (vm_commit (unat pages) a flags tag s) (\<lambda>(ok, s).
            Returns (if ok then (a, 0, s) else (0, - ENOMEM, s)))
          else Returns (a, 0, s)))"

text \<open>The release of the frames of a range, page by page.\<close>

primrec vm_decommit :: "nat \<Rightarrow> u32 \<Rightarrow> 'a vmm_scheme \<Rightarrow> 'a vmm_scheme outcome" where
  "vm_decommit 0 vaddr s = Returns s"
| "vm_decommit (Suc n) vaddr s =
     bind_outcome
       (if kpage_is_directory_mapped s vaddr \<noteq> 0 then
          bind_outcome (kpage_get_flags s vaddr) (\<lambda>flags.
          bind_outcome (kpage_virt2phys s vaddr) (\<lambda>phys.
            if flags AND PT_PRESENT \<noteq> 0 then
              bind_outcome (kpage_unmap vaddr s) (kpframe_free (BTOP phys))
            else Returns s))
        else Returns s) (vm_decommit n (vaddr + PAGESIZE))"

definition vmfree :: "u32 \<Rightarrow> u32 \<Rightarrow> u32 \<Rightarrow> 'a vmm_scheme \<Rightarrow> (int \<times> 'a vmm_scheme) outcome" where
  "vmfree addr sz ty s =
     (let pages = PAGES sz in
      if sz = 0 then Returns (0, s)
      else
        let addr = PAGEADDR addr in
        bind_outcome (valid_range addr sz s) (\<lambda>ok.
          if \<not> ok then Returns (- EINVAL, s)
          else
            bind_outcome
              (if ty AND (MEM_DECOMMIT OR MEM_RELEASE) \<noteq> 0 then vm_decommit (unat pages) addr s else Returns s) (\<lambda>s.
            if ty AND MEM_RELEASE \<noteq> 0 then
              bind_outcome (krmap_free (vmap s) (BTOP addr) pages) (\<lambda>(_, m). Returns (0, s\<lparr>vmap := m\<rparr>))
            else Returns (0, s))))"

definition vmrealloc :: "u32 \<Rightarrow> u32 \<Rightarrow> u32 \<Rightarrow> u32 \<Rightarrow> u32 \<Rightarrow> u32 \<Rightarrow> u32" where
  "vmrealloc addr oldsize newsize ty protect tag = 0"

primrec vm_protect :: "nat \<Rightarrow> u32 \<Rightarrow> u32 \<Rightarrow> 'a vmm_scheme \<Rightarrow> 'a vmm_scheme outcome" where
  "vm_protect 0 vaddr flags s = Returns s"
| "vm_protect (Suc n) vaddr flags s =
     bind_outcome
       (if kpage_is_mapped s vaddr \<noteq> 0 then
          bind_outcome (kpage_get_flags s vaddr) (\<lambda>old. kpage_set_flags vaddr ((old AND NOT PT_PROTECTMASK) OR flags) s)
        else Returns s) (vm_protect n (vaddr + PAGESIZE) flags)"

definition vmprotect :: "u32 \<Rightarrow> u32 \<Rightarrow> u32 \<Rightarrow> 'a vmm_scheme \<Rightarrow> (int \<times> 'a vmm_scheme) outcome" where
  "vmprotect addr sz protect s =
     (if sz = 0 then Returns (0, s)
      else
        let addr = PAGEADDR addr; flags = pte_flags_from_protect protect in
        bind_outcome (valid_range addr sz s) (\<lambda>ok.
          if \<not> ok then Returns (- EINVAL, s)
          else if flags = BAD_PROTECT then Returns (- EINVAL, s)
          else bind_outcome (vm_protect (unat (PAGES sz)) addr flags s) (\<lambda>s. Returns (0, s))))"

definition vmlock :: "u32 \<Rightarrow> u32 \<Rightarrow> int" where
  "vmlock addr sz = - ENOSYS"

definition vmunlock :: "u32 \<Rightarrow> u32 \<Rightarrow> int" where
  "vmunlock addr sz = - ENOSYS"

section \<open>File maps and device memory\<close>

definition vmmap ::
    "u32 \<Rightarrow> u32 \<Rightarrow> u32 \<Rightarrow> nat \<Rightarrow> int \<Rightarrow> 'a vmm_scheme \<Rightarrow> (u32 \<times> int \<times> 'a vmm_scheme) outcome" where
  "vmmap addr sz protect filp offset s =
     (let pages = PAGES sz; flags = pte_flags_from_protect protect in
      if sz = 0 \<or> flags = BAD_PROTECT then Returns (0, - EINVAL, s)
      else
        bind_outcome (vm_reserve (PAGEADDR addr) pages False s) (\<lambda>(addr, s).
          if addr = 0 then Returns (0, - ENOMEM, s)
          else
            bind_outcome (kmalloc SIZEOF_FILEMAP s) (\<lambda>(a, s).
              if a = 0 then
                bind_outcome (krmap_free (vmap s) (BTOP addr) pages) (\<lambda>(_, m). Returns (0, - ENOMEM, s\<lparr>vmap := m\<rparr>))
              else
                let fm = unat a in
                bind_outcome (halloc fm (init_object fm OBJECT_FILEMAP s)) (\<lambda>(h1, s).
                bind_outcome (halloc filp s) (\<lambda>(h2, s).
                  if h1 < 0 \<or> h2 < 0 then Returns (0, - ENFILE, s)
                  else
                    let s = snd (hprotect h2 (snd (hprotect h1 s)));
                        s = upd_obj fm (\<lambda>x. x\<lparr>signaled := True\<rparr>) s;
                        s = s\<lparr>filemap_of := (filemap_of s)(fm := \<lparr>fm_file = h2, fm_offset = offset, fm_addr = addr, fm_size = sz,
                              fm_protect = flags OR PT_FILE, fm_pages = uint pages, fm_self = h1\<rparr>)\<rparr> in
                    bind_outcome
                      (for_each [0..<unat pages] (\<lambda>i. kpage_map (addr + of_nat i * PAGESIZE) (of_int h1) ((flags AND NOT PT_USER) OR PT_FILE)) s) (\<lambda>s.
                    Returns (addr, 0, s)))))))"

text \<open>Synchronizing does nothing: its body is commented out.\<close>

definition vmsync :: "u32 \<Rightarrow> u32 \<Rightarrow> int" where
  "vmsync addr sz = 0"

definition miomap :: "u32 \<Rightarrow> u32 \<Rightarrow> u32 \<Rightarrow> 'a vmm_scheme \<Rightarrow> (u32 \<times> 'a vmm_scheme) outcome" where
  "miomap addr sz protect s =
     (let flags = pte_flags_from_protect protect; pages = PAGES sz in
      bind_outcome (krmap_alloc (vmap s) pages) (\<lambda>(off, m).
        let vaddr = PTOB off; s = s\<lparr>vmap := m\<rparr> in
        if vaddr = 0 then Returns (0, s)
        else
          bind_outcome
            (for_each [0..<unat pages] (\<lambda>i. kpage_map (vaddr + PTOB (of_nat i)) (BTOP addr + of_nat i) (flags OR PT_PRESENT)) s) (\<lambda>s.
          Returns (vaddr, s))))"

definition miounmap :: "u32 \<Rightarrow> u32 \<Rightarrow> 'a vmm_scheme \<Rightarrow> 'a vmm_scheme outcome" where
  "miounmap addr sz s =
     (let pages = PAGES sz in
      bind_outcome (for_each [0..<unat pages] (\<lambda>i. kpage_unmap (addr + PTOB (of_nat i))) s) (\<lambda>s.
      bind_outcome (krmap_free (vmap s) (BTOP addr) pages) (\<lambda>(_, m). Returns (s\<lparr>vmap := m\<rparr>))))"

section \<open>Stacks and user threads\<close>

definition guard_page_handler :: "u32 \<Rightarrow> 'a vmm_scheme \<Rightarrow> (int \<times> 'a vmm_scheme) outcome" where
  "guard_page_handler addr s =
     (let t = self s; b = tib_of s t in
      if \<not> has_tib (threads s t) then Returns (- EFAULT, s)
      else if addr < tib_stacklimit b \<or> addr \<ge> tib_stacktop b then Returns (- EFAULT, s)
      else if tib_stacklimit b \<le> tib_stackbase b then Returns (- EFAULT, s)
      else
        bind_outcome (kpframe_alloc 1 PFT_STACK s) (\<lambda>(pfn, s).
          if pfn = INVALID_PFRAME then Returns (- ENOMEM, s)
          else
            let s = upd_tib t (\<lambda>x. x\<lparr>tib_stacklimit := tib_stacklimit x - PAGESIZE\<rparr>) s in
            bind_outcome (kpage_map (tib_stacklimit (tib_of s t)) pfn (PT_GUARD OR PT_WRITABLE OR PT_PRESENT) s) (\<lambda>s.
            Returns (0, s))))"

record meminfo =
  physmem_total :: u32
  physmem_avail :: u32
  virtmem_total :: u32
  virtmem_avail :: u32
  mi_pagesize :: u32

definition mem_sysinfo :: "'a vmm_scheme \<Rightarrow> meminfo" where
  "mem_sysinfo s =
     \<lparr>physmem_total = useableCount s * PAGESIZE, physmem_avail = freeCount s * PAGESIZE, virtmem_total = OSBASE - VMEM_START,
      virtmem_avail = 0, mi_pagesize = PAGESIZE\<rparr>"

definition init_user_thread :: "nat \<Rightarrow> nat \<Rightarrow> 'a vmm_scheme \<Rightarrow> (int \<times> 'a vmm_scheme) outcome" where
  "init_user_thread t entry s =
     bind_outcome (vmalloc 0 SIZEOF_TIB (MEM_RESERVE OR MEM_COMMIT) PAGE_READWRITE PFT_TIB s) (\<lambda>(a, _, s).
       if a = 0 then Returns (- ENOMEM, s)
       else
         let s = upd_thread t (\<lambda>x. x\<lparr>entrypoint := entry, has_tib := True\<rparr>) s
         in Returns (0, upd_tib t (\<lambda>_. \<lparr>tib_except = 0xFFFFFFFF, tib_stacktop = 0, tib_stacklimit = 0, tib_self = a, tib_pid = 1,
              tib_tid = t_id (threads s t), tib_tlsbase = a + TLS_OFFSET, tib_peb = peb s, tib_stackbase = 0, tib_hndl = 0\<rparr>) s))"

definition allocate_user_stack :: "nat \<Rightarrow> u32 \<Rightarrow> u32 \<Rightarrow> 'a vmm_scheme \<Rightarrow> (int \<times> 'a vmm_scheme) outcome" where
  "allocate_user_stack t reserve commit s =
     bind_outcome (vmalloc 0 reserve MEM_RESERVE PAGE_READWRITE PFT_STACK s) (\<lambda>(stack, _, s).
       if stack = 0 then Returns (- ENOMEM, s)
       else
         let lim = stack + (reserve - commit);
             s = upd_tib t (\<lambda>x. x\<lparr>tib_stackbase := stack, tib_stacktop := stack + reserve, tib_stacklimit := lim\<rparr>) s in
         bind_outcome (vmalloc lim commit MEM_COMMIT PAGE_READWRITE PFT_STACK s) (\<lambda>(a, _, s).
           if a = 0 then Returns (- ENOMEM, s)
           else
             bind_outcome (vmprotect lim PAGESIZE (PAGE_READWRITE OR PAGE_GUARD) s) (\<lambda>(rc, s).
             Returns (if rc < 0 then - ENOMEM else 0, s))))"

abbreviation (input) DEFAULT_STACK_SIZE :: u32 where "DEFAULT_STACK_SIZE \<equiv> 0x100000"
abbreviation (input) DEFAULT_INITIAL_STACK_COMMIT :: u32 where "DEFAULT_INITIAL_STACK_COMMIT \<equiv> 0x2000"

definition kthread_create_uland ::
    "(nat \<Rightarrow> nat \<Rightarrow> 'a vmm_scheme \<Rightarrow> 'a vmm_scheme outcome) \<Rightarrow> nat \<Rightarrow> u32 \<Rightarrow> string option \<Rightarrow> 'a vmm_scheme
     \<Rightarrow> (int \<times> nat option \<times> 'a vmm_scheme) outcome" where
  "kthread_create_uland notify entry stacksize name s =
     (let creator = self s;
          stacksize = (if stacksize = 0 then DEFAULT_STACK_SIZE else PAGES stacksize * PAGESIZE) in
      bind_outcome (kthread_create PRIORITY_NORMAL s) (\<lambda>(r, s).
        case r of
          None \<Rightarrow> Returns (- ENOMEM, None, s)
        | Some t \<Rightarrow>
            let s = (case name of None \<Rightarrow> s | Some n \<Rightarrow> upd_thread t (\<lambda>x. x\<lparr>t_name := take (THREAD_NAME_LEN - 1) n\<rparr>) s);
                c = threads s creator;
                s = upd_thread t (\<lambda>x. x\<lparr>suspend_count := suspend_count x + 1, ruid := euid c, euid := euid c, rgid := egid c,
                      egid := egid c, groups := groups c, curdir := curdir c\<rparr>) s in
            bind_outcome (init_user_thread t entry s) (\<lambda>(rc, s).
              if rc < 0 then Returns (rc, None, s)
              else
                bind_outcome (allocate_user_stack t stacksize DEFAULT_INITIAL_STACK_COMMIT s) (\<lambda>(rc, s).
                  if rc < 0 then Returns (rc, None, s)
                  else
                    bind_outcome (halloc t s) (\<lambda>(h, s).
                      let s = upd_tib t (\<lambda>x. x\<lparr>tib_hndl := h\<rparr>) (upd_thread t (\<lambda>x. x\<lparr>t_hndl := h\<rparr>) s);
                          s = ktimer_init t Tmr_alarm t (snd (hprotect h s)) in
                      bind_outcome (notify t entry s) (\<lambda>s. Returns (0, Some t, s)))))))"

text \<open>The release of the stack and the thread information block of a thread, for the destruction of threads.\<close>

definition destroy_user_memory :: "nat \<Rightarrow> 'a vmm_scheme \<Rightarrow> 'a vmm_scheme outcome" where
  "destroy_user_memory t s =
     bind_outcome
       (let b = tib_of s t in
        if tib_stackbase b \<noteq> 0 then
          bind_outcome (vmfree (tib_stackbase b) (tib_stacktop b - tib_stackbase b) MEM_RELEASE s) (\<lambda>(_, s).
          Returns (upd_tib t (\<lambda>x. x\<lparr>tib_stackbase := 0\<rparr>) s))
        else Returns s) (\<lambda>s.
     bind_outcome (vmfree (tib_self (tib_of s t)) SIZEOF_TIB MEM_RELEASE s) (\<lambda>(_, s). Returns s))"

text \<open>The kernel's own services: user memory is released as above.\<close>

definition kernel_services :: "'a vmm_scheme services \<Rightarrow> 'a vmm_scheme services" where
  "kernel_services sv = sv\<lparr>free_user_memory := destroy_user_memory\<rparr>"

end
