(* ===== verification/Vmm_Correct.thy ===== *)
theory Vmm_Correct
  imports Vmm Hndl_Correct
begin

text \<open>
  The growth of user stacks: the handler of the guard page never takes a stack below its reserved range.
\<close>

section \<open>The invariant of a stack\<close>

definition stack_ok :: "tib \<Rightarrow> bool" where
  "stack_ok b \<longleftrightarrow>
     4096 dvd unat (tib_stackbase b) \<and> 4096 dvd unat (tib_stacklimit b)
     \<and> tib_stackbase b \<le> tib_stacklimit b \<and> tib_stacklimit b < tib_stacktop b"

text \<open>The running thread has a stack of three pages, of which one is committed; three frames are free.\<close>

definition vmm_example :: vmm where
  "vmm_example = handles.extend handles_example
     (vmm.fields [] (\<lambda>_. \<lparr>fm_file = 0, fm_offset = 0, fm_addr = 0, fm_size = 0, fm_protect = 0, fm_pages = 0, fm_self = 0\<rparr>)
       (\<lambda>_. \<lparr>tib_except = 0, tib_stacktop = 0x13000, tib_stacklimit = 0x12000, tib_self = 0, tib_pid = 1, tib_tid = 0, tib_tlsbase = 0,
             tib_peb = 0, tib_stackbase = 0x10000, tib_hndl = 0\<rparr>) 0)
     \<lparr>freeCount := 3, frameCount := 8, frameArray := [3, 8, 0x10, 0x10, 7, 1, 1, 1, 0], pdir := (\<lambda>i. if i = 0 then 0x1007 else 0)\<rparr>"

section \<open>Frames\<close>

lemma kpframe_alloc_tib:
  fixes s :: "'a vmm_scheme"
  assumes "kpframe_alloc n tag s = Returns (pfn, s')"
  shows "tib_of s' = tib_of s \<and> pdir s' = pdir s"
proof -
  have "(tib_of (s2 :: 'a vmm_scheme), pdir s2) = (tib_of s1, pdir s1)" if "for_each [0..<unat n] (\<lambda>j. PFRAME_SET_TAG (i + j) tag) s1 = Returns s2" for i s1 s2
    by (rule for_each_frame [OF _ that]) (auto simp: PFRAME_SET_TAG_def split: if_splits)
  then show ?thesis using assms
    by (auto simp: kpframe_alloc_def bind_outcome_Returns_iff split: if_splits option.splits)
qed

lemma kpage_map_tib:
  fixes s :: "'a vmm_scheme"
  assumes "kpage_map va frame flags s = Returns s'"
  shows "tib_of s' = tib_of s"
  using assms kpframe_alloc_tib
  by (fastforce simp: kpage_map_def bind_outcome_Returns_iff SET_PDE_def SET_PTE_def clear_ptab_def Let_def split: if_splits)

lemma kpage_map_accessible:
  assumes "kpage_map va frame flags s = Returns s'"
  shows "accessible s' flags va"
proof -
  obtain s1 where "SET_PTE va (PTOB frame OR flags) s1 = Returns s'"
    using assms unfolding kpage_map_def bind_outcome_Returns_iff by blast
  then have "pte_at s' va = Some (PTOB frame OR flags)" by (auto simp: SET_PTE_def pte_at_def GET_PDE_def split: if_splits)
  moreover have "(PTOB frame OR flags) AND flags = flags" by (rule bit_word_eqI) (auto simp: bit_simps)
  ultimately show ?thesis by (simp add: accessible_def)
qed

lemma page_below:
  fixes a b :: u32
  assumes "4096 dvd unat a" "4096 dvd unat b" "a < b"
  shows "a \<le> b - 4096" "b - 4096 < b" "4096 dvd unat (b - 4096)"
proof -
  obtain i j where ij: "unat a = 4096 * i" "unat b = 4096 * j" using assms(1,2) by (elim dvdE) simp
  have "unat a < unat b" using assms(3) by (simp add: word_less_nat_alt)
  then have "i < j" using ij by simp
  then have "Suc i \<le> j" by simp
  then have le: "4096 * i + 4096 \<le> 4096 * j" by linarith
  then have u: "unat (b - 4096) = unat b - 4096" using ij unat_minus_le [of 4096 b] by simp
  then show "a \<le> b - 4096" "b - 4096 < b" "4096 dvd unat (b - 4096)"
    using ij le by (simp_all add: word_le_nat_alt word_less_nat_alt dvd_diff_nat)
qed

lemma vmm_example_fields:
  "freeCount vmm_example = 3" "frameCount vmm_example = 8" "frameArray vmm_example = [3, 8, 0x10, 0x10, 7, 1, 1, 1, 0]"
  "pdir vmm_example = (\<lambda>i. if i = 0 then 0x1007 else 0)" "tib_stacklimit (tib_of vmm_example t) = 0x12000"
  "tib_stacktop (tib_of vmm_example t) = 0x13000" "tib_stackbase (tib_of vmm_example t) = 0x10000"
  by (simp_all add: vmm_example_def handles.extend_def vmm.fields_def)

lemma vmm_example_self: "self vmm_example = 0" "has_tib (threads vmm_example 0)"
  by (simp_all add: vmm_example_def handles.extend_def handles_example_def objects.extend_def objects_example_def task_state.extend_def
    tasks_example_def timers.extend_def timers_base_def sched.extend_def sched_example_def dpc_state.extend_def sched.fields_def example_thread_def)

lemma guard_page_example: "\<exists>s'. guard_page_handler 0x12800 vmm_example = Returns (0, s')"
proof -
  have ok: "pframe_ok vmm_example" by (simp add: pframe_ok_def frame_tag_def low_byte_def vmm_example_fields)
  have free: "free_run vmm_example 5 1" by (simp add: free_run_def frame_tag_def low_byte_def vmm_example_fields)
  obtain i s1 where a: "kpframe_alloc 1 PFT_STACK vmm_example = Returns (i, s1)" "i \<noteq> INVALID_PFRAME"
    using kpframe_alloc_law [OF ok, of 1 PFT_STACK] free by (auto simp: vmm_example_fields split: if_splits)
  have f: "pdir s1 = pdir vmm_example" "tib_of s1 = tib_of vmm_example" using kpframe_alloc_tib [OF a(1)] by blast+
  have "PDEIDX 0x11000 = 0" by (simp add: PDEIDX_def drop_bit_eq_div)
  then have m: "\<exists>u'. kpage_map 0x11000 i fl u = Returns u'" if "pdir u = pdir s1" for u :: vmm and fl
    using that f(1) by (simp add: kpage_map_def SET_PTE_def GET_PDE_def vmm_example_fields)
  define u where "u = upd_tib 0 (\<lambda>x. x\<lparr>tib_stacklimit := tib_stacklimit x - PAGESIZE\<rparr>) s1"
  have u: "pdir u = pdir s1" "tib_stacklimit (tib_of u 0) = 0x11000" by (simp_all add: u_def upd_tib_def f(2) vmm_example_fields)
  obtain u' where "kpage_map 0x11000 i (PT_GUARD OR PT_WRITABLE OR PT_PRESENT) u = Returns u'" using m [OF u(1)] by blast
  then have "guard_page_handler 0x12800 vmm_example = Returns (0, u')"
    using a u(2) unfolding u_def by (simp add: guard_page_handler_def vmm_example_self vmm_example_fields Let_def)
  then show ?thesis by blast
qed

section \<open>The property\<close>

text \<open>C34. The stack of a thread stays within the range reserved for it. When the handler of the guard page succeeds, the address was
  on the committed part, the stack grows by exactly one page, which is mapped as the new guard page, and its limit does
  not fall below the base; otherwise the stack is unchanged. Stacks of other threads never change.\<close>

theorem guard_page_handler_bounds:
  assumes "stack_ok (tib_of s (self s))" and "guard_page_handler addr s = Returns (rc, s')"
  shows "stack_ok (tib_of s' (self s)) \<and> (\<forall>t. t \<noteq> self s \<longrightarrow> tib_of s' t = tib_of s t)
     \<and> (if rc = 0 then
          tib_stacklimit (tib_of s (self s)) \<le> addr \<and> addr < tib_stacktop (tib_of s (self s))
          \<and> tib_of s' (self s) = (tib_of s (self s))\<lparr>tib_stacklimit := tib_stacklimit (tib_of s (self s)) - PAGESIZE\<rparr>
          \<and> accessible s' (PT_GUARD OR PT_WRITABLE OR PT_PRESENT) (tib_stacklimit (tib_of s' (self s)))
        else rc \<in> {- EFAULT, - ENOMEM} \<and> tib_of s' = tib_of s)"
proof (cases "has_tib (threads s (self s)) \<and> \<not> (addr < tib_stacklimit (tib_of s (self s)) \<or> addr \<ge> tib_stacktop (tib_of s (self s)))
    \<and> \<not> tib_stacklimit (tib_of s (self s)) \<le> tib_stackbase (tib_of s (self s))")
  case False
  then show ?thesis using assms by (auto simp: guard_page_handler_def Let_def split: if_splits)
next
  case True
  let ?b = "tib_of s (self s)"
  obtain pfn s1 where a: "kpframe_alloc 1 PFT_STACK s = Returns (pfn, s1)"
    using assms(2) True by (auto simp: guard_page_handler_def Let_def bind_outcome_Returns_iff split: if_splits)
  note t1 = kpframe_alloc_tib [OF a, THEN conjunct1]
  show ?thesis
  proof (cases "pfn = INVALID_PFRAME")
    case True
    then show ?thesis using assms a t1 \<open>has_tib _ \<and> _\<close> by (auto simp: guard_page_handler_def Let_def)
  next
    case False
    define s2 where "s2 = upd_tib (self s) (\<lambda>x. x\<lparr>tib_stacklimit := tib_stacklimit x - PAGESIZE\<rparr>) s1"
    have t2: "tib_of s2 = (tib_of s)(self s := ?b\<lparr>tib_stacklimit := tib_stacklimit ?b - PAGESIZE\<rparr>)" by (simp add: s2_def upd_tib_def t1)
    have m: "rc = 0" "kpage_map (tib_stacklimit (tib_of s2 (self s))) pfn (PT_GUARD OR PT_WRITABLE OR PT_PRESENT) s2 = Returns s'"
      using assms(2) a False True by (auto simp: guard_page_handler_def Let_def bind_outcome_Returns_iff s2_def)
    note t3 = kpage_map_tib [OF m(2)] kpage_map_accessible [OF m(2)]
    have "tib_stackbase ?b < tib_stacklimit ?b" using True by (simp add: not_le)
    then have "stack_ok (?b\<lparr>tib_stacklimit := tib_stacklimit ?b - PAGESIZE\<rparr>)"
      using assms(1) page_below [of "tib_stackbase ?b" "tib_stacklimit ?b"] by (auto simp: stack_ok_def intro: less_trans)
    then show ?thesis using True m(1) t2 t3 by auto
  qed
qed

theorem guard_page_handler_bounds_witness:
  "\<exists>s'. guard_page_handler 0x12800 vmm_example = Returns (0, s') \<and> tib_stacklimit (tib_of s' 0) = 0x11000 \<and> stack_ok (tib_of s' 0)"
proof -
  obtain s' where "guard_page_handler 0x12800 vmm_example = Returns (0, s')" using guard_page_example by blast
  then show ?thesis
    using guard_page_handler_bounds [of vmm_example "0x12800" 0 s'] by (simp add: stack_ok_def vmm_example_fields vmm_example_self)
qed

end
